(* ===== verification/Rust_Prelude.thy ===== *)
theory Rust_Prelude
  imports Main "HOL-Library.Code_Target_Nat" "HOL-Library.Word" "HOL-Library.Sublist"
begin

text \<open>
  The prelude: what the sources use of Rust's language and standard library, and the lemmas every
  component shares.

  A Rust \<^verbatim>\<open>str\<close> is its UTF-8 bytes, a \<^typ>\<open>string\<close> of Isabelle, whose characters are bytes.
  \<^verbatim>\<open>len\<close> counts bytes (\<open>length\<close>), \<^verbatim>\<open>chars().count()\<close> counts scalar values (the
  bytes that do not continue one, \<open>chars_count\<close>); a split at an ASCII separator is the same on
  bytes as on scalar values, because no byte of a multi-byte scalar is ASCII.
  A \<^verbatim>\<open>Result\<close> is a sum with the error on the left; \<^verbatim>\<open>?\<close> is \<open>and_then\<close>.
  Derived orders (\<^verbatim>\<open>derive(Ord)\<close>) compare the variant first and then the fields from left to
  right; they are modelled by a key into the linear order \<open>okey\<close>.
\<close>

named_theorems rust_str \<open>rewriting facts about the string operations of the standard library\<close>
named_theorems splits_here \<open>case splits the component proofs use\<close>

declare option.splits [splits_here] if_splits [splits_here] sum.splits [splits_here]

section \<open>Results\<close>

type_synonym ('a, 'e) result = "'e + 'a"

abbreviation Ok :: "'a \<Rightarrow> ('a, 'e) result" where "Ok \<equiv> Inr"
abbreviation Err :: "'e \<Rightarrow> ('a, 'e) result" where "Err \<equiv> Inl"

definition and_then :: "('a, 'e) result \<Rightarrow> ('a \<Rightarrow> ('b, 'e) result) \<Rightarrow> ('b, 'e) result" where
  "and_then r f = (case r of Inl e \<Rightarrow> Inl e | Inr x \<Rightarrow> f x)"

definition ok_or :: "'a option \<Rightarrow> 'e \<Rightarrow> ('a, 'e) result" where
  "ok_or o' e = (case o' of None \<Rightarrow> Inl e | Some x \<Rightarrow> Inr x)"

definition map_err :: "('e \<Rightarrow> 'f) \<Rightarrow> ('a, 'e) result \<Rightarrow> ('a, 'f) result" where
  "map_err f r = (case r of Inl e \<Rightarrow> Inl (f e) | Inr x \<Rightarrow> Inr x)"

definition is_ok :: "('a, 'e) result \<Rightarrow> bool" where
  "is_ok r = (case r of Inl e \<Rightarrow> False | Inr x \<Rightarrow> True)"

lemma and_then_simps [simp]:
  "and_then (Inl e) f = Inl e"
  "and_then (Inr x) f = f x"
  by (simp_all add: and_then_def)

lemma and_then_Ok_iff: "and_then r f = Inr y \<longleftrightarrow> (\<exists>x. r = Inr x \<and> f x = Inr y)"
  by (cases r) simp_all

lemma ok_or_simps [simp]: "ok_or None e = Inl e" "ok_or (Some x) e = Inr x"
  by (simp_all add: ok_or_def)

lemma ok_or_Ok_iff [simp]: "ok_or m e = Inr x \<longleftrightarrow> m = Some x"
  by (cases m) simp_all

lemma map_err_simps [simp]: "map_err f (Inl e) = Inl (f e)" "map_err f (Inr x) = Inr x"
  by (simp_all add: map_err_def)

lemma map_err_Ok_iff [simp]: "map_err f r = Inr x \<longleftrightarrow> r = Inr x"
  by (cases r) simp_all

lemma is_ok_simps [simp]: "is_ok (Inl e) = False" "is_ok (Inr x) = True"
  by (simp_all add: is_ok_def)

section \<open>Characters and strings\<close>

abbreviation byte_of :: "char \<Rightarrow> nat" where "byte_of c \<equiv> of_char c"

definition is_continuation :: "char \<Rightarrow> bool" where
  "is_continuation c \<longleftrightarrow> 128 \<le> byte_of c \<and> byte_of c < 192"

definition chars_count :: "string \<Rightarrow> nat" where
  "chars_count s = length (filter (\<lambda>c. \<not> is_continuation c) s)"

definition is_ascii_digit :: "char \<Rightarrow> bool" where
  "is_ascii_digit c \<longleftrightarrow> 48 \<le> byte_of c \<and> byte_of c \<le> 57"

definition is_ascii_lowercase :: "char \<Rightarrow> bool" where
  "is_ascii_lowercase c \<longleftrightarrow> 97 \<le> byte_of c \<and> byte_of c \<le> 122"

definition is_ascii_uppercase :: "char \<Rightarrow> bool" where
  "is_ascii_uppercase c \<longleftrightarrow> 65 \<le> byte_of c \<and> byte_of c \<le> 90"

definition is_ascii_alphanumeric :: "char \<Rightarrow> bool" where
  "is_ascii_alphanumeric c \<longleftrightarrow> is_ascii_digit c \<or> is_ascii_lowercase c \<or> is_ascii_uppercase c"

lemmas char_class_defs =
  is_ascii_digit_def is_ascii_lowercase_def is_ascii_uppercase_def is_ascii_alphanumeric_def

lemma chars_count_append [rust_str, simp]: "chars_count (s @ t) = chars_count s + chars_count t"
  by (simp add: chars_count_def)

lemma chars_count_Nil [rust_str, simp]: "chars_count [] = 0"
  by (simp add: chars_count_def)

lemma chars_count_ascii:
  "(\<And>c. c \<in> set s \<Longrightarrow> byte_of c < 128) \<Longrightarrow> chars_count s = length s"
  unfolding chars_count_def
  by (metis (mono_tags, lifting) filter_True is_continuation_def not_le)

definition starts_with :: "string \<Rightarrow> string \<Rightarrow> bool" where
  "starts_with s p \<longleftrightarrow> take (length p) s = p"

definition strip_prefix :: "string \<Rightarrow> string \<Rightarrow> string option" where
  "strip_prefix p s = (if starts_with s p then Some (drop (length p) s) else None)"

definition strip_suffix_char :: "char \<Rightarrow> string \<Rightarrow> string option" where
  "strip_suffix_char c s = (if s \<noteq> [] \<and> last s = c then Some (butlast s) else None)"

lemma starts_with_prefix: "starts_with s p \<longleftrightarrow> prefix p s"
  unfolding starts_with_def prefix_def
  by (metis append_eq_conv_conj append_take_drop_id)

lemma strip_prefix_append [rust_str, simp]: "strip_prefix p (p @ s) = Some s"
  by (simp add: strip_prefix_def starts_with_def)

lemma strip_prefix_Some: "strip_prefix p s = Some r \<longleftrightarrow> s = p @ r"
  by (auto simp: strip_prefix_def starts_with_prefix prefix_def)

lemma strip_suffix_char_snoc [rust_str, simp]: "strip_suffix_char c (s @ [c]) = Some s"
  by (simp add: strip_suffix_char_def)

lemma strip_suffix_char_None [rust_str]: "c \<notin> set s \<Longrightarrow> strip_suffix_char c s = None"
  by (cases s rule: rev_cases) (auto simp: strip_suffix_char_def)

lemma strip_suffix_char_Some: "strip_suffix_char c s = Some r \<longleftrightarrow> s = r @ [c]"
  by (cases s rule: rev_cases) (auto simp: strip_suffix_char_def)

primrec split_once :: "char \<Rightarrow> string \<Rightarrow> (string \<times> string) option" where
  "split_once c [] = None"
| "split_once c (x # xs) =
     (if x = c then Some ([], xs) else map_option (\<lambda>(a, b). (x # a, b)) (split_once c xs))"

definition rsplit_once :: "char \<Rightarrow> string \<Rightarrow> (string \<times> string) option" where
  "rsplit_once c s = map_option (\<lambda>(b, a). (rev a, rev b)) (split_once c (rev s))"

lemma split_once_append [rust_str, simp]:
  "c \<notin> set a \<Longrightarrow> split_once c (a @ c # b) = Some (a, b)"
  by (induction a) auto

lemma split_once_None [rust_str]: "split_once c s = None \<longleftrightarrow> c \<notin> set s"
  by (induction s) auto

lemma split_once_Some: "split_once c s = Some (a, b) \<longleftrightarrow> s = a @ c # b \<and> c \<notin> set a"
proof
  show "split_once c s = Some (a, b) \<Longrightarrow> s = a @ c # b \<and> c \<notin> set a"
    by (induction s arbitrary: a) (auto split: if_splits)
qed auto

lemma rsplit_once_Some: "rsplit_once c s = Some (a, b) \<longleftrightarrow> s = a @ c # b \<and> c \<notin> set b"
proof -
  have "rev s = b' @ c # a' \<longleftrightarrow> s = rev a' @ c # rev b'" for a' b'
    by (metis append.assoc append_Cons append_Nil rev.simps(2) rev_append rev_rev_ident)
  then show ?thesis
    by (auto simp: rsplit_once_def split_once_Some) (metis rev_rev_ident set_rev)
qed

lemma rsplit_once_None [rust_str]: "rsplit_once c s = None \<longleftrightarrow> c \<notin> set s"
  by (simp add: rsplit_once_def split_once_None)


primrec split_on :: "char \<Rightarrow> string \<Rightarrow> string list" where
  "split_on c [] = [[]]"
| "split_on c (x # xs) =
     (if x = c then [] # split_on c xs
      else (case split_on c xs of [] \<Rightarrow> [[x]] | p # ps \<Rightarrow> (x # p) # ps))"

fun join_on :: "char \<Rightarrow> string list \<Rightarrow> string" where
  "join_on c [] = []"
| "join_on c [p] = p"
| "join_on c (p # q # ps) = p @ c # join_on c (q # ps)"

lemma split_on_nonempty [simp]: "split_on c s \<noteq> []"
  by (induction s) (auto split: list.splits)

lemma split_on_no_sep: "p \<in> set (split_on c s) \<Longrightarrow> c \<notin> set p"
  by (induction s arbitrary: p) (auto split: if_splits list.splits)

lemma split_on_part [rust_str]: "c \<notin> set p \<Longrightarrow> split_on c p = [p]"
  by (induction p) auto

lemma split_on_append [rust_str]: "c \<notin> set p \<Longrightarrow> split_on c (p @ c # s) = p # split_on c s"
  by (induction p) auto

lemma join_on_split_on [rust_str, simp]: "join_on c (split_on c s) = s"
proof (induction s)
  case (Cons x xs)
  obtain p ps where "split_on c xs = p # ps"
    by (cases "split_on c xs") auto
  with Cons show ?case by (cases ps) auto
qed simp

lemma split_on_join_on [rust_str, simp]:
  "ps \<noteq> [] \<Longrightarrow> (\<And>p. p \<in> set ps \<Longrightarrow> c \<notin> set p) \<Longrightarrow> split_on c (join_on c ps) = ps"
  by (induction c ps rule: join_on.induct) (auto simp: split_on_part split_on_append)

lemma set_join_on: "x \<in> set (join_on c ps) \<Longrightarrow> x = c \<or> (\<exists>p \<in> set ps. x \<in> set p)"
  by (induction c ps rule: join_on.induct) auto

lemma length_split_on: "length (split_on c s) = Suc (count_list s c)"
  by (induction s) (auto split: list.splits)

lemma part_length_le: "p \<in> set (split_on c s) \<Longrightarrow> length p \<le> length s"
  by (induction s arbitrary: p) (auto split: if_splits list.splits intro: le_SucI)

section \<open>Decimal numbers\<close>

definition digit_value :: "char \<Rightarrow> nat" where
  "digit_value c = byte_of c - 48"

definition digit_char :: "nat \<Rightarrow> char" where
  "digit_char d = char_of (48 + d)"

definition nat_of_digits :: "string \<Rightarrow> nat" where
  "nat_of_digits s = foldl (\<lambda>n c. 10 * n + digit_value c) 0 s"

fun show_nat :: "nat \<Rightarrow> string" where
  "show_nat n = (if n < 10 then [digit_char n] else show_nat (n div 10) @ [digit_char (n mod 10)])"

declare show_nat.simps [simp del]

lemma digit_char_value [simp]: "d < 10 \<Longrightarrow> digit_value (digit_char d) = d"
  by (simp add: digit_char_def digit_value_def)

lemma digit_value_char: "is_ascii_digit c \<Longrightarrow> digit_char (digit_value c) = c"
  by (simp add: digit_char_def digit_value_def is_ascii_digit_def)

lemma digit_char_is_digit [simp]: "d < 10 \<Longrightarrow> is_ascii_digit (digit_char d)"
  by (simp add: digit_char_def is_ascii_digit_def)

lemma digit_value_less: "is_ascii_digit c \<Longrightarrow> digit_value c < 10"
  by (auto simp: digit_value_def is_ascii_digit_def)

lemma nat_of_digits_snoc [simp]: "nat_of_digits (s @ [c]) = 10 * nat_of_digits s + digit_value c"
  by (simp add: nat_of_digits_def)

lemma nat_of_digits_simps [simp]: "nat_of_digits [] = 0" "nat_of_digits [c] = digit_value c"
  by (simp_all add: nat_of_digits_def)

lemma show_nat_digits: "c \<in> set (show_nat n) \<Longrightarrow> is_ascii_digit c"
proof (induction n rule: show_nat.induct)
  case (1 n)
  then show ?case by (subst (asm) show_nat.simps) (auto split: if_splits)
qed

lemma show_nat_nonempty [simp]: "show_nat n \<noteq> []"
  by (subst show_nat.simps) simp

lemma nat_of_digits_show_nat [simp]: "nat_of_digits (show_nat n) = n"
proof (induction n rule: show_nat.induct)
  case (1 n)
  show ?case
  proof (cases "n < 10")
    case True
    then show ?thesis using nat_of_digits_snoc [of "[]"] by (simp add: show_nat.simps [of n])
  next
    case False
    with "1.IH" show ?thesis by (simp add: show_nat.simps [of n])
  qed
qed

lemma hd_show_nat: "0 < n \<Longrightarrow> hd (show_nat n) \<noteq> CHR ''0''"
proof (induction n rule: show_nat.induct)
  case (1 n)
  show ?case
  proof (cases "n < 10")
    case True
    with "1.prems" show ?thesis
      using digit_char_value [of n] by (auto simp: show_nat.simps [of n] digit_value_def)
  next
    case False
    then have "0 < n div 10" by (simp add: div_greater_zero_iff)
    with False "1.IH" show ?thesis by (simp add: show_nat.simps [of n])
  qed
qed

lemma show_nat_single: "n < 10 \<Longrightarrow> show_nat n = [digit_char n]"
  by (simp add: show_nat.simps [of n])

lemma digit_char_0: "digit_char 0 = CHR ''0''"
  by (simp add: digit_char_def char_of_def bit_0)

lemma show_nat_0 [simp]: "show_nat 0 = ''0''"
  by (simp add: show_nat_single digit_char_0)

text \<open>Digits with no redundant leading zero are exactly what \<open>show_nat\<close> prints.\<close>

definition canonical_digits :: "string \<Rightarrow> bool" where
  "canonical_digits s \<longleftrightarrow> s \<noteq> [] \<and> list_all is_ascii_digit s \<and> (length s > 1 \<longrightarrow> hd s \<noteq> CHR ''0'')"

lemma canonical_digits_show_nat [simp]: "canonical_digits (show_nat n)"
proof -
  have "length (show_nat n) > 1 \<Longrightarrow> hd (show_nat n) \<noteq> CHR ''0''"
    by (cases "n = 0") (simp_all add: hd_show_nat)
  then show ?thesis by (simp add: canonical_digits_def list_all_iff show_nat_digits)
qed

lemma nat_of_digits_pos:
  "s \<noteq> [] \<Longrightarrow> list_all is_ascii_digit s \<Longrightarrow> hd s \<noteq> CHR ''0'' \<Longrightarrow> 0 < nat_of_digits s"
proof (induction s rule: rev_induct)
  case (snoc c s)
  show ?case
  proof (cases "s = []")
    case True
    with snoc.prems have "is_ascii_digit c" "c \<noteq> CHR ''0''" by simp_all
    then have "digit_value c \<noteq> 0"
      using digit_value_char [of c] digit_char_0 by metis
    with True show ?thesis by simp
  next
    case False
    with snoc show ?thesis by simp
  qed
qed simp

lemma show_nat_of_digits: "canonical_digits s \<Longrightarrow> show_nat (nat_of_digits s) = s"
proof (induction s rule: rev_induct)
  case Nil
  then show ?case by (simp add: canonical_digits_def)
next
  case (snoc c s)
  then have c: "is_ascii_digit c" "digit_value c < 10"
    by (simp_all add: canonical_digits_def digit_value_less)
  show ?case
  proof (cases "s = []")
    case True
    with c show ?thesis
      using nat_of_digits_snoc [of "[]"] by (subst show_nat.simps) (simp add: digit_value_char)
  next
    case False
    with snoc.prems have s: "canonical_digits s" and "0 < nat_of_digits s"
      by (auto simp: canonical_digits_def intro: nat_of_digits_pos)
    with c have "\<not> 10 * nat_of_digits s + digit_value c < 10" by simp
    with snoc.IH [OF s] c show ?thesis
      by (subst show_nat.simps) (simp add: digit_value_char)
  qed
qed

section \<open>Derived orders\<close>

text \<open>
  \<open>okey\<close> carries the order Rust derives: numbers by value, sequences lexicographically, with a
  proper prefix first. A struct is the sequence of its fields, an enum value the sequence of its
  variant's index and its fields, an \<^verbatim>\<open>Option\<close> an enum with \<^verbatim>\<open>None\<close> first.
\<close>

datatype okey = KN nat | KL "okey list"

fun kless :: "okey \<Rightarrow> okey \<Rightarrow> bool" and klless :: "okey list \<Rightarrow> okey list \<Rightarrow> bool" where
  "kless (KN m) (KN n) = (m < n)"
| "kless (KN m) (KL ys) = True"
| "kless (KL xs) (KN n) = False"
| "kless (KL xs) (KL ys) = klless xs ys"
| "klless xs [] = False"
| "klless [] (y # ys) = True"
| "klless (x # xs) (y # ys) = (kless x y \<or> x = y \<and> klless xs ys)"

lemma kless_neq: "kless x y \<Longrightarrow> x \<noteq> y"
  and klless_neq: "klless xs ys \<Longrightarrow> xs \<noteq> ys"
  by (induction x y and xs ys rule: kless_klless.induct) auto

lemma kless_total: "x = y \<or> kless x y \<or> kless y x"
  and klless_total: "xs = ys \<or> klless xs ys \<or> klless ys xs"
proof (induction x y and xs ys rule: kless_klless.induct)
  case (5 xs)
  then show ?case by (cases xs) simp_all
qed auto

lemma kless_trans: "kless x y \<Longrightarrow> kless y z \<Longrightarrow> kless x z"
  and klless_trans: "klless xs ys \<Longrightarrow> klless ys zs \<Longrightarrow> klless xs zs"
proof (induction x y and xs ys arbitrary: z and zs rule: kless_klless.induct)
  case (1 m n)
  then show ?case by (cases z) simp_all
next
  case (2 m ys)
  then show ?case by (cases z) simp_all
next
  case (4 xs ys)
  then show ?case by (cases z) simp_all
next
  case (6 y ys)
  then show ?case by (cases zs) simp_all
next
  case (7 x xs y ys)
  then show ?case by (cases zs) auto
qed simp_all

instantiation okey :: linorder
begin

definition less_okey :: "okey \<Rightarrow> okey \<Rightarrow> bool" where
  "less_okey x y \<longleftrightarrow> kless x y"

definition less_eq_okey :: "okey \<Rightarrow> okey \<Rightarrow> bool" where
  "less_eq_okey x y \<longleftrightarrow> x = y \<or> kless x y"

instance
proof
  fix x y z :: okey
  show "x < y \<longleftrightarrow> x \<le> y \<and> \<not> y \<le> x"
    unfolding less_okey_def less_eq_okey_def using kless_neq kless_trans by blast
  show "x \<le> x" by (simp add: less_eq_okey_def)
  show "x \<le> y \<Longrightarrow> y \<le> z \<Longrightarrow> x \<le> z"
    unfolding less_eq_okey_def using kless_trans by blast
  show "x \<le> y \<Longrightarrow> y \<le> x \<Longrightarrow> x = y"
    unfolding less_eq_okey_def using kless_neq kless_trans by blast
  show "x \<le> y \<or> y \<le> x"
    unfolding less_eq_okey_def using kless_total by blast
qed

end

lemma unat_inject [simp]: "unat a = unat b \<longleftrightarrow> a = b"
  by (simp add: word_unat_eq_iff)

definition key_str :: "string \<Rightarrow> okey" where
  "key_str s = KL (map (\<lambda>c. KN (byte_of c)) s)"

definition key_opt :: "('a \<Rightarrow> okey) \<Rightarrow> 'a option \<Rightarrow> okey" where
  "key_opt f m = (case m of None \<Rightarrow> KL [KN 0] | Some x \<Rightarrow> KL [KN 1, f x])"

definition key_vec :: "('a \<Rightarrow> okey) \<Rightarrow> 'a list \<Rightarrow> okey" where
  "key_vec f xs = KL (map f xs)"

lemma key_str_inject [simp]: "key_str s = key_str t \<longleftrightarrow> s = t"
proof -
  have "inj (\<lambda>c. KN (byte_of c))" by (simp add: inj_def)
  then show ?thesis by (simp add: key_str_def inj_map_eq_map)
qed

lemma key_opt_inject: "(\<And>x y. f x = f y \<longleftrightarrow> x = y) \<Longrightarrow> key_opt f m = key_opt f n \<longleftrightarrow> m = n"
  by (cases m; cases n) (simp_all add: key_opt_def)

lemma key_vec_inject: "(\<And>x y. f x = f y \<longleftrightarrow> x = y) \<Longrightarrow> key_vec f xs = key_vec f ys \<longleftrightarrow> xs = ys"
  by (simp add: key_vec_def inj_map_eq_map inj_def)

end
