(* ===== verification/Cap_Verb.thy ===== *)
theory Cap_Verb
  imports Rust_Prelude
begin

text \<open>
  The closed verb vocabulary (\<^verbatim>\<open>capability/verb.rs\<close>) and the typed failures
  (\<^verbatim>\<open>capability/error.rs\<close>): twelve namespaces, their actions, the thirty-four pairs the
  architecture defines, and exact parsing of each.
\<close>

section \<open>Namespaces, actions, verbs\<close>

datatype Namespace =
  Fs | Process | Network | Secret | Model | Browser | Mcp | Agent | Memory | Scheduler | Artifact | Channel

datatype Action =
  Read | Write | Create | Delete | List | Stat | ExecBit | Exec | Signal | Inspect | Http | Https
| Tcp | Dns | Use | Call | Download | Upload | CredentialEntry | Spawn | Message | Cancel | Propose
| Promote | Modify | Export | Send

datatype ScopeFamily =
  Path | Executable | Endpoint | CredentialHandle | ProviderModel | Domain | ServerId | AgentProfile
| MemoryScope | Intent | ArtifactScope | ChannelTarget

record Verb =
  verb_namespace :: Namespace
  verb_action :: Action

definition Namespace_ALL :: "Namespace list" where
  "Namespace_ALL = [Fs, Process, Network, Secret, Model, Browser, Mcp, Agent, Memory, Scheduler,
     Artifact, Channel]"

fun Namespace_as_str :: "Namespace \<Rightarrow> string" where
  "Namespace_as_str Fs = ''fs''"
| "Namespace_as_str Process = ''process''"
| "Namespace_as_str Network = ''network''"
| "Namespace_as_str Secret = ''secret''"
| "Namespace_as_str Model = ''model''"
| "Namespace_as_str Browser = ''browser''"
| "Namespace_as_str Mcp = ''mcp''"
| "Namespace_as_str Agent = ''agent''"
| "Namespace_as_str Memory = ''memory''"
| "Namespace_as_str Scheduler = ''scheduler''"
| "Namespace_as_str Artifact = ''artifact''"
| "Namespace_as_str Channel = ''channel''"

definition Namespace_parse :: "string \<Rightarrow> Namespace option" where
  "Namespace_parse text = find (\<lambda>n. Namespace_as_str n = text) Namespace_ALL"

fun Namespace_scope_family :: "Namespace \<Rightarrow> ScopeFamily" where
  "Namespace_scope_family Fs = Path"
| "Namespace_scope_family Process = Executable"
| "Namespace_scope_family Network = Endpoint"
| "Namespace_scope_family Secret = CredentialHandle"
| "Namespace_scope_family Model = ProviderModel"
| "Namespace_scope_family Browser = Domain"
| "Namespace_scope_family Mcp = ServerId"
| "Namespace_scope_family Agent = AgentProfile"
| "Namespace_scope_family Memory = MemoryScope"
| "Namespace_scope_family Scheduler = Intent"
| "Namespace_scope_family Artifact = ArtifactScope"
| "Namespace_scope_family Channel = ChannelTarget"

fun Action_as_str :: "Action \<Rightarrow> string" where
  "Action_as_str Read = ''read''"
| "Action_as_str Write = ''write''"
| "Action_as_str Create = ''create''"
| "Action_as_str Delete = ''delete''"
| "Action_as_str List = ''list''"
| "Action_as_str Stat = ''stat''"
| "Action_as_str ExecBit = ''exec_bit''"
| "Action_as_str Exec = ''exec''"
| "Action_as_str Signal = ''signal''"
| "Action_as_str Inspect = ''inspect''"
| "Action_as_str Http = ''http''"
| "Action_as_str Https = ''https''"
| "Action_as_str Tcp = ''tcp''"
| "Action_as_str Dns = ''dns''"
| "Action_as_str Use = ''use''"
| "Action_as_str Call = ''call''"
| "Action_as_str Download = ''download''"
| "Action_as_str Upload = ''upload''"
| "Action_as_str CredentialEntry = ''credential_entry''"
| "Action_as_str Spawn = ''spawn''"
| "Action_as_str Message = ''message''"
| "Action_as_str Cancel = ''cancel''"
| "Action_as_str Propose = ''propose''"
| "Action_as_str Promote = ''promote''"
| "Action_as_str Modify = ''modify''"
| "Action_as_str Export = ''export''"
| "Action_as_str Send = ''send''"

definition Verb_of :: "Namespace \<Rightarrow> Action \<Rightarrow> Verb" where
  "Verb_of n a = \<lparr>verb_namespace = n, verb_action = a\<rparr>"

definition Verb_ALL :: "Verb list" where
  "Verb_ALL =
     [Verb_of Fs Read, Verb_of Fs Write, Verb_of Fs Create, Verb_of Fs Delete, Verb_of Fs List,
      Verb_of Fs Stat, Verb_of Fs ExecBit,
      Verb_of Process Exec, Verb_of Process Signal, Verb_of Process Inspect,
      Verb_of Network Http, Verb_of Network Https, Verb_of Network Tcp, Verb_of Network Dns,
      Verb_of Secret Use, Verb_of Model Call,
      Verb_of Browser Use, Verb_of Browser Download, Verb_of Browser Upload,
      Verb_of Browser CredentialEntry,
      Verb_of Mcp Use, Verb_of Agent Spawn, Verb_of Agent Message, Verb_of Agent Cancel,
      Verb_of Memory Read, Verb_of Memory Propose, Verb_of Memory Promote,
      Verb_of Scheduler Create, Verb_of Scheduler Modify, Verb_of Scheduler Delete,
      Verb_of Artifact Read, Verb_of Artifact Create, Verb_of Artifact Export,
      Verb_of Channel Send]"

definition Verb_new :: "Namespace \<Rightarrow> Action \<Rightarrow> Verb option" where
  "Verb_new n a = find (\<lambda>v. verb_namespace v = n \<and> verb_action v = a) Verb_ALL"

definition Verb_parse_action :: "Namespace \<Rightarrow> string \<Rightarrow> Verb option" where
  "Verb_parse_action n text =
     find (\<lambda>v. verb_namespace v = n \<and> Action_as_str (verb_action v) = text) Verb_ALL"

definition Verb_scope_family :: "Verb \<Rightarrow> ScopeFamily" where
  "Verb_scope_family v = Namespace_scope_family (verb_namespace v)"

definition Verb_to_string :: "Verb \<Rightarrow> string" where
  "Verb_to_string v = Namespace_as_str (verb_namespace v) @ CHR ''.'' # Action_as_str (verb_action v)"

definition ScopeFamily_needs_resolution :: "ScopeFamily \<Rightarrow> bool" where
  "ScopeFamily_needs_resolution f \<longleftrightarrow> f = Path \<or> f = Executable"

section \<open>Typed failures\<close>

datatype ConstraintName =
  MaxBytes | NoSymlinkTargetsName | Methods | MaxRequests | ArgvAllowlistName | PrivacyClassName
| Depth | Fanout

definition ConstraintName_ALL :: "ConstraintName list" where
  "ConstraintName_ALL = [MaxBytes, NoSymlinkTargetsName, Methods, MaxRequests, ArgvAllowlistName,
     PrivacyClassName, Depth, Fanout]"

fun ConstraintName_as_str :: "ConstraintName \<Rightarrow> string" where
  "ConstraintName_as_str MaxBytes = ''max_bytes''"
| "ConstraintName_as_str NoSymlinkTargetsName = ''no_symlink_targets''"
| "ConstraintName_as_str Methods = ''methods''"
| "ConstraintName_as_str MaxRequests = ''max_requests''"
| "ConstraintName_as_str ArgvAllowlistName = ''argv_allowlist''"
| "ConstraintName_as_str PrivacyClassName = ''privacy_class''"
| "ConstraintName_as_str Depth = ''depth''"
| "ConstraintName_as_str Fanout = ''fanout''"

definition ConstraintName_parse :: "string \<Rightarrow> ConstraintName option" where
  "ConstraintName_parse text = find (\<lambda>n. ConstraintName_as_str n = text) ConstraintName_ALL"

datatype ValueError =
  MalformedInteger | LeadingZero | IntegerOverflow | MalformedBoolean | EmptySetMember
| DuplicateSetMember | UnknownMethod | MalformedArgvToken | UnknownPrivacyClass | EmptyValue

datatype ScopeError =
  MalformedHost | WildcardInTldPosition | MalformedPort | MalformedProviderModel | MalformedPattern
| MalformedChannelTarget | MalformedName | MalformedPath

datatype CapabilityError =
  EmptyCapability | TooLong | MissingScope | MissingAction | EmptyNamespace | EmptyAction | EmptyScope
| UnknownNamespace | UnknownAction Namespace | InvalidScope ScopeError | EmptyConstraints
| RepeatedConstraintSeparator | MalformedConstraint | EmptyConstraintName | EmptyConstraintValue
| UnknownConstraint | DuplicateConstraint ConstraintName | ConstraintNotApplicable ConstraintName Verb
| InvalidConstraintValue ConstraintName ValueError | ScopeFamilyMismatch

datatype UnresolvedScope = UnresolvedCanonicalPath | UnresolvedExecutableIdentity | UnresolvedSecret

datatype AttenuationError = VerbChanged | WouldWiden | InvalidNarrowing CapabilityError

section \<open>Exact spellings\<close>

text \<open>
  The order of the declarations, which \<^verbatim>\<open>derive(Ord)\<close> compares by.
\<close>

definition Namespace_index :: "Namespace \<Rightarrow> nat" where
  "Namespace_index n = length (takeWhile (\<lambda>m. m \<noteq> n) Namespace_ALL)"

fun Action_index :: "Action \<Rightarrow> nat" where
  "Action_index Read = 0" | "Action_index Write = 1" | "Action_index Create = 2"
| "Action_index Delete = 3" | "Action_index List = 4" | "Action_index Stat = 5"
| "Action_index ExecBit = 6" | "Action_index Exec = 7" | "Action_index Signal = 8"
| "Action_index Inspect = 9" | "Action_index Http = 10" | "Action_index Https = 11"
| "Action_index Tcp = 12" | "Action_index Dns = 13" | "Action_index Use = 14"
| "Action_index Call = 15" | "Action_index Download = 16" | "Action_index Upload = 17"
| "Action_index CredentialEntry = 18" | "Action_index Spawn = 19" | "Action_index Message = 20"
| "Action_index Cancel = 21" | "Action_index Propose = 22" | "Action_index Promote = 23"
| "Action_index Modify = 24" | "Action_index Export = 25" | "Action_index Send = 26"

definition Verb_key :: "Verb \<Rightarrow> okey" where
  "Verb_key v = KL [KN (Namespace_index (verb_namespace v)), KN (Action_index (verb_action v))]"

lemma Namespace_index_inject [simp]: "Namespace_index m = Namespace_index n \<longleftrightarrow> m = n"
  by (cases m; cases n; simp add: Namespace_index_def Namespace_ALL_def)

lemma Action_index_inject [simp]: "Action_index a = Action_index b \<longleftrightarrow> a = b"
  by (cases a; cases b; simp)

lemma Verb_key_inject [simp]: "Verb_key v = Verb_key w \<longleftrightarrow> v = w"
  by (auto simp: Verb_key_def intro: Verb.equality)

lemma Namespace_as_str_inject [simp]: "Namespace_as_str m = Namespace_as_str n \<longleftrightarrow> m = n"
  by (cases m; cases n; simp)

lemma set_Namespace_ALL: "set Namespace_ALL = UNIV"
  using Namespace.exhaust by (auto simp: Namespace_ALL_def)

lemma find_unique:
  "x \<in> set xs \<Longrightarrow> P x \<Longrightarrow> (\<And>y. y \<in> set xs \<Longrightarrow> P y \<Longrightarrow> y = x) \<Longrightarrow> find P xs = Some x"
proof (induction xs)
  case (Cons y ys)
  show ?case
  proof (cases "P y")
    case True
    with Cons.prems(3) [of y] show ?thesis by simp
  next
    case False
    with Cons.prems(1,2) have "x \<in> set ys" by auto
    then have "find P ys = Some x"
      using Cons.prems(2) by (rule Cons.IH) (rule Cons.prems(3), rule list.set_intros(2))
    with False show ?thesis by simp
  qed
qed simp

lemma find_SomeD: "find P xs = Some x \<Longrightarrow> x \<in> set xs \<and> P x"
  by (induction xs) (auto split: if_splits)

lemma Namespace_parse_as_str [simp]: "Namespace_parse (Namespace_as_str n) = Some n"
  unfolding Namespace_parse_def by (rule find_unique) (auto simp: set_Namespace_ALL)

lemma Namespace_parse_exact: "Namespace_parse t = Some n \<longleftrightarrow> t = Namespace_as_str n"
  using find_SomeD [of _ Namespace_ALL n] Namespace_parse_as_str
  by (metis (mono_tags, lifting) Namespace_parse_def)

lemma ConstraintName_as_str_inject [simp]:
  "ConstraintName_as_str m = ConstraintName_as_str n \<longleftrightarrow> m = n"
  by (cases m; cases n; simp)

lemma set_ConstraintName_ALL [simp]: "set ConstraintName_ALL = UNIV"
  using ConstraintName.exhaust by (auto simp: ConstraintName_ALL_def)

lemma distinct_ConstraintName_ALL [simp]: "distinct ConstraintName_ALL"
  by (simp add: ConstraintName_ALL_def)

lemma ConstraintName_parse_as_str [simp]:
  "ConstraintName_parse (ConstraintName_as_str n) = Some n"
  unfolding ConstraintName_parse_def by (rule find_unique) auto

lemma ConstraintName_parse_exact: "ConstraintName_parse t = Some n \<longleftrightarrow> t = ConstraintName_as_str n"
  using find_SomeD [of _ ConstraintName_ALL n] ConstraintName_parse_as_str
  by (metis (mono_tags, lifting) ConstraintName_parse_def)

lemma Action_as_str_inject [simp]: "Action_as_str a = Action_as_str b \<longleftrightarrow> a = b"
  by (cases a; cases b; simp)

lemma Verb_of_sel [simp]:
  "verb_namespace (Verb_of n a) = n" "verb_action (Verb_of n a) = a"
  by (simp_all add: Verb_of_def)

lemma Verb_of_collapse [simp]: "Verb_of (verb_namespace v) (verb_action v) = v"
  by (simp add: Verb_of_def)

lemma Verb_parse_action_exact:
  "Verb_parse_action n t = Some v \<longleftrightarrow>
     v \<in> set Verb_ALL \<and> verb_namespace v = n \<and> Action_as_str (verb_action v) = t"
proof
  show "Verb_parse_action n t = Some v \<Longrightarrow>
      v \<in> set Verb_ALL \<and> verb_namespace v = n \<and> Action_as_str (verb_action v) = t"
    by (auto simp: Verb_parse_action_def dest: find_SomeD)
  assume "v \<in> set Verb_ALL \<and> verb_namespace v = n \<and> Action_as_str (verb_action v) = t"
  then show "Verb_parse_action n t = Some v"
    unfolding Verb_parse_action_def
    by (intro find_unique) (auto intro: Verb.equality)
qed

lemma Verb_new_exact: "Verb_new n a = Some v \<longleftrightarrow> v = Verb_of n a \<and> v \<in> set Verb_ALL"
proof
  show "Verb_new n a = Some v \<Longrightarrow> v = Verb_of n a \<and> v \<in> set Verb_ALL"
    by (auto simp: Verb_new_def dest: find_SomeD)
  assume "v = Verb_of n a \<and> v \<in> set Verb_ALL"
  then show "Verb_new n a = Some v"
    unfolding Verb_new_def by (intro find_unique) (auto intro: Verb.equality)
qed

lemma Namespace_as_str_chars:
  "Namespace_as_str n \<noteq> []" "c \<in> set (Namespace_as_str n) \<Longrightarrow> is_ascii_lowercase c"
  by (cases n; auto simp: is_ascii_lowercase_def)+

lemma Action_as_str_chars:
  "Action_as_str a \<noteq> []" "c \<in> set (Action_as_str a) \<Longrightarrow> is_ascii_lowercase c \<or> c = CHR ''_''"
  by (cases a; auto simp: is_ascii_lowercase_def)+

lemma ConstraintName_as_str_chars:
  "ConstraintName_as_str n \<noteq> []"
  "c \<in> set (ConstraintName_as_str n) \<Longrightarrow> is_ascii_lowercase c \<or> c = CHR ''_''"
  by (cases n; auto simp: is_ascii_lowercase_def)+

end
