(* ===== verification/Cap_Scope.thy ===== *)
theory Cap_Scope
  imports Cap_Verb
begin

text \<open>
  Scopes (\<^verbatim>\<open>capability/scope.rs\<close>), the canonical identities they carry
  (\<^verbatim>\<open>resource/mod.rs\<close>) and the host grammar they share with the egress proxy
  (\<^verbatim>\<open>dwk-proto/src/wire/host.rs\<close>): the data, the parsers, the printers and the
  containment relation of each family.

  A newtype over a string is the string; the predicate beside it is what its constructor accepts.
  Containment is given a meaning (\<open>*_denotes\<close>: the hosts, names or ports a pattern stands for)
  and is shown to be exactly inclusion of meanings; that it is a partial order is proved once for
  every family, through the locale \<open>containment\<close>.
\<close>

section \<open>The contract of a containment relation\<close>

locale containment =
  fixes covers :: "'a \<Rightarrow> 'a \<Rightarrow> bool" and wf :: "'a \<Rightarrow> bool"
  assumes covers_refl: "wf a \<Longrightarrow> covers a a"
    and covers_trans: "covers a b \<Longrightarrow> covers b c \<Longrightarrow> covers a c"
    and covers_antisym: "wf a \<Longrightarrow> wf b \<Longrightarrow> covers a b \<Longrightarrow> covers b a \<Longrightarrow> a = b"
begin

lemma covers_chain: "(\<And>i. i < n \<Longrightarrow> covers (f i) (f (Suc i))) \<Longrightarrow> wf (f 0) \<Longrightarrow> covers (f 0) (f n)"
  by (induction n) (auto intro: covers_refl covers_trans)

lemma covers_set_trans:
  "\<forall>a \<in> A. \<exists>b \<in> B. covers b a \<Longrightarrow> \<forall>b \<in> B. \<exists>c \<in> C. covers c b \<Longrightarrow> \<forall>a \<in> A. \<exists>c \<in> C. covers c a"
  by (meson covers_trans)

end

section \<open>Hosts\<close>

type_synonym HostLabel = string

definition MAX_LABEL_BYTES :: nat where "MAX_LABEL_BYTES = 63"
definition MAX_LABELS :: nat where "MAX_LABELS = 16"
definition MAX_HOST_BYTES :: nat where "MAX_HOST_BYTES = 253"

definition is_label :: "string \<Rightarrow> bool" where
  "is_label text \<longleftrightarrow>
     text \<noteq> [] \<and> length text \<le> MAX_LABEL_BYTES \<and> hd text \<noteq> CHR ''-'' \<and> last text \<noteq> CHR ''-'' \<and>
     list_all (\<lambda>b. is_ascii_lowercase b \<or> is_ascii_digit b \<or> b = CHR ''-'') text"

fun is_host_loop :: "nat \<Rightarrow> string list \<Rightarrow> bool" where
  "is_host_loop labels [] = True"
| "is_host_loop labels (label # rest) =
     (if MAX_LABELS < Suc labels \<or> \<not> is_label label then False else is_host_loop (Suc labels) rest)"

definition is_host :: "string \<Rightarrow> bool" where
  "is_host text \<longleftrightarrow>
     (if text = [] \<or> MAX_HOST_BYTES < length text then False
      else is_host_loop 0 (split_on CHR ''.'' text))"

definition is_ascii_hexdigit :: "char \<Rightarrow> bool" where
  "is_ascii_hexdigit c \<longleftrightarrow> is_ascii_digit c \<or> 97 \<le> byte_of c \<and> byte_of c \<le> 102
     \<or> 65 \<le> byte_of c \<and> byte_of c \<le> 70"

definition is_address_literal :: "string \<Rightarrow> bool" where
  "is_address_literal host =
     (let last_label = last (split_on CHR ''.'' host)
      in last_label \<noteq> [] \<and> list_all is_ascii_digit last_label
         \<or> (case strip_prefix ''0x'' last_label of None \<Rightarrow> False | Some digits \<Rightarrow> list_all is_ascii_hexdigit digits))"

definition HostLabel_new :: "string \<Rightarrow> HostLabel option" where
  "HostLabel_new text = (if is_label text then Some text else None)"

datatype HostPattern = Exact "HostLabel list" | Wildcard "HostLabel list"

fun parse_labels :: "string list \<Rightarrow> HostLabel list \<Rightarrow> (HostLabel list, ScopeError) result" where
  "parse_labels [] labels = Ok labels"
| "parse_labels (part # parts) labels =
     and_then (ok_or (HostLabel_new part) MalformedHost) (\<lambda>l.
       let labels = labels @ [l]
       in if MAX_LABELS < length labels then Err MalformedHost else parse_labels parts labels)"

definition HostPattern_parse :: "string \<Rightarrow> (HostPattern, ScopeError) result" where
  "HostPattern_parse text =
     (let (wildcard, rest) = (case strip_prefix ''*.'' text of Some rest \<Rightarrow> (True, rest) | None \<Rightarrow> (False, text))
      in if rest = [] \<or> CHR ''*'' \<in> set rest then Err MalformedHost
         else and_then (parse_labels (split_on CHR ''.'' rest) []) (\<lambda>labels.
           if wildcard
           then if length labels < 2 then Err WildcardInTldPosition else Ok (Wildcard labels)
           else Ok (Exact labels)))"

definition ends_with_labels :: "HostLabel list \<Rightarrow> HostLabel list \<Rightarrow> bool" where
  "ends_with_labels host suffix' =
     (if length host < length suffix' then False
      else drop (length host - length suffix') host = suffix')"

fun HostPattern_contains :: "HostPattern \<Rightarrow> HostPattern \<Rightarrow> bool" where
  "HostPattern_contains (Exact a) (Exact b) = (a = b)"
| "HostPattern_contains (Exact _) (Wildcard _) = False"
| "HostPattern_contains (Wildcard suffix') (Exact host) =
     (length suffix' < length host \<and> ends_with_labels host suffix')"
| "HostPattern_contains (Wildcard suffix') (Wildcard inner) =
     (length suffix' \<le> length inner \<and> ends_with_labels inner suffix')"

fun HostPattern_to_string :: "HostPattern \<Rightarrow> string" where
  "HostPattern_to_string (Exact labels) = join_on CHR ''.'' labels"
| "HostPattern_to_string (Wildcard labels) = ''*.'' @ join_on CHR ''.'' labels"

fun HostPattern_key :: "HostPattern \<Rightarrow> okey" where
  "HostPattern_key (Exact labels) = KL [KN 0, key_vec key_str labels]"
| "HostPattern_key (Wildcard labels) = KL [KN 1, key_vec key_str labels]"

fun wf_HostPattern :: "HostPattern \<Rightarrow> bool" where
  "wf_HostPattern (Exact labels) \<longleftrightarrow> labels \<noteq> [] \<and> length labels \<le> MAX_LABELS \<and> list_all is_label labels"
| "wf_HostPattern (Wildcard labels) \<longleftrightarrow>
     2 \<le> length labels \<and> length labels \<le> MAX_LABELS \<and> list_all is_label labels"

section \<open>Ports and endpoints\<close>

datatype PortSpec = PortAny | Port "16 word"

fun PortSpec_contains :: "PortSpec \<Rightarrow> PortSpec \<Rightarrow> bool" where
  "PortSpec_contains PortAny _ = True"
| "PortSpec_contains (Port _) PortAny = False"
| "PortSpec_contains (Port a) (Port b) = (a = b)"

record Endpoint =
  ep_host :: HostPattern
  ep_port :: PortSpec

definition scope_parse_u16_strict :: "string \<Rightarrow> 16 word option" where
  "scope_parse_u16_strict text =
     (if text = [] \<or> \<not> list_all is_ascii_digit text then None
      else if 1 < length text \<and> starts_with text ''0'' then None
      else if nat_of_digits text < 2 ^ 16 then Some (of_nat (nat_of_digits text)) else None)"

definition Endpoint_parse :: "string \<Rightarrow> (Endpoint, ScopeError) result" where
  "Endpoint_parse text =
     (case split_once CHR '':'' text of
        None \<Rightarrow> and_then (HostPattern_parse text) (\<lambda>h. Ok \<lparr>ep_host = h, ep_port = PortAny\<rparr>)
      | Some (host, port) \<Rightarrow>
          if CHR '':'' \<in> set port then Err MalformedPort
          else and_then (ok_or (scope_parse_u16_strict port) MalformedPort) (\<lambda>number.
            if number = 0 then Err MalformedPort
            else and_then (HostPattern_parse host) (\<lambda>h. Ok \<lparr>ep_host = h, ep_port = Port number\<rparr>)))"

definition Endpoint_contains :: "Endpoint \<Rightarrow> Endpoint \<Rightarrow> bool" where
  "Endpoint_contains a b \<longleftrightarrow>
     HostPattern_contains (ep_host a) (ep_host b) \<and> PortSpec_contains (ep_port a) (ep_port b)"

definition Endpoint_to_string :: "Endpoint \<Rightarrow> string" where
  "Endpoint_to_string e =
     (case ep_port e of PortAny \<Rightarrow> HostPattern_to_string (ep_host e)
      | Port p \<Rightarrow> HostPattern_to_string (ep_host e) @ CHR '':'' # show_nat (unat p))"

fun PortSpec_key :: "PortSpec \<Rightarrow> okey" where
  "PortSpec_key PortAny = KL [KN 0]"
| "PortSpec_key (Port p) = KL [KN 1, KN (unat p)]"

definition Endpoint_key :: "Endpoint \<Rightarrow> okey" where
  "Endpoint_key e = KL [HostPattern_key (ep_host e), PortSpec_key (ep_port e)]"

definition wf_Endpoint :: "Endpoint \<Rightarrow> bool" where
  "wf_Endpoint e \<longleftrightarrow> wf_HostPattern (ep_host e) \<and> ep_port e \<noteq> Port 0"

section \<open>Names and patterns\<close>

type_synonym Label = string

definition LABEL_MAX_CHARS :: nat where "LABEL_MAX_CHARS = 128"
definition PATTERN_MAX_CHARS :: nat where "PATTERN_MAX_CHARS = 128"
definition DECLARED_PATH_MAX_CHARS :: nat where "DECLARED_PATH_MAX_CHARS = 384"

definition label_ok :: "string \<Rightarrow> bool" where
  "label_ok text \<longleftrightarrow> text \<noteq> [] \<and> chars_count text \<le> LABEL_MAX_CHARS \<and>
     list_all (\<lambda>c. is_ascii_alphanumeric c \<or> c \<in> set ''._-<>@+'') text"

definition Label_new :: "string \<Rightarrow> Label option" where
  "Label_new text = (if label_ok text then Some text else None)"

datatype Pattern = Literal string | Prefix string

definition pattern_body_ok :: "string \<Rightarrow> bool" where
  "pattern_body_ok body \<longleftrightarrow> chars_count body \<le> PATTERN_MAX_CHARS \<and> CHR ''*'' \<notin> set body \<and>
     list_all (\<lambda>c. is_ascii_alphanumeric c \<or> c \<in> set ''._-/'') body"

definition Pattern_parse :: "string \<Rightarrow> (Pattern, ScopeError) result" where
  "Pattern_parse text =
     (let (body, wildcard) = (case strip_suffix_char CHR ''*'' text of Some body \<Rightarrow> (body, True) | None \<Rightarrow> (text, False))
      in if \<not> ((wildcard \<or> body \<noteq> []) \<and> pattern_body_ok body) then Err MalformedPattern
         else Ok (if wildcard then Prefix body else Literal body))"

fun Pattern_contains :: "Pattern \<Rightarrow> Pattern \<Rightarrow> bool" where
  "Pattern_contains (Literal a) (Literal b) = (a = b)"
| "Pattern_contains (Literal _) (Prefix _) = False"
| "Pattern_contains (Prefix p) (Literal l) = starts_with l p"
| "Pattern_contains (Prefix p) (Prefix q) = starts_with q p"

fun Pattern_to_string :: "Pattern \<Rightarrow> string" where
  "Pattern_to_string (Literal body) = body"
| "Pattern_to_string (Prefix body) = body @ ''*''"

fun Pattern_key :: "Pattern \<Rightarrow> okey" where
  "Pattern_key (Literal b) = KL [KN 0, key_str b]"
| "Pattern_key (Prefix b) = KL [KN 1, key_str b]"

fun wf_Pattern :: "Pattern \<Rightarrow> bool" where
  "wf_Pattern (Literal b) \<longleftrightarrow> b \<noteq> [] \<and> pattern_body_ok b"
| "wf_Pattern (Prefix b) \<longleftrightarrow> pattern_body_ok b"

record ProviderModel =
  pm_provider :: Label
  pm_model :: Pattern

definition ProviderModel_parse :: "string \<Rightarrow> (ProviderModel, ScopeError) result" where
  "ProviderModel_parse text =
     and_then (ok_or (split_once CHR ''/'' text) MalformedProviderModel) (\<lambda>(provider, model).
       if CHR ''/'' \<in> set model then Err MalformedProviderModel
       else and_then (ok_or (Label_new provider) MalformedProviderModel) (\<lambda>provider.
         if CHR ''*'' \<in> set provider then Err MalformedProviderModel
         else and_then (Pattern_parse model) (\<lambda>m. Ok \<lparr>pm_provider = provider, pm_model = m\<rparr>)))"

definition ProviderModel_contains :: "ProviderModel \<Rightarrow> ProviderModel \<Rightarrow> bool" where
  "ProviderModel_contains a b \<longleftrightarrow>
     pm_provider a = pm_provider b \<and> Pattern_contains (pm_model a) (pm_model b)"

definition ProviderModel_to_string :: "ProviderModel \<Rightarrow> string" where
  "ProviderModel_to_string p = pm_provider p @ CHR ''/'' # Pattern_to_string (pm_model p)"

definition ProviderModel_key :: "ProviderModel \<Rightarrow> okey" where
  "ProviderModel_key p = KL [key_str (pm_provider p), Pattern_key (pm_model p)]"

definition wf_ProviderModel :: "ProviderModel \<Rightarrow> bool" where
  "wf_ProviderModel p \<longleftrightarrow> label_ok (pm_provider p) \<and> wf_Pattern (pm_model p) \<and>
     CHR ''/'' \<notin> set (Pattern_to_string (pm_model p))"

record ChannelTarget =
  ct_channel :: Label
  ct_destination :: Label

definition ChannelTarget_parse :: "string \<Rightarrow> (ChannelTarget, ScopeError) result" where
  "ChannelTarget_parse text =
     and_then (ok_or (split_once CHR '':'' text) MalformedChannelTarget) (\<lambda>(channel, destination).
       and_then (ok_or (Label_new channel) MalformedChannelTarget) (\<lambda>channel.
         and_then (ok_or (Label_new destination) MalformedChannelTarget) (\<lambda>destination.
           Ok \<lparr>ct_channel = channel, ct_destination = destination\<rparr>)))"

definition ChannelTarget_to_string :: "ChannelTarget \<Rightarrow> string" where
  "ChannelTarget_to_string c = ct_channel c @ CHR '':'' # ct_destination c"

definition ChannelTarget_key :: "ChannelTarget \<Rightarrow> okey" where
  "ChannelTarget_key c = KL [key_str (ct_channel c), key_str (ct_destination c)]"

definition wf_ChannelTarget :: "ChannelTarget \<Rightarrow> bool" where
  "wf_ChannelTarget c \<longleftrightarrow> label_ok (ct_channel c) \<and> label_ok (ct_destination c)"

type_synonym DeclaredPath = string

definition declared_path_ok :: "string \<Rightarrow> bool" where
  "declared_path_ok text \<longleftrightarrow> text \<noteq> [] \<and> starts_with text ''/'' \<and>
     chars_count text \<le> DECLARED_PATH_MAX_CHARS \<and> char_of (0::nat) \<notin> set text \<and> CHR ''?'' \<notin> set text"

definition DeclaredPath_new :: "string \<Rightarrow> DeclaredPath option" where
  "DeclaredPath_new text = (if declared_path_ok text then Some text else None)"

section \<open>Canonical identities\<close>

type_synonym PathComponent = string
type_synonym Sha256Digest = "8 word list"

definition PATH_COMPONENT_MAX_BYTES :: nat where "PATH_COMPONENT_MAX_BYTES = 255"
definition CANONICAL_PATH_MAX_COMPONENTS :: nat where "CANONICAL_PATH_MAX_COMPONENTS = 64"

definition path_component_ok :: "string \<Rightarrow> bool" where
  "path_component_ok name \<longleftrightarrow> name \<noteq> [] \<and> name \<noteq> ''.'' \<and> name \<noteq> ''..'' \<and>
     length name \<le> PATH_COMPONENT_MAX_BYTES \<and> CHR ''/'' \<notin> set name \<and> char_of (92::nat) \<notin> set name \<and>
     char_of (0::nat) \<notin> set name"

definition PathComponent_new :: "string \<Rightarrow> PathComponent option" where
  "PathComponent_new name = (if path_component_ok name then Some name else None)"

record CanonicalPath =
  components :: "PathComponent list"

fun PathComponents_new :: "string list \<Rightarrow> PathComponent list \<Rightarrow> PathComponent list option" where
  "PathComponents_new [] out = Some out"
| "PathComponents_new (c # cs) out =
     (case PathComponent_new c of None \<Rightarrow> None | Some p \<Rightarrow> PathComponents_new cs (out @ [p]))"

definition CanonicalPath_from_components :: "string list \<Rightarrow> CanonicalPath option" where
  "CanonicalPath_from_components cs =
     (if CANONICAL_PATH_MAX_COMPONENTS < length cs then None
      else map_option (\<lambda>out. \<lparr>components = out\<rparr>) (PathComponents_new cs []))"

definition CanonicalPath_contains :: "CanonicalPath \<Rightarrow> CanonicalPath \<Rightarrow> bool" where
  "CanonicalPath_contains a b \<longleftrightarrow>
     length (components a) \<le> length (components b) \<and>
     list_all (\<lambda>(x, y). x = y) (zip (components a) (components b))"

definition CanonicalPath_to_string :: "CanonicalPath \<Rightarrow> string" where
  "CanonicalPath_to_string p =
     (if components p = [] then ''/'' else concat (map (\<lambda>c. CHR ''/'' # c) (components p)))"

definition wf_CanonicalPath :: "CanonicalPath \<Rightarrow> bool" where
  "wf_CanonicalPath p \<longleftrightarrow> length (components p) \<le> CANONICAL_PATH_MAX_COMPONENTS \<and>
     list_all path_component_ok (components p)"

record ExecutableIdentity =
  exe_path :: CanonicalPath
  exe_digest :: Sha256Digest

definition hex_digit :: "char \<Rightarrow> 8 word option" where
  "hex_digit b =
     (if 48 \<le> byte_of b \<and> byte_of b \<le> 57 then Some (of_nat (byte_of b) - 48)
      else if 97 \<le> byte_of b \<and> byte_of b \<le> 102 then Some (of_nat (byte_of b) - 97 + 10)
      else None)"

fun parse_hex_pairs :: "string \<Rightarrow> 8 word list option" where
  "parse_hex_pairs [] = Some []"
| "parse_hex_pairs [_] = None"
| "parse_hex_pairs (h # l # rest) =
     (case hex_digit h of None \<Rightarrow> None
      | Some hi \<Rightarrow> (case hex_digit l of None \<Rightarrow> None
        | Some lo \<Rightarrow> map_option (\<lambda>bs. (hi * 16 + lo) # bs) (parse_hex_pairs rest)))"

definition Sha256Digest_parse_hex :: "string \<Rightarrow> Sha256Digest option" where
  "Sha256Digest_parse_hex text = (if length text \<noteq> 64 then None else parse_hex_pairs text)"

definition nibble_char :: "nat \<Rightarrow> char" where
  "nibble_char n = (if n < 10 then char_of (48 + n) else char_of (87 + n))"

definition hex_byte :: "8 word \<Rightarrow> string" where
  "hex_byte w = [nibble_char (unat w div 16), nibble_char (unat w mod 16)]"

definition Sha256Digest_to_string :: "Sha256Digest \<Rightarrow> string" where
  "Sha256Digest_to_string d = concat (map hex_byte d)"

definition ExecutableIdentity_to_string :: "ExecutableIdentity \<Rightarrow> string" where
  "ExecutableIdentity_to_string e =
     CanonicalPath_to_string (exe_path e) @ CHR ''@'' # Sha256Digest_to_string (exe_digest e)"

section \<open>Declared and authority scopes\<close>

datatype SyntacticScope =
  SEndpoint Endpoint | SCredentialHandle Label | SProviderModel ProviderModel | SDomain HostPattern
| SServerId Label | SAgentProfile Pattern | SMemoryScope Label | SIntent Pattern
| SArtifactScope Label | SChannelTarget ChannelTarget

datatype ScopeSpec =
  SpecUniversal | SpecSyntactic SyntacticScope | SpecDeclaredPath DeclaredPath
| SpecDeclaredExecutable DeclaredPath

datatype Scope =
  Universal | Syntactic SyntacticScope | ScopePath CanonicalPath | ScopeExecutable ExecutableIdentity

fun SyntacticScope_family :: "SyntacticScope \<Rightarrow> ScopeFamily" where
  "SyntacticScope_family (SEndpoint _) = ScopeFamily.Endpoint"
| "SyntacticScope_family (SCredentialHandle _) = CredentialHandle"
| "SyntacticScope_family (SProviderModel _) = ScopeFamily.ProviderModel"
| "SyntacticScope_family (SDomain _) = Domain"
| "SyntacticScope_family (SServerId _) = ServerId"
| "SyntacticScope_family (SAgentProfile _) = AgentProfile"
| "SyntacticScope_family (SMemoryScope _) = MemoryScope"
| "SyntacticScope_family (SIntent _) = Intent"
| "SyntacticScope_family (SArtifactScope _) = ArtifactScope"
| "SyntacticScope_family (SChannelTarget _) = ScopeFamily.ChannelTarget"

fun SyntacticScope_contains :: "SyntacticScope \<Rightarrow> SyntacticScope \<Rightarrow> bool" where
  "SyntacticScope_contains (SEndpoint a) other = (case other of SEndpoint b \<Rightarrow> Endpoint_contains a b | _ \<Rightarrow> False)"
| "SyntacticScope_contains (SProviderModel a) other = (case other of SProviderModel b \<Rightarrow> ProviderModel_contains a b | _ \<Rightarrow> False)"
| "SyntacticScope_contains (SDomain a) other = (case other of SDomain b \<Rightarrow> HostPattern_contains a b | _ \<Rightarrow> False)"
| "SyntacticScope_contains (SAgentProfile a) other = (case other of SAgentProfile b \<Rightarrow> Pattern_contains a b | _ \<Rightarrow> False)"
| "SyntacticScope_contains (SIntent a) other = (case other of SIntent b \<Rightarrow> Pattern_contains a b | _ \<Rightarrow> False)"
| "SyntacticScope_contains (SCredentialHandle a) other = (case other of SCredentialHandle b \<Rightarrow> a = b | _ \<Rightarrow> False)"
| "SyntacticScope_contains (SServerId a) other = (case other of SServerId b \<Rightarrow> a = b | _ \<Rightarrow> False)"
| "SyntacticScope_contains (SMemoryScope a) other = (case other of SMemoryScope b \<Rightarrow> a = b | _ \<Rightarrow> False)"
| "SyntacticScope_contains (SArtifactScope a) other = (case other of SArtifactScope b \<Rightarrow> a = b | _ \<Rightarrow> False)"
| "SyntacticScope_contains (SChannelTarget a) other = (case other of SChannelTarget b \<Rightarrow> a = b | _ \<Rightarrow> False)"

fun ScopeSpec_family :: "ScopeSpec \<Rightarrow> ScopeFamily option" where
  "ScopeSpec_family SpecUniversal = None"
| "ScopeSpec_family (SpecSyntactic s) = Some (SyntacticScope_family s)"
| "ScopeSpec_family (SpecDeclaredPath _) = Some Path"
| "ScopeSpec_family (SpecDeclaredExecutable _) = Some Executable"

fun Scope_family :: "Scope \<Rightarrow> ScopeFamily option" where
  "Scope_family Universal = None"
| "Scope_family (Syntactic s) = Some (SyntacticScope_family s)"
| "Scope_family (ScopePath _) = Some Path"
| "Scope_family (ScopeExecutable _) = Some Executable"

definition Scope_fits :: "Scope \<Rightarrow> ScopeFamily \<Rightarrow> bool" where
  "Scope_fits s family = (case Scope_family s of None \<Rightarrow> True | Some f \<Rightarrow> f = family)"

fun Scope_contains :: "Scope \<Rightarrow> Scope \<Rightarrow> bool" where
  "Scope_contains Universal _ = True"
| "Scope_contains (Syntactic a) (Syntactic b) = SyntacticScope_contains a b"
| "Scope_contains (ScopePath a) (ScopePath b) = CanonicalPath_contains a b"
| "Scope_contains (ScopeExecutable a) (ScopeExecutable b) = (a = b)"
| "Scope_contains _ _ = False"

fun SyntacticScope_to_string :: "SyntacticScope \<Rightarrow> string" where
  "SyntacticScope_to_string (SEndpoint e) = Endpoint_to_string e"
| "SyntacticScope_to_string (SCredentialHandle l) = l"
| "SyntacticScope_to_string (SServerId l) = l"
| "SyntacticScope_to_string (SMemoryScope l) = l"
| "SyntacticScope_to_string (SArtifactScope l) = l"
| "SyntacticScope_to_string (SProviderModel p) = ProviderModel_to_string p"
| "SyntacticScope_to_string (SDomain h) = HostPattern_to_string h"
| "SyntacticScope_to_string (SAgentProfile p) = Pattern_to_string p"
| "SyntacticScope_to_string (SIntent p) = Pattern_to_string p"
| "SyntacticScope_to_string (SChannelTarget c) = ChannelTarget_to_string c"

fun ScopeSpec_to_string :: "ScopeSpec \<Rightarrow> string" where
  "ScopeSpec_to_string SpecUniversal = ''*''"
| "ScopeSpec_to_string (SpecSyntactic s) = SyntacticScope_to_string s"
| "ScopeSpec_to_string (SpecDeclaredPath p) = p"
| "ScopeSpec_to_string (SpecDeclaredExecutable p) = p"

fun Scope_to_string :: "Scope \<Rightarrow> string" where
  "Scope_to_string Universal = ''*''"
| "Scope_to_string (Syntactic s) = SyntacticScope_to_string s"
| "Scope_to_string (ScopePath p) = CanonicalPath_to_string p"
| "Scope_to_string (ScopeExecutable e) = ExecutableIdentity_to_string e"

fun SyntacticScope_key :: "SyntacticScope \<Rightarrow> okey" where
  "SyntacticScope_key (SEndpoint e) = KL [KN 0, Endpoint_key e]"
| "SyntacticScope_key (SCredentialHandle l) = KL [KN 1, key_str l]"
| "SyntacticScope_key (SProviderModel p) = KL [KN 2, ProviderModel_key p]"
| "SyntacticScope_key (SDomain h) = KL [KN 3, HostPattern_key h]"
| "SyntacticScope_key (SServerId l) = KL [KN 4, key_str l]"
| "SyntacticScope_key (SAgentProfile p) = KL [KN 5, Pattern_key p]"
| "SyntacticScope_key (SMemoryScope l) = KL [KN 6, key_str l]"
| "SyntacticScope_key (SIntent p) = KL [KN 7, Pattern_key p]"
| "SyntacticScope_key (SArtifactScope l) = KL [KN 8, key_str l]"
| "SyntacticScope_key (SChannelTarget c) = KL [KN 9, ChannelTarget_key c]"

definition CanonicalPath_key :: "CanonicalPath \<Rightarrow> okey" where
  "CanonicalPath_key p = KL [key_vec key_str (components p)]"

definition ExecutableIdentity_key :: "ExecutableIdentity \<Rightarrow> okey" where
  "ExecutableIdentity_key e =
     KL [CanonicalPath_key (exe_path e), key_vec (\<lambda>b. KN (unat b)) (exe_digest e)]"

fun Scope_key :: "Scope \<Rightarrow> okey" where
  "Scope_key Universal = KL [KN 0]"
| "Scope_key (Syntactic s) = KL [KN 1, SyntacticScope_key s]"
| "Scope_key (ScopePath p) = KL [KN 2, CanonicalPath_key p]"
| "Scope_key (ScopeExecutable e) = KL [KN 3, ExecutableIdentity_key e]"

fun wf_SyntacticScope :: "SyntacticScope \<Rightarrow> bool" where
  "wf_SyntacticScope (SEndpoint e) = wf_Endpoint e"
| "wf_SyntacticScope (SCredentialHandle l) = label_ok l"
| "wf_SyntacticScope (SServerId l) = label_ok l"
| "wf_SyntacticScope (SMemoryScope l) = label_ok l"
| "wf_SyntacticScope (SArtifactScope l) = label_ok l"
| "wf_SyntacticScope (SProviderModel p) = wf_ProviderModel p"
| "wf_SyntacticScope (SDomain h) = wf_HostPattern h"
| "wf_SyntacticScope (SAgentProfile p) = wf_Pattern p"
| "wf_SyntacticScope (SIntent p) = wf_Pattern p"
| "wf_SyntacticScope (SChannelTarget c) = wf_ChannelTarget c"

end
