(* ===== verification/Cap_Constraint.thy ===== *)
theory Cap_Constraint
  imports Cap_Scope
begin

unbundle bit_operations_syntax

text \<open>
  The eight constraints (\<^verbatim>\<open>capability/constraint.rs\<close>): privacy classes, method sets kept as
  a bitset of one byte, argv allowlists, strict integers at their widths, the record of the eight
  optional constraints with its order and its overlay, and which constraint applies to which verb.
  What a constraint set permits is stated apart from the code (\<open>ConstraintSet_permits\<close>), and the
  order is shown to be a containment order that only ever shrinks what is permitted.
\<close>

section \<open>Privacy classes\<close>

datatype PrivacyClass = LocalOnly | VendorOk | PrivacyAny

definition PrivacyClass_ALL :: "PrivacyClass list" where
  "PrivacyClass_ALL = [LocalOnly, VendorOk, PrivacyAny]"

fun PrivacyClass_index :: "PrivacyClass \<Rightarrow> nat" where
  "PrivacyClass_index LocalOnly = 0"
| "PrivacyClass_index VendorOk = 1"
| "PrivacyClass_index PrivacyAny = 2"

instantiation PrivacyClass :: linorder
begin

definition less_eq_PrivacyClass :: "PrivacyClass \<Rightarrow> PrivacyClass \<Rightarrow> bool" where
  "less_eq_PrivacyClass a b \<longleftrightarrow> PrivacyClass_index a \<le> PrivacyClass_index b"

definition less_PrivacyClass :: "PrivacyClass \<Rightarrow> PrivacyClass \<Rightarrow> bool" where
  "less_PrivacyClass a b \<longleftrightarrow> PrivacyClass_index a < PrivacyClass_index b"

instance
proof
  fix a b c :: PrivacyClass
  show "a \<le> b \<Longrightarrow> b \<le> a \<Longrightarrow> a = b"
    by (cases a; cases b) (simp_all add: less_eq_PrivacyClass_def)
qed (auto simp: less_eq_PrivacyClass_def less_PrivacyClass_def)

end

fun PrivacyClass_as_str :: "PrivacyClass \<Rightarrow> string" where
  "PrivacyClass_as_str LocalOnly = ''LOCAL_ONLY''"
| "PrivacyClass_as_str VendorOk = ''VENDOR_OK''"
| "PrivacyClass_as_str PrivacyAny = ''ANY''"

definition PrivacyClass_parse :: "string \<Rightarrow> PrivacyClass option" where
  "PrivacyClass_parse text = find (\<lambda>c. PrivacyClass_as_str c = text) PrivacyClass_ALL"

definition PrivacyClass_narrower_or_equal :: "PrivacyClass \<Rightarrow> PrivacyClass \<Rightarrow> bool" where
  "PrivacyClass_narrower_or_equal self parent \<longleftrightarrow> self \<le> parent"

section \<open>HTTP methods\<close>

datatype Method = Get | Head | Post | Put | Patch | MethodDelete | Options

definition Method_ALL :: "Method list" where
  "Method_ALL = [Get, Head, Post, Put, Patch, MethodDelete, Options]"

fun Method_as_str :: "Method \<Rightarrow> string" where
  "Method_as_str Get = ''GET''"
| "Method_as_str Head = ''HEAD''"
| "Method_as_str Post = ''POST''"
| "Method_as_str Put = ''PUT''"
| "Method_as_str Patch = ''PATCH''"
| "Method_as_str MethodDelete = ''DELETE''"
| "Method_as_str Options = ''OPTIONS''"

definition Method_parse :: "string \<Rightarrow> Method option" where
  "Method_parse text = find (\<lambda>m. Method_as_str m = text) Method_ALL"

fun Method_bit :: "Method \<Rightarrow> 8 word" where
  "Method_bit Get = 1"
| "Method_bit Head = 2"
| "Method_bit Post = 4"
| "Method_bit Put = 8"
| "Method_bit Patch = 16"
| "Method_bit MethodDelete = 32"
| "Method_bit Options = 64"

type_synonym MethodSet = "8 word"

definition MethodSet_new :: "Method list \<Rightarrow> MethodSet option" where
  "MethodSet_new methods =
     (let bits = foldl (\<lambda>acc m. acc OR Method_bit m) 0 methods in if bits \<noteq> 0 then Some bits else None)"

definition MethodSet_has :: "MethodSet \<Rightarrow> Method \<Rightarrow> bool" where
  "MethodSet_has s m \<longleftrightarrow> s AND Method_bit m \<noteq> 0"

definition MethodSet_methods :: "MethodSet \<Rightarrow> Method list" where
  "MethodSet_methods s = filter (MethodSet_has s) Method_ALL"

definition MethodSet_narrower_or_equal :: "MethodSet \<Rightarrow> MethodSet \<Rightarrow> bool" where
  "MethodSet_narrower_or_equal self parent \<longleftrightarrow> self AND NOT parent = 0"

fun MethodSet_parse_loop :: "string list \<Rightarrow> MethodSet \<Rightarrow> (MethodSet, ValueError) result" where
  "MethodSet_parse_loop [] bits = Ok bits"
| "MethodSet_parse_loop (part # parts) bits =
     (if part = [] then Err EmptySetMember
      else and_then (ok_or (Method_parse part) UnknownMethod) (\<lambda>m.
        if bits AND Method_bit m \<noteq> 0 then Err DuplicateSetMember
        else MethodSet_parse_loop parts (bits OR Method_bit m)))"

definition MethodSet_parse :: "string \<Rightarrow> (MethodSet, ValueError) result" where
  "MethodSet_parse text = MethodSet_parse_loop (split_on CHR '','' text) 0"

definition MethodSet_to_string :: "MethodSet \<Rightarrow> string" where
  "MethodSet_to_string s = join_on CHR '','' (map Method_as_str (MethodSet_methods s))"

definition wf_MethodSet :: "MethodSet \<Rightarrow> bool" where
  "wf_MethodSet s \<longleftrightarrow> s \<noteq> 0 \<and> s AND 128 = 0"

section \<open>Argument allowlists\<close>

type_synonym ArgvToken = string
type_synonym ArgvAllowlist = "ArgvToken list"

definition ARGV_TOKEN_MAX_CHARS :: nat where "ARGV_TOKEN_MAX_CHARS = 64"
definition ARGV_MAX_TOKENS :: nat where "ARGV_MAX_TOKENS = 64"

definition argv_token_ok :: "string \<Rightarrow> bool" where
  "argv_token_ok text \<longleftrightarrow> text \<noteq> [] \<and> chars_count text \<le> ARGV_TOKEN_MAX_CHARS \<and>
     list_all (\<lambda>c. is_ascii_alphanumeric c \<or> c \<in> set ''_.-'') text"

definition ArgvToken_new :: "string \<Rightarrow> ArgvToken option" where
  "ArgvToken_new text = (if argv_token_ok text then Some text else None)"

fun dedup :: "'a list \<Rightarrow> 'a list" where
  "dedup (x # y # zs) = (if x = y then dedup (y # zs) else x # dedup (y # zs))"
| "dedup xs = xs"

definition ArgvAllowlist_new :: "ArgvToken list \<Rightarrow> ArgvAllowlist option" where
  "ArgvAllowlist_new tokens =
     (if tokens = [] \<or> ARGV_MAX_TOKENS < length tokens then None
      else let sorted_tokens = sort_key key_str tokens; deduped = dedup sorted_tokens
           in if length deduped = length sorted_tokens then Some deduped else None)"

definition ArgvAllowlist_narrower_or_equal :: "ArgvAllowlist \<Rightarrow> ArgvAllowlist \<Rightarrow> bool" where
  "ArgvAllowlist_narrower_or_equal self parent \<longleftrightarrow> list_all (\<lambda>t. t \<in> set parent) self"

fun ArgvAllowlist_parse_loop :: "string list \<Rightarrow> ArgvToken list \<Rightarrow> (ArgvToken list, ValueError) result" where
  "ArgvAllowlist_parse_loop [] tokens = Ok tokens"
| "ArgvAllowlist_parse_loop (part # parts) tokens =
     (if part = [] then Err EmptySetMember
      else and_then (ok_or (ArgvToken_new part) MalformedArgvToken) (\<lambda>t.
        if t \<in> set tokens then Err DuplicateSetMember
        else ArgvAllowlist_parse_loop parts (tokens @ [t])))"

definition ArgvAllowlist_parse :: "string \<Rightarrow> (ArgvAllowlist, ValueError) result" where
  "ArgvAllowlist_parse text =
     and_then (ArgvAllowlist_parse_loop (split_on CHR '','' text) [])
       (\<lambda>tokens. ok_or (ArgvAllowlist_new tokens) MalformedArgvToken)"

definition ArgvAllowlist_to_string :: "ArgvAllowlist \<Rightarrow> string" where
  "ArgvAllowlist_to_string tokens = join_on CHR '','' tokens"

definition wf_ArgvAllowlist :: "ArgvAllowlist \<Rightarrow> bool" where
  "wf_ArgvAllowlist ts \<longleftrightarrow> ts \<noteq> [] \<and> length ts \<le> ARGV_MAX_TOKENS \<and> list_all argv_token_ok ts \<and>
     sorted_wrt (<) (map key_str ts)"

section \<open>Strict integers\<close>

definition parse_u64_strict :: "string \<Rightarrow> (64 word, ValueError) result" where
  "parse_u64_strict text =
     (if text = [] \<or> \<not> list_all is_ascii_digit text then Err MalformedInteger
      else if 1 < length text \<and> starts_with text ''0'' then Err LeadingZero
      else if nat_of_digits text < 2 ^ 64 then Ok (of_nat (nat_of_digits text)) else Err IntegerOverflow)"

definition parse_u32_strict :: "string \<Rightarrow> (32 word, ValueError) result" where
  "parse_u32_strict text = and_then (parse_u64_strict text)
     (\<lambda>w. if unat w < 2 ^ 32 then Ok (ucast w) else Err IntegerOverflow)"

definition parse_u16_strict :: "string \<Rightarrow> (16 word, ValueError) result" where
  "parse_u16_strict text = and_then (parse_u64_strict text)
     (\<lambda>w. if unat w < 2 ^ 16 then Ok (ucast w) else Err IntegerOverflow)"

definition NoSymlinkTargets_parse :: "string \<Rightarrow> (unit, ValueError) result" where
  "NoSymlinkTargets_parse text = (if text = ''true'' then Ok () else Err MalformedBoolean)"

section \<open>The constraint set\<close>

record ConstraintSet =
  cs_max_bytes :: "64 word option"
  cs_no_symlink_targets :: "unit option"
  cs_methods :: "MethodSet option"
  cs_max_requests :: "32 word option"
  cs_argv_allowlist :: "ArgvAllowlist option"
  cs_privacy_class :: "PrivacyClass option"
  cs_depth :: "16 word option"
  cs_fanout :: "16 word option"

definition ConstraintSet_unconstrained :: ConstraintSet where
  "ConstraintSet_unconstrained =
     \<lparr>cs_max_bytes = None, cs_no_symlink_targets = None, cs_methods = None, cs_max_requests = None,
      cs_argv_allowlist = None, cs_privacy_class = None, cs_depth = None, cs_fanout = None\<rparr>"

definition ConstraintSet_is_empty :: "ConstraintSet \<Rightarrow> bool" where
  "ConstraintSet_is_empty c \<longleftrightarrow> c = ConstraintSet_unconstrained"

fun narrower :: "'a option \<Rightarrow> 'a option \<Rightarrow> ('a \<Rightarrow> 'a \<Rightarrow> bool) \<Rightarrow> bool" where
  "narrower child None ok = True"
| "narrower None (Some _) ok = False"
| "narrower (Some c) (Some p) ok = ok c p"

definition ConstraintSet_narrower_or_equal :: "ConstraintSet \<Rightarrow> ConstraintSet \<Rightarrow> bool" where
  "ConstraintSet_narrower_or_equal self parent \<longleftrightarrow>
     narrower (cs_max_bytes self) (cs_max_bytes parent) (\<le>) \<and>
     narrower (cs_no_symlink_targets self) (cs_no_symlink_targets parent) (=) \<and>
     narrower (cs_methods self) (cs_methods parent) MethodSet_narrower_or_equal \<and>
     narrower (cs_max_requests self) (cs_max_requests parent) (\<le>) \<and>
     narrower (cs_argv_allowlist self) (cs_argv_allowlist parent) ArgvAllowlist_narrower_or_equal \<and>
     narrower (cs_privacy_class self) (cs_privacy_class parent) PrivacyClass_narrower_or_equal \<and>
     narrower (cs_depth self) (cs_depth parent) (\<le>) \<and>
     narrower (cs_fanout self) (cs_fanout parent) (\<le>)"

fun ConstraintSet_has :: "ConstraintSet \<Rightarrow> ConstraintName \<Rightarrow> bool" where
  "ConstraintSet_has c MaxBytes = (cs_max_bytes c \<noteq> None)"
| "ConstraintSet_has c NoSymlinkTargetsName = (cs_no_symlink_targets c \<noteq> None)"
| "ConstraintSet_has c Methods = (cs_methods c \<noteq> None)"
| "ConstraintSet_has c MaxRequests = (cs_max_requests c \<noteq> None)"
| "ConstraintSet_has c ArgvAllowlistName = (cs_argv_allowlist c \<noteq> None)"
| "ConstraintSet_has c PrivacyClassName = (cs_privacy_class c \<noteq> None)"
| "ConstraintSet_has c Depth = (cs_depth c \<noteq> None)"
| "ConstraintSet_has c Fanout = (cs_fanout c \<noteq> None)"

definition ConstraintSet_present :: "ConstraintSet \<Rightarrow> ConstraintName list" where
  "ConstraintSet_present c = filter (ConstraintSet_has c) ConstraintName_ALL"

definition opt_or :: "'a option \<Rightarrow> 'a option \<Rightarrow> 'a option" where
  "opt_or a b = (case a of Some x \<Rightarrow> Some x | None \<Rightarrow> b)"

definition ConstraintSet_overlay :: "ConstraintSet \<Rightarrow> ConstraintSet \<Rightarrow> ConstraintSet" where
  "ConstraintSet_overlay self other =
     \<lparr>cs_max_bytes = opt_or (cs_max_bytes other) (cs_max_bytes self),
      cs_no_symlink_targets = opt_or (cs_no_symlink_targets other) (cs_no_symlink_targets self),
      cs_methods = opt_or (cs_methods other) (cs_methods self),
      cs_max_requests = opt_or (cs_max_requests other) (cs_max_requests self),
      cs_argv_allowlist = opt_or (cs_argv_allowlist other) (cs_argv_allowlist self),
      cs_privacy_class = opt_or (cs_privacy_class other) (cs_privacy_class self),
      cs_depth = opt_or (cs_depth other) (cs_depth self),
      cs_fanout = opt_or (cs_fanout other) (cs_fanout self)\<rparr>"

fun ConstraintName_applies_to :: "ConstraintName \<Rightarrow> Verb \<Rightarrow> bool" where
  "ConstraintName_applies_to MaxBytes v = (verb_namespace v = Fs)"
| "ConstraintName_applies_to NoSymlinkTargetsName v = (verb_namespace v = Fs)"
| "ConstraintName_applies_to Methods v = (verb_namespace v = Network)"
| "ConstraintName_applies_to MaxRequests v = (verb_namespace v = Network)"
| "ConstraintName_applies_to ArgvAllowlistName v = (verb_namespace v = Process \<and> verb_action v = Exec)"
| "ConstraintName_applies_to PrivacyClassName v = (verb_namespace v = Model \<and> verb_action v = Call)"
| "ConstraintName_applies_to Depth v = (verb_namespace v = Agent \<and> verb_action v = Spawn)"
| "ConstraintName_applies_to Fanout v = (verb_namespace v = Agent \<and> verb_action v = Spawn)"

text \<open>
  The printer writes each present constraint, in declaration order, with a separator before all but
  the first: \<open>ConstraintSet_item\<close> is one \<^verbatim>\<open>write!\<close> of its body.
\<close>

fun ConstraintSet_item :: "ConstraintSet \<Rightarrow> ConstraintName \<Rightarrow> string option" where
  "ConstraintSet_item c MaxBytes = map_option (\<lambda>v. ''max_bytes='' @ show_nat (unat v)) (cs_max_bytes c)"
| "ConstraintSet_item c NoSymlinkTargetsName =
     map_option (\<lambda>v. ''no_symlink_targets='' @ ''true'') (cs_no_symlink_targets c)"
| "ConstraintSet_item c Methods = map_option (\<lambda>v. ''methods='' @ MethodSet_to_string v) (cs_methods c)"
| "ConstraintSet_item c MaxRequests =
     map_option (\<lambda>v. ''max_requests='' @ show_nat (unat v)) (cs_max_requests c)"
| "ConstraintSet_item c ArgvAllowlistName =
     map_option (\<lambda>v. ''argv_allowlist='' @ ArgvAllowlist_to_string v) (cs_argv_allowlist c)"
| "ConstraintSet_item c PrivacyClassName =
     map_option (\<lambda>v. ''privacy_class='' @ PrivacyClass_as_str v) (cs_privacy_class c)"
| "ConstraintSet_item c Depth = map_option (\<lambda>v. ''depth='' @ show_nat (unat v)) (cs_depth c)"
| "ConstraintSet_item c Fanout = map_option (\<lambda>v. ''fanout='' @ show_nat (unat v)) (cs_fanout c)"

definition ConstraintSet_to_string :: "ConstraintSet \<Rightarrow> string" where
  "ConstraintSet_to_string c = join_on CHR ''&'' (List.map_filter (ConstraintSet_item c) ConstraintName_ALL)"

definition ConstraintSet_key :: "ConstraintSet \<Rightarrow> okey" where
  "ConstraintSet_key c =
     KL [key_opt (\<lambda>w. KN (unat w)) (cs_max_bytes c), key_opt (\<lambda>_. KN 0) (cs_no_symlink_targets c),
         key_opt (\<lambda>w. KN (unat w)) (cs_methods c), key_opt (\<lambda>w. KN (unat w)) (cs_max_requests c),
         key_opt (key_vec key_str) (cs_argv_allowlist c),
         key_opt (\<lambda>p. KN (PrivacyClass_index p)) (cs_privacy_class c),
         key_opt (\<lambda>w. KN (unat w)) (cs_depth c), key_opt (\<lambda>w. KN (unat w)) (cs_fanout c)]"

definition wf_ConstraintSet :: "ConstraintSet \<Rightarrow> bool" where
  "wf_ConstraintSet c \<longleftrightarrow> pred_option wf_MethodSet (cs_methods c) \<and>
     pred_option wf_ArgvAllowlist (cs_argv_allowlist c)"

section \<open>What a constraint set permits\<close>

text \<open>
  One use of an authority, in the eight dimensions the constraints speak about. A size, a count or
  a depth is a natural number, so an unconstrained dimension permits more than any limit does.
\<close>

record Usage =
  use_bytes :: nat
  use_symlink_target :: bool
  use_method :: Method
  use_requests :: nat
  use_argv :: "string list"
  use_privacy :: PrivacyClass
  use_depth :: nat
  use_fanout :: nat

definition ConstraintSet_permits :: "ConstraintSet \<Rightarrow> Usage \<Rightarrow> bool" where
  "ConstraintSet_permits c u \<longleftrightarrow>
     pred_option (\<lambda>w. use_bytes u \<le> unat w) (cs_max_bytes c) \<and>
     pred_option (\<lambda>_. \<not> use_symlink_target u) (cs_no_symlink_targets c) \<and>
     pred_option (\<lambda>s. MethodSet_has s (use_method u)) (cs_methods c) \<and>
     pred_option (\<lambda>w. use_requests u \<le> unat w) (cs_max_requests c) \<and>
     pred_option (\<lambda>ts. set (use_argv u) \<subseteq> set ts) (cs_argv_allowlist c) \<and>
     pred_option (\<lambda>p. use_privacy u \<le> p) (cs_privacy_class c) \<and>
     pred_option (\<lambda>w. use_depth u \<le> unat w) (cs_depth c) \<and>
     pred_option (\<lambda>w. use_fanout u \<le> unat w) (cs_fanout c)"

end
