(* ===== verification/Cap_Scope_Laws.thy ===== *)
theory Cap_Scope_Laws
  imports Cap_Scope
begin

text \<open>
  The laws of scopes: what each pattern denotes and that containment is inclusion of denotations,
  the interpretations of \<open>containment\<close> family by family, and the printers as the inverses of the
  parsers (a scope has one spelling).
\<close>

section \<open>What a pattern stands for\<close>

fun HostPattern_denotes :: "HostPattern \<Rightarrow> HostLabel list set" where
  "HostPattern_denotes (Exact labels) = {labels}"
| "HostPattern_denotes (Wildcard suffix') = {front @ suffix' | front. front \<noteq> []}"

fun Pattern_denotes :: "Pattern \<Rightarrow> string set" where
  "Pattern_denotes (Literal b) = {b}"
| "Pattern_denotes (Prefix b) = {s. prefix b s}"

fun PortSpec_denotes :: "PortSpec \<Rightarrow> 16 word set" where
  "PortSpec_denotes PortAny = UNIV"
| "PortSpec_denotes (Port p) = {p}"

lemma ends_with_labels_iff [simp]: "ends_with_labels host s \<longleftrightarrow> (\<exists>front. host = front @ s)"
proof
  assume "ends_with_labels host s"
  then have "host = take (length host - length s) host @ s"
    unfolding ends_with_labels_def by (metis append_take_drop_id)
  then show "\<exists>front. host = front @ s" ..
qed (auto simp: ends_with_labels_def)

lemma two_labels: "\<exists>x y :: HostLabel. x \<noteq> y"
  by (intro exI [of _ "''a''"] exI [of _ "''b''"]) simp

lemma wildcard_not_singleton: "\<not> HostPattern_denotes (Wildcard s) \<subseteq> {a}"
proof
  assume *: "HostPattern_denotes (Wildcard s) \<subseteq> {a}"
  have in_s: "[x] @ s \<in> HostPattern_denotes (Wildcard s)" for x by auto
  obtain x y :: HostLabel where "x \<noteq> y" using two_labels by blast
  moreover have "[x] @ s = a" "[y] @ s = a" using * in_s by blast+
  ultimately show False by auto
qed

lemma wildcard_denotes_subset:
  "HostPattern_denotes (Wildcard i) \<subseteq> HostPattern_denotes (Wildcard s) \<longleftrightarrow> (\<exists>front. i = front @ s)"
proof
  assume *: "HostPattern_denotes (Wildcard i) \<subseteq> HostPattern_denotes (Wildcard s)"
  have "[''a''] @ i \<in> HostPattern_denotes (Wildcard i)" by auto
  with * have "[''a''] @ i \<in> HostPattern_denotes (Wildcard s)" by blast
  then obtain front where f: "front \<noteq> []" "''a'' # i = front @ s" by auto
  then obtain x front' where "front = x # front'" by (cases front) auto
  with f show "\<exists>front. i = front @ s" by auto
next
  assume "\<exists>front. i = front @ s"
  then obtain f where i: "i = f @ s" ..
  have "front @ f @ s \<in> HostPattern_denotes (Wildcard s)" if "front \<noteq> []" for front
    using that by (auto simp flip: append_assoc)
  with i show "HostPattern_denotes (Wildcard i) \<subseteq> HostPattern_denotes (Wildcard s)" by auto
qed

lemma HostPattern_contains_denotes:
  "HostPattern_contains a b \<longleftrightarrow> HostPattern_denotes b \<subseteq> HostPattern_denotes a"
proof (cases a)
  case (Exact l)
  then show ?thesis
    using wildcard_not_singleton by (cases b) auto
next
  case (Wildcard s)
  then show ?thesis
    using wildcard_denotes_subset by (cases b) auto
qed

lemma prefix_not_singleton: "\<not> Pattern_denotes (Prefix p) \<subseteq> {a}"
proof
  assume *: "Pattern_denotes (Prefix p) \<subseteq> {a}"
  have "p \<in> Pattern_denotes (Prefix p)" "p @ ''x'' \<in> Pattern_denotes (Prefix p)" by auto
  with * have "p = a" "p @ ''x'' = a" by blast+
  then show False by simp
qed

lemma Pattern_contains_denotes: "Pattern_contains a b \<longleftrightarrow> Pattern_denotes b \<subseteq> Pattern_denotes a"
proof (cases a)
  case (Literal l)
  then show ?thesis
    using prefix_not_singleton by (cases b) auto
next
  case (Prefix p)
  then show ?thesis
    by (cases b) (auto simp: starts_with_prefix intro: prefix_order.trans)
qed

lemma PortSpec_contains_denotes: "PortSpec_contains a b \<longleftrightarrow> PortSpec_denotes b \<subseteq> PortSpec_denotes a"
proof -
  have "(UNIV :: 16 word set) \<noteq> {p}" for p
    by (metis UNIV_I singletonD zero_neq_one)
  then show ?thesis by (cases a; cases b) auto
qed

definition Endpoint_denotes :: "Endpoint \<Rightarrow> (HostLabel list \<times> 16 word) set" where
  "Endpoint_denotes e = HostPattern_denotes (ep_host e) \<times> PortSpec_denotes (ep_port e)"

lemma HostPattern_denotes_nonempty [simp]: "HostPattern_denotes p \<noteq> {}"
  by (cases p) auto

lemma PortSpec_denotes_nonempty [simp]: "PortSpec_denotes p \<noteq> {}"
  by (cases p) auto

lemma Endpoint_contains_denotes:
  "Endpoint_contains a b \<longleftrightarrow> Endpoint_denotes b \<subseteq> Endpoint_denotes a"
  by (simp add: Endpoint_contains_def Endpoint_denotes_def times_subset_iff
      HostPattern_contains_denotes PortSpec_contains_denotes)

section \<open>Every family is a containment order\<close>

interpretation host: containment HostPattern_contains "\<lambda>_. True"
proof
  show "HostPattern_contains a b \<Longrightarrow> HostPattern_contains b a \<Longrightarrow> a = b" for a b
    by (cases a; cases b) auto
qed (auto simp: HostPattern_contains_denotes)

interpretation port: containment PortSpec_contains "\<lambda>_. True"
proof
  show "PortSpec_contains a b \<Longrightarrow> PortSpec_contains b a \<Longrightarrow> a = b" for a b
    by (cases a; cases b) auto
qed (auto simp: PortSpec_contains_denotes)

interpretation endpoint: containment Endpoint_contains "\<lambda>_. True"
proof
  show "Endpoint_contains a b \<Longrightarrow> Endpoint_contains b a \<Longrightarrow> a = b" for a b
    using host.covers_antisym port.covers_antisym
    by (auto simp: Endpoint_contains_def intro: Endpoint.equality)
qed (auto simp: Endpoint_contains_denotes)

interpretation pattern: containment Pattern_contains "\<lambda>_. True"
proof
  show "Pattern_contains a b \<Longrightarrow> Pattern_contains b a \<Longrightarrow> a = b" for a b
    by (cases a; cases b) (auto simp: starts_with_prefix)
qed (auto simp: Pattern_contains_denotes)

interpretation provider: containment ProviderModel_contains "\<lambda>_. True"
proof
  show "ProviderModel_contains a b \<Longrightarrow> ProviderModel_contains b a \<Longrightarrow> a = b" for a b
    using pattern.covers_antisym
    by (auto simp: ProviderModel_contains_def intro: ProviderModel.equality)
qed (auto simp: ProviderModel_contains_def Pattern_contains_denotes)

interpretation syntactic: containment SyntacticScope_contains "\<lambda>_. True"
proof
  show "SyntacticScope_contains a a" for a
    using endpoint.covers_refl provider.covers_refl host.covers_refl pattern.covers_refl
    by (cases a) auto
  show "SyntacticScope_contains a b \<Longrightarrow> SyntacticScope_contains b c \<Longrightarrow> SyntacticScope_contains a c"
    for a b c
    by (cases a; cases b; simp; cases c; simp)
      (blast intro: endpoint.covers_trans provider.covers_trans host.covers_trans
        pattern.covers_trans)+
  show "SyntacticScope_contains a b \<Longrightarrow> SyntacticScope_contains b a \<Longrightarrow> a = b" for a b
    by (cases a; cases b; simp)
      (blast intro: endpoint.covers_antisym provider.covers_antisym host.covers_antisym
        pattern.covers_antisym)+
qed

lemma CanonicalPath_contains_prefix:
  "CanonicalPath_contains a b \<longleftrightarrow> prefix (components a) (components b)"
proof -
  have "length xs \<le> length ys \<and> list_all (\<lambda>(x, y). x = y) (zip xs ys) \<longleftrightarrow> prefix xs ys"
    for xs ys :: "PathComponent list"
    by (induction xs ys rule: list_induct2') auto
  then show ?thesis by (simp add: CanonicalPath_contains_def)
qed

interpretation path: containment CanonicalPath_contains "\<lambda>_. True"
  by unfold_locales
    (auto simp: CanonicalPath_contains_prefix intro: prefix_order.trans CanonicalPath.equality)

interpretation scope: containment Scope_contains "\<lambda>_. True"
proof
  show "Scope_contains a a" for a
    using syntactic.covers_refl path.covers_refl by (cases a) auto
  show "Scope_contains a b \<Longrightarrow> Scope_contains b c \<Longrightarrow> Scope_contains a c" for a b c
    by (cases a; cases b; simp; cases c; simp)
      (blast intro: syntactic.covers_trans path.covers_trans)+
  show "Scope_contains a b \<Longrightarrow> Scope_contains b a \<Longrightarrow> a = b" for a b
    by (cases a; cases b; simp) (blast intro: syntactic.covers_antisym path.covers_antisym)+
qed

section \<open>Keys are injective\<close>

lemma HostPattern_key_inject [simp]: "HostPattern_key a = HostPattern_key b \<longleftrightarrow> a = b"
  by (cases a; cases b) (simp_all add: key_vec_inject)

lemma PortSpec_key_inject [simp]: "PortSpec_key a = PortSpec_key b \<longleftrightarrow> a = b"
  by (cases a; cases b) auto

lemma Endpoint_key_inject [simp]: "Endpoint_key a = Endpoint_key b \<longleftrightarrow> a = b"
  by (auto simp: Endpoint_key_def intro: Endpoint.equality)

lemma Pattern_key_inject [simp]: "Pattern_key a = Pattern_key b \<longleftrightarrow> a = b"
  by (cases a; cases b) simp_all

lemma ProviderModel_key_inject [simp]: "ProviderModel_key a = ProviderModel_key b \<longleftrightarrow> a = b"
  by (auto simp: ProviderModel_key_def intro: ProviderModel.equality)

lemma ChannelTarget_key_inject [simp]: "ChannelTarget_key a = ChannelTarget_key b \<longleftrightarrow> a = b"
  by (auto simp: ChannelTarget_key_def intro: ChannelTarget.equality)

lemma SyntacticScope_key_inject [simp]: "SyntacticScope_key a = SyntacticScope_key b \<longleftrightarrow> a = b"
  by (cases a; cases b) simp_all

lemma CanonicalPath_key_inject [simp]: "CanonicalPath_key a = CanonicalPath_key b \<longleftrightarrow> a = b"
  by (auto simp: CanonicalPath_key_def key_vec_inject intro: CanonicalPath.equality)

lemma ExecutableIdentity_key_inject [simp]:
  "ExecutableIdentity_key a = ExecutableIdentity_key b \<longleftrightarrow> a = b"
proof -
  have "key_vec (\<lambda>b. KN (unat b)) xs = key_vec (\<lambda>b. KN (unat b)) ys \<longleftrightarrow> xs = ys"
    for xs ys :: "8 word list"
    by (rule key_vec_inject) auto
  then show ?thesis
    by (auto simp: ExecutableIdentity_key_def intro: ExecutableIdentity.equality)
qed

lemma Scope_key_inject [simp]: "Scope_key a = Scope_key b \<longleftrightarrow> a = b"
  by (cases a; cases b) simp_all

section \<open>One scope, one spelling\<close>

lemma label_excludes:
  assumes "is_label l"
  shows "CHR ''.'' \<notin> set l" "CHR ''*'' \<notin> set l" "CHR '':'' \<notin> set l" "CHR ''?'' \<notin> set l"
  using assms by (auto simp: is_label_def list_all_iff char_class_defs)

lemma joined_labels_excludes:
  assumes "list_all is_label ls"
  shows "CHR ''*'' \<notin> set (join_on CHR ''.'' ls)" "CHR '':'' \<notin> set (join_on CHR ''.'' ls)"
    "CHR ''?'' \<notin> set (join_on CHR ''.'' ls)"
  using assms label_excludes by (auto simp: list_all_iff dest!: set_join_on)

lemma parse_labels_Ok:
  "parse_labels parts labels = Ok ls \<longleftrightarrow>
     ls = labels @ parts \<and> list_all is_label parts \<and>
     (parts = [] \<or> length (labels @ parts) \<le> MAX_LABELS)"
proof (induction parts arbitrary: labels)
  case (Cons part parts)
  have step: "parse_labels (part # parts) labels =
      (if is_label part \<and> length labels < MAX_LABELS then parse_labels parts (labels @ [part])
       else Err MalformedHost)"
    by (simp add: HostLabel_new_def Let_def)
  show ?case
    unfolding step using Cons.IH [of "labels @ [part]"] by auto
qed auto

lemma join_labels_no_star_prefix:
  assumes "list_all is_label ls"
  shows "strip_prefix ''*.'' (join_on CHR ''.'' ls) = None"
proof (rule ccontr)
  assume "strip_prefix ''*.'' (join_on CHR ''.'' ls) \<noteq> None"
  then obtain r where "join_on CHR ''.'' ls = ''*.'' @ r"
    by (auto simp: strip_prefix_Some)
  then have "CHR ''*'' \<in> set (join_on CHR ''.'' ls)" by simp
  with joined_labels_excludes [OF assms] show False by blast
qed

lemma join_on_Nil_iff: "list_all is_label ls \<Longrightarrow> ls \<noteq> [] \<Longrightarrow> join_on CHR ''.'' ls \<noteq> []"
  by (cases "(CHR ''.'', ls)" rule: join_on.cases) (auto simp: is_label_def)

lemma split_join_labels:
  "list_all is_label ls \<Longrightarrow> ls \<noteq> [] \<Longrightarrow> split_on CHR ''.'' (join_on CHR ''.'' ls) = ls"
  using label_excludes by (intro split_on_join_on) (auto simp: list_all_iff)

lemma HostPattern_parse_print: "wf_HostPattern h \<Longrightarrow> HostPattern_parse (HostPattern_to_string h) = Ok h"
proof (cases h)
  case (Exact ls)
  moreover assume "wf_HostPattern h"
  ultimately show ?thesis
    by (simp add: HostPattern_parse_def join_labels_no_star_prefix join_on_Nil_iff
        joined_labels_excludes split_join_labels, simp add: and_then_def parse_labels_Ok split: sum.splits)
       (metis (no_types, lifting) Inl_Inr_False append_Nil parse_labels_Ok sum.inject(2))
next
  case (Wildcard ls)
  moreover assume wf: "wf_HostPattern h"
  ultimately have ls: "list_all is_label ls" "ls \<noteq> []" "length ls \<le> MAX_LABELS" "2 \<le> length ls" by auto
  then have "parse_labels ls [] = Ok ls" by (simp add: parse_labels_Ok)
  moreover have "strip_prefix ''*.'' (''*.'' @ join_on CHR ''.'' ls) = Some (join_on CHR ''.'' ls)"
    by (rule strip_prefix_append)
  ultimately show ?thesis using ls Wildcard
    by (simp add: HostPattern_parse_def join_on_Nil_iff joined_labels_excludes split_join_labels)
qed

lemma HostPattern_parse_Ok:
  "HostPattern_parse t = Ok h \<longleftrightarrow> wf_HostPattern h \<and> t = HostPattern_to_string h"
proof
  assume "HostPattern_parse t = Ok h"
  then show "wf_HostPattern h \<and> t = HostPattern_to_string h"
    by (auto simp: HostPattern_parse_def and_then_Ok_iff parse_labels_Ok strip_prefix_Some
        split: option.splits if_splits)
qed (auto intro: HostPattern_parse_print)

lemma u16_strict_Some: "scope_parse_u16_strict t = Some p \<longleftrightarrow> t = show_nat (unat p)"
proof -
  have starts: "starts_with t ''0'' \<longleftrightarrow> t \<noteq> [] \<and> hd t = CHR ''0''"
    by (cases t) (auto simp: starts_with_def)
  have canon: "canonical_digits t \<longleftrightarrow> t \<noteq> [] \<and> list_all is_ascii_digit t \<and> \<not> (1 < length t \<and> starts_with t ''0'')"
    unfolding canonical_digits_def starts by auto
  have eq: "scope_parse_u16_strict t =
      (if canonical_digits t \<and> nat_of_digits t < 2 ^ 16 then Some (of_nat (nat_of_digits t)) else None)"
    unfolding scope_parse_u16_strict_def canon by auto
  show ?thesis
  proof
    assume "scope_parse_u16_strict t = Some p"
    then have c: "canonical_digits t" "nat_of_digits t < 2 ^ 16" "p = of_nat (nat_of_digits t)"
      unfolding eq by (auto split: if_splits)
    then have "unat p = nat_of_digits t" by (simp add: unat_of_nat)
    with c show "t = show_nat (unat p)" by (simp add: show_nat_of_digits)
  next
    assume t: "t = show_nat (unat p)"
    have "unat p < 2 ^ 16" using unsigned_less [of p] by simp
    with t show "scope_parse_u16_strict t = Some p" unfolding eq by simp
  qed
qed

lemma HostPattern_to_string_excludes:
  assumes "wf_HostPattern h"
  shows "CHR '':'' \<notin> set (HostPattern_to_string h)" "CHR ''?'' \<notin> set (HostPattern_to_string h)"
  using assms joined_labels_excludes by (cases h; auto)+

lemma show_nat_excludes: "\<not> is_ascii_digit c \<Longrightarrow> c \<notin> set (show_nat n)"
  using show_nat_digits by blast

lemma Endpoint_parse_Ok: "Endpoint_parse t = Ok e \<longleftrightarrow> wf_Endpoint e \<and> t = Endpoint_to_string e"
proof
  assume "Endpoint_parse t = Ok e"
  then show "wf_Endpoint e \<and> t = Endpoint_to_string e"
    by (auto simp: Endpoint_parse_def Endpoint_to_string_def wf_Endpoint_def and_then_Ok_iff
        HostPattern_parse_Ok u16_strict_Some split_once_Some split: option.splits if_splits)
next
  assume e: "wf_Endpoint e \<and> t = Endpoint_to_string e"
  then have h: "HostPattern_parse (HostPattern_to_string (ep_host e)) = Ok (ep_host e)"
    and colon: "CHR '':'' \<notin> set (HostPattern_to_string (ep_host e))"
    by (auto simp: wf_Endpoint_def HostPattern_parse_Ok HostPattern_to_string_excludes)
  show "Endpoint_parse t = Ok e"
  proof (cases "ep_port e")
    case PortAny
    with e h colon show ?thesis
      using split_once_None [of "CHR '':''" t]
      by (simp add: Endpoint_parse_def Endpoint_to_string_def)
  next
    case (Port p)
    have "CHR '':'' \<notin> set (show_nat (unat p))"
      by (rule show_nat_excludes) (simp add: is_ascii_digit_def)
    moreover have "scope_parse_u16_strict (show_nat (unat p)) = Some p"
      by (simp add: u16_strict_Some)
    moreover have "p \<noteq> 0" using e Port by (simp add: wf_Endpoint_def)
    ultimately show ?thesis using e h colon Port
      by (simp add: Endpoint_parse_def Endpoint_to_string_def)
  qed
qed

lemma Pattern_parse_Ok: "Pattern_parse t = Ok p \<longleftrightarrow> wf_Pattern p \<and> t = Pattern_to_string p"
proof
  assume "Pattern_parse t = Ok p"
  then show "wf_Pattern p \<and> t = Pattern_to_string p"
    by (auto simp: Pattern_parse_def strip_suffix_char_Some split: option.splits if_splits)
next
  assume p: "wf_Pattern p \<and> t = Pattern_to_string p"
  then show "Pattern_parse t = Ok p"
    by (cases p) (auto simp: Pattern_parse_def pattern_body_ok_def strip_suffix_char_None)
qed

lemma Label_new_Some [simp]: "Label_new t = Some l \<longleftrightarrow> label_ok t \<and> l = t"
  by (auto simp: Label_new_def)

lemma label_ok_excludes:
  assumes "label_ok l"
  shows "CHR ''/'' \<notin> set l" "CHR '':'' \<notin> set l" "CHR ''*'' \<notin> set l" "CHR ''?'' \<notin> set l" "l \<noteq> []"
  using assms by (auto simp: label_ok_def list_all_iff char_class_defs)

lemma ProviderModel_parse_Ok:
  "ProviderModel_parse t = Ok p \<longleftrightarrow> wf_ProviderModel p \<and> t = ProviderModel_to_string p"
proof
  assume "ProviderModel_parse t = Ok p"
  then show "wf_ProviderModel p \<and> t = ProviderModel_to_string p"
    by (auto simp: ProviderModel_parse_def ProviderModel_to_string_def wf_ProviderModel_def
        and_then_Ok_iff Pattern_parse_Ok split_once_Some split: if_splits)
next
  assume p: "wf_ProviderModel p \<and> t = ProviderModel_to_string p"
  then have m: "Pattern_parse (Pattern_to_string (pm_model p)) = Ok (pm_model p)"
    by (simp add: wf_ProviderModel_def Pattern_parse_Ok)
  from p show "ProviderModel_parse t = Ok p"
    using m label_ok_excludes [of "pm_provider p"]
    by (simp add: ProviderModel_parse_def ProviderModel_to_string_def wf_ProviderModel_def
        Label_new_def)
qed

lemma ChannelTarget_parse_Ok:
  "ChannelTarget_parse t = Ok c \<longleftrightarrow> wf_ChannelTarget c \<and> t = ChannelTarget_to_string c"
proof
  assume "ChannelTarget_parse t = Ok c"
  then show "wf_ChannelTarget c \<and> t = ChannelTarget_to_string c"
    by (auto simp: ChannelTarget_parse_def ChannelTarget_to_string_def wf_ChannelTarget_def
        and_then_Ok_iff split_once_Some)
next
  assume "wf_ChannelTarget c \<and> t = ChannelTarget_to_string c"
  then show "ChannelTarget_parse t = Ok c"
    using label_ok_excludes [of "ct_channel c"]
    by (simp add: ChannelTarget_parse_def ChannelTarget_to_string_def wf_ChannelTarget_def
        Label_new_def)
qed

end
