(* ===== verification/Cap_Constraint_Laws.thy ===== *)
theory Cap_Constraint_Laws
  imports Cap_Constraint Cap_Scope_Laws
begin

unbundle bit_operations_syntax

text \<open>
  The laws of constraints: method sets as sets of bits, the order of constraint sets as a
  \<open>containment\<close> and its exact meaning, and the printers and parsers of constraint values.
\<close>

section \<open>Method sets as sets\<close>

fun Method_index :: "Method \<Rightarrow> nat" where
  "Method_index Get = 0" | "Method_index Head = 1" | "Method_index Post = 2" | "Method_index Put = 3"
| "Method_index Patch = 4" | "Method_index MethodDelete = 5" | "Method_index Options = 6"

lemma Method_bit_push: "Method_bit m = push_bit (Method_index m) 1"
  by (cases m) (simp_all add: push_bit_eq_mult)

lemma Method_index_inject [simp]: "Method_index m = Method_index n \<longleftrightarrow> m = n"
  by (cases m; cases n) simp_all

lemma Method_index_less: "Method_index m < 7"
  by (cases m) simp_all

lemma Method_index_surj: "i < 7 \<Longrightarrow> \<exists>m. i = Method_index m"
proof -
  have "Method_index ` UNIV = {..<7}"
  proof
    show "{..<7} \<subseteq> Method_index ` UNIV"
    proof
      fix i :: nat assume "i \<in> {..<7}"
      then consider "i = 0" | "i = 1" | "i = 2" | "i = 3" | "i = 4" | "i = 5" | "i = 6" by fastforce
      then show "i \<in> Method_index ` UNIV" by cases (metis Method_index.simps rangeI)+
    qed
  qed (auto simp: Method_index_less)
  then show "i < 7 \<Longrightarrow> \<exists>m. i = Method_index m" by auto
qed

lemma set_Method_ALL [simp]: "set Method_ALL = UNIV"
  using Method.exhaust by (auto simp: Method_ALL_def)

lemma distinct_Method_ALL [simp]: "distinct Method_ALL"
  by (simp add: Method_ALL_def)

lemma MethodSet_has_bit: "MethodSet_has s m \<longleftrightarrow> bit s (Method_index m)"
  unfolding MethodSet_has_def Method_bit_push by (simp add: bit_iff_and_push_bit_not_eq_0)

lemma bits_below_8: "bit (s :: 8 word) n \<Longrightarrow> n < 8"
  using bit_imp_le_length [of s n] by simp

lemma MethodSet_narrower_bits: "MethodSet_narrower_or_equal s p \<longleftrightarrow> (\<forall>n. bit s n \<longrightarrow> bit p n)"
proof -
  have "s AND NOT p = 0 \<longleftrightarrow> (\<forall>n. \<not> bit (s AND NOT p) n)"
    by (metis bit_0_eq bit_eqI bot_apply bot_bool_def)
  also have "\<dots> \<longleftrightarrow> (\<forall>n. bit s n \<longrightarrow> bit p n)"
    by (auto simp: bit_and_iff bit_not_iff dest: bits_below_8)
  finally show ?thesis by (simp add: MethodSet_narrower_or_equal_def)
qed

lemma wf_MethodSet_bits: "wf_MethodSet s \<longleftrightarrow> s \<noteq> 0 \<and> \<not> bit s 7"
proof -
  have "(128 :: 8 word) = push_bit 7 1" by (simp add: push_bit_eq_mult)
  then show ?thesis by (simp add: wf_MethodSet_def bit_iff_and_push_bit_not_eq_0)
qed

lemma wf_MethodSet_eqI:
  assumes "wf_MethodSet s" "wf_MethodSet t" "\<And>m. MethodSet_has s m \<longleftrightarrow> MethodSet_has t m"
  shows "s = t"
proof (rule bit_eqI)
  fix n
  show "bit s n \<longleftrightarrow> bit t n"
  proof (cases "n < 7")
    case True
    then show ?thesis using Method_index_surj assms(3) by (auto simp: MethodSet_has_bit)
  next
    case False
    then consider "n = 7" | "8 \<le> n" by linarith
    then show ?thesis using assms(1,2)
      by cases (auto simp: wf_MethodSet_bits dest: bits_below_8)
  qed
qed

lemma MethodSet_narrower_if_has:
  assumes "wf_MethodSet s" "\<And>m. MethodSet_has s m \<Longrightarrow> MethodSet_has t m"
  shows "MethodSet_narrower_or_equal s t"
  unfolding MethodSet_narrower_bits
proof (intro allI impI)
  fix n assume n: "bit s n"
  with assms(1) have "n < 7"
    using bits_below_8 [OF n] by (cases "n = 7") (auto simp: wf_MethodSet_bits)
  then obtain m where "n = Method_index m" using Method_index_surj by blast
  with n assms(2) [of m] show "bit t n" by (simp add: MethodSet_has_bit)
qed

lemma wf_MethodSet_nonempty: "wf_MethodSet s \<Longrightarrow> \<exists>m. MethodSet_has s m"
proof (rule ccontr)
  assume wf: "wf_MethodSet s" and "\<nexists>m. MethodSet_has s m"
  have "bit s n \<longleftrightarrow> bit 0 n" for n
  proof (cases "n < 7")
    case True
    with \<open>\<nexists>m. MethodSet_has s m\<close> show ?thesis
      using Method_index_surj by (auto simp: MethodSet_has_bit)
  next
    case False
    then consider "n = 7" | "8 \<le> n" by linarith
    then show ?thesis using wf by cases (auto simp: wf_MethodSet_bits dest: bits_below_8)
  qed
  then have "s = 0" by (blast intro: bit_eqI)
  with wf show False by (simp add: wf_MethodSet_def)
qed

section \<open>The order of constraint sets\<close>

lemma narrower_refl: "(\<And>x. c = Some x \<Longrightarrow> ok x x) \<Longrightarrow> narrower c c ok"
  by (cases c) auto

lemma narrower_trans:
  "narrower a b ok \<Longrightarrow> narrower b c ok \<Longrightarrow> (\<And>x y z. ok x y \<Longrightarrow> ok y z \<Longrightarrow> ok x z) \<Longrightarrow> narrower a c ok"
  by (cases a; cases b; cases c) auto

lemma narrower_transs:
  fixes a b c :: "'a :: linorder option" and a' b' c' :: "'b option"
  shows "narrower a b (\<le>) \<Longrightarrow> narrower b c (\<le>) \<Longrightarrow> narrower a c (\<le>)"
    and "narrower a' b' (=) \<Longrightarrow> narrower b' c' (=) \<Longrightarrow> narrower a' c' (=)"
    and "narrower m n MethodSet_narrower_or_equal \<Longrightarrow> narrower n r MethodSet_narrower_or_equal \<Longrightarrow>
      narrower m r MethodSet_narrower_or_equal"
    and "narrower s t ArgvAllowlist_narrower_or_equal \<Longrightarrow> narrower t u ArgvAllowlist_narrower_or_equal \<Longrightarrow>
      narrower s u ArgvAllowlist_narrower_or_equal"
    and "narrower x y PrivacyClass_narrower_or_equal \<Longrightarrow> narrower y z PrivacyClass_narrower_or_equal \<Longrightarrow>
      narrower x z PrivacyClass_narrower_or_equal"
  by (erule (1) narrower_trans; auto simp: MethodSet_narrower_bits
      ArgvAllowlist_narrower_or_equal_def list_all_iff PrivacyClass_narrower_or_equal_def)+

lemma narrower_antisym:
  "narrower a b ok \<Longrightarrow> narrower b a ok \<Longrightarrow>
   (\<And>x y. a = Some x \<Longrightarrow> b = Some y \<Longrightarrow> ok x y \<Longrightarrow> ok y x \<Longrightarrow> x = y) \<Longrightarrow> a = b"
  by (cases a; cases b) auto

lemma MethodSet_narrower_antisym:
  "MethodSet_narrower_or_equal s t \<Longrightarrow> MethodSet_narrower_or_equal t s \<Longrightarrow> s = t"
  by (auto simp: MethodSet_narrower_bits intro: bit_eqI)

lemma wf_ArgvAllowlist_eqI:
  assumes "wf_ArgvAllowlist a" "wf_ArgvAllowlist b" "set a = set b"
  shows "a = b"
proof -
  have "map key_str a = map key_str b"
    using assms by (intro strict_sorted_equal) (auto simp: wf_ArgvAllowlist_def)
  then show ?thesis by (simp add: inj_map_eq_map inj_def)
qed

interpretation constraints: containment
  "\<lambda>parent child. ConstraintSet_narrower_or_equal child parent" wf_ConstraintSet
proof
  fix a b c :: ConstraintSet
  show "ConstraintSet_narrower_or_equal a a"
    unfolding ConstraintSet_narrower_or_equal_def
    by (intro conjI narrower_refl)
      (auto simp: MethodSet_narrower_bits ArgvAllowlist_narrower_or_equal_def list_all_iff
        PrivacyClass_narrower_or_equal_def)
  show "ConstraintSet_narrower_or_equal c a"
    if ab: "ConstraintSet_narrower_or_equal b a" and bc: "ConstraintSet_narrower_or_equal c b"
    using bc ab unfolding ConstraintSet_narrower_or_equal_def by (blast intro: narrower_transs)
  show "a = b"
    if wf: "wf_ConstraintSet a" "wf_ConstraintSet b"
      and ab: "ConstraintSet_narrower_or_equal b a" and ba: "ConstraintSet_narrower_or_equal a b"
  proof (rule ConstraintSet.equality)
    note * = ab [unfolded ConstraintSet_narrower_or_equal_def]
      ba [unfolded ConstraintSet_narrower_or_equal_def]
    show "cs_max_bytes a = cs_max_bytes b" using * by (auto intro: narrower_antisym)
    show "cs_no_symlink_targets a = cs_no_symlink_targets b" using * by (auto intro: narrower_antisym)
    show "cs_methods a = cs_methods b"
      using * by (auto intro: narrower_antisym MethodSet_narrower_antisym)
    show "cs_max_requests a = cs_max_requests b" using * by (auto intro: narrower_antisym)
    show "cs_argv_allowlist a = cs_argv_allowlist b"
    proof (rule narrower_antisym)
      show "x = y"
        if "cs_argv_allowlist a = Some x" "cs_argv_allowlist b = Some y"
          "ArgvAllowlist_narrower_or_equal x y" "ArgvAllowlist_narrower_or_equal y x" for x y
        using that wf by (intro wf_ArgvAllowlist_eqI)
          (auto simp: ArgvAllowlist_narrower_or_equal_def list_all_iff wf_ConstraintSet_def)
    qed (use * in auto)
    show "cs_privacy_class a = cs_privacy_class b"
      using * by (auto intro: narrower_antisym simp: PrivacyClass_narrower_or_equal_def)
    show "cs_depth a = cs_depth b" using * by (auto intro: narrower_antisym)
    show "cs_fanout a = cs_fanout b" using * by (auto intro: narrower_antisym)
  qed simp
qed

lemma narrower_permits:
  "narrower c p ok \<Longrightarrow> pred_option (Q u) c \<Longrightarrow> (\<And>x y. ok x y \<Longrightarrow> Q u x \<Longrightarrow> Q u y) \<Longrightarrow> pred_option (Q u) p"
  by (cases c; cases p) auto

lemma narrower_permits_less:
  assumes "ConstraintSet_narrower_or_equal c p" "ConstraintSet_permits c u"
  shows "ConstraintSet_permits p u"
proof -
  note n = assms(1) [unfolded ConstraintSet_narrower_or_equal_def]
  note q = assms(2) [unfolded ConstraintSet_permits_def]
  show ?thesis
    unfolding ConstraintSet_permits_def
  proof (intro conjI)
    show "pred_option (\<lambda>w. use_bytes u \<le> unat w) (cs_max_bytes p)"
      using n q by (elim conjE narrower_permits) (auto simp: word_le_nat_alt)
    show "pred_option (\<lambda>_. \<not> use_symlink_target u) (cs_no_symlink_targets p)"
      using n q by (cases "cs_no_symlink_targets p"; cases "cs_no_symlink_targets c") auto
    show "pred_option (\<lambda>s. MethodSet_has s (use_method u)) (cs_methods p)"
      using n q by (elim conjE narrower_permits) (auto simp: MethodSet_narrower_bits MethodSet_has_bit)
    show "pred_option (\<lambda>w. use_requests u \<le> unat w) (cs_max_requests p)"
      using n q by (elim conjE narrower_permits) (auto simp: word_le_nat_alt)
    show "pred_option (\<lambda>ts. set (use_argv u) \<subseteq> set ts) (cs_argv_allowlist p)"
      using n q by (elim conjE narrower_permits)
        (auto simp: ArgvAllowlist_narrower_or_equal_def list_all_iff)
    show "pred_option (\<lambda>x. use_privacy u \<le> x) (cs_privacy_class p)"
      using n q by (elim conjE narrower_permits) (auto simp: PrivacyClass_narrower_or_equal_def)
    show "pred_option (\<lambda>w. use_depth u \<le> unat w) (cs_depth p)"
      using n q by (elim conjE narrower_permits) (auto simp: word_le_nat_alt)
    show "pred_option (\<lambda>w. use_fanout u \<le> unat w) (cs_fanout p)"
      using n q by (elim conjE narrower_permits) (auto simp: word_le_nat_alt)
  qed
qed

text \<open>
  The converse: a constraint set that is not narrower permits a use its parent refuses. Two
  constraints refuse nothing (the widest privacy class, and a method set with every method), and a
  parent that carries one of them is refused a child without it although nothing more is permitted.
\<close>

definition base_usage :: "Method \<Rightarrow> Usage" where
  "base_usage m = \<lparr>use_bytes = 0, use_symlink_target = False, use_method = m, use_requests = 0,
     use_argv = [], use_privacy = LocalOnly, use_depth = 0, use_fanout = 0\<rparr>"

lemma LocalOnly_least [simp]: "LocalOnly \<le> x"
  by (simp add: less_eq_PrivacyClass_def)

lemma base_usage_permitted:
  "pred_option (\<lambda>s. MethodSet_has s m) (cs_methods c) \<Longrightarrow> ConstraintSet_permits c (base_usage m)"
  by (simp add: ConstraintSet_permits_def base_usage_def option.pred_True split: option.splits)

lemma fresh_string: "\<exists>x :: string. x \<notin> set ts"
  using ex_new_if_finite [of "set ts"] infinite_UNIV_listI by blast

lemma narrowerI:
  "(\<And>y. p = Some y \<Longrightarrow> c \<noteq> None) \<Longrightarrow> (\<And>x y. p = Some y \<Longrightarrow> c = Some x \<Longrightarrow> ok x y) \<Longrightarrow> narrower c p ok"
  by (cases c; cases p) auto

lemma limit_exact:
  fixes c p :: "'a :: len word option"
  assumes "\<And>n. pred_option (\<lambda>w. n \<le> unat w) c \<Longrightarrow> pred_option (\<lambda>w. n \<le> unat w) p"
  shows "narrower c p (\<le>)"
proof (rule narrowerI)
  show "p = Some y \<Longrightarrow> c \<noteq> None" for y
    using assms [of "Suc (unat y)"] by (cases c) auto
  show "p = Some y \<Longrightarrow> c = Some x \<Longrightarrow> x \<le> y" for x y
    using assms [of "unat x"] by (simp add: word_le_nat_alt)
qed

lemma permits_less_narrower:
  assumes wf: "wf_ConstraintSet c"
    and priv: "cs_privacy_class p \<noteq> Some PrivacyAny"
    and meth: "\<And>s. cs_methods p = Some s \<Longrightarrow> \<exists>m. \<not> MethodSet_has s m"
    and incl: "\<And>u. ConstraintSet_permits c u \<Longrightarrow> ConstraintSet_permits p u"
  shows "ConstraintSet_narrower_or_equal c p"
proof -
  obtain m where m: "pred_option (\<lambda>s. MethodSet_has s m) (cs_methods c)"
    using wf wf_MethodSet_nonempty by (cases "cs_methods c") (auto simp: wf_ConstraintSet_def)
  note base = base_usage_permitted [OF m]
  note permits = ConstraintSet_permits_def base_usage_def
  show ?thesis
    unfolding ConstraintSet_narrower_or_equal_def
  proof (intro conjI)
    show "narrower (cs_max_bytes c) (cs_max_bytes p) (\<le>)"
      using base incl [of "base_usage m\<lparr>use_bytes := n\<rparr>" for n]
      by (intro limit_exact) (auto simp: permits)
    show "narrower (cs_max_requests c) (cs_max_requests p) (\<le>)"
      using base incl [of "base_usage m\<lparr>use_requests := n\<rparr>" for n]
      by (intro limit_exact) (auto simp: permits)
    show "narrower (cs_depth c) (cs_depth p) (\<le>)"
      using base incl [of "base_usage m\<lparr>use_depth := n\<rparr>" for n]
      by (intro limit_exact) (auto simp: permits)
    show "narrower (cs_fanout c) (cs_fanout p) (\<le>)"
      using base incl [of "base_usage m\<lparr>use_fanout := n\<rparr>" for n]
      by (intro limit_exact) (auto simp: permits)
    show "narrower (cs_no_symlink_targets c) (cs_no_symlink_targets p) (=)"
      using base incl [of "base_usage m\<lparr>use_symlink_target := True\<rparr>"]
      by (intro narrowerI; cases "cs_no_symlink_targets c") (auto simp: permits)
    show "narrower (cs_methods c) (cs_methods p) MethodSet_narrower_or_equal"
    proof (rule narrowerI)
      fix y assume y: "cs_methods p = Some y"
      have has: "MethodSet_has y m'" if "pred_option (\<lambda>s. MethodSet_has s m') (cs_methods c)" for m'
        using incl [OF base_usage_permitted [OF that]] y by (simp add: permits)
      then show "cs_methods c \<noteq> None" using meth [OF y] by (cases "cs_methods c") auto
      show "MethodSet_narrower_or_equal x y" if x: "cs_methods c = Some x" for x
        using has x wf by (intro MethodSet_narrower_if_has) (auto simp: wf_ConstraintSet_def)
    qed
    show "narrower (cs_argv_allowlist c) (cs_argv_allowlist p) ArgvAllowlist_narrower_or_equal"
    proof (rule narrowerI)
      fix y assume y: "cs_argv_allowlist p = Some y"
      have allowed: "t \<in> set y" if "pred_option (\<lambda>ts. t \<in> set ts) (cs_argv_allowlist c)" for t
        using that base incl [of "base_usage m\<lparr>use_argv := [t]\<rparr>"] y by (simp add: permits)
      then show "cs_argv_allowlist c \<noteq> None" using fresh_string [of y] by (cases "cs_argv_allowlist c") auto
      show "ArgvAllowlist_narrower_or_equal x y" if "cs_argv_allowlist c = Some x" for x
        using that allowed by (simp add: ArgvAllowlist_narrower_or_equal_def list_all_iff)
    qed
    show "narrower (cs_privacy_class c) (cs_privacy_class p) PrivacyClass_narrower_or_equal"
    proof (rule narrowerI)
      fix y assume y: "cs_privacy_class p = Some y"
      have allowed: "v \<le> y" if "pred_option (\<lambda>q. v \<le> q) (cs_privacy_class c)" for v
        using that base incl [of "base_usage m\<lparr>use_privacy := v\<rparr>"] y by (simp add: permits)
      from allowed [of PrivacyAny] priv y show "cs_privacy_class c \<noteq> None"
        by (cases "cs_privacy_class c"; cases y) (auto simp: less_eq_PrivacyClass_def)
      show "PrivacyClass_narrower_or_equal x y" if "cs_privacy_class c = Some x" for x
        using that allowed by (simp add: PrivacyClass_narrower_or_equal_def)
    qed
  qed
qed

lemma narrower_iff_permits_less:
  assumes "wf_ConstraintSet c" "cs_privacy_class p \<noteq> Some PrivacyAny"
    and "\<And>s. cs_methods p = Some s \<Longrightarrow> \<exists>m. \<not> MethodSet_has s m"
  shows "ConstraintSet_narrower_or_equal c p \<longleftrightarrow>
    (\<forall>u. ConstraintSet_permits c u \<longrightarrow> ConstraintSet_permits p u)"
  using permits_less_narrower [OF assms] narrower_permits_less by blast

end
