(* ===== verification/Cap_Authority.thy ===== *)
theory Cap_Authority
  imports Cap_Constraint_Laws
begin

text \<open>
  Capabilities and their order (\<^verbatim>\<open>capability/mod.rs\<close>), attenuation and delegation
  (\<^verbatim>\<open>capability/attenuate.rs\<close>), declarations and their promotion
  (\<^verbatim>\<open>capability/spec.rs\<close>). What a capability authorises is stated apart from the code, as a
  set of accesses (a verb, a concrete resource and a use of it), and containment is shown to shrink
  it; attenuation, delegation and every chain of the two inherit that.
\<close>

section \<open>Capabilities\<close>

record Capability =
  cap_verb :: Verb
  cap_scope :: Scope
  cap_constraints :: ConstraintSet

definition Capability_new :: "Verb \<Rightarrow> Scope \<Rightarrow> ConstraintSet \<Rightarrow> (Capability, CapabilityError) result" where
  "Capability_new v s c =
     (if \<not> Scope_fits s (Verb_scope_family v) then Err ScopeFamilyMismatch
      else case find (\<lambda>n. \<not> ConstraintName_applies_to n v) (ConstraintSet_present c) of
             Some n \<Rightarrow> Err (ConstraintNotApplicable n v)
           | None \<Rightarrow> Ok \<lparr>cap_verb = v, cap_scope = s, cap_constraints = c\<rparr>)"

definition Capability_contains :: "Capability \<Rightarrow> Capability \<Rightarrow> bool" where
  "Capability_contains self other \<longleftrightarrow>
     cap_verb self = cap_verb other \<and> Scope_contains (cap_scope self) (cap_scope other) \<and>
     ConstraintSet_narrower_or_equal (cap_constraints other) (cap_constraints self)"

definition Capability_is_contained_by :: "Capability \<Rightarrow> Capability \<Rightarrow> bool" where
  "Capability_is_contained_by self other \<longleftrightarrow> Capability_contains other self"

definition Capability_to_string :: "Capability \<Rightarrow> string" where
  "Capability_to_string c =
     Verb_to_string (cap_verb c) @ CHR '':'' # Scope_to_string (cap_scope c) @
     (if ConstraintSet_is_empty (cap_constraints c) then []
      else CHR ''?'' # ConstraintSet_to_string (cap_constraints c))"

definition Capability_key :: "Capability \<Rightarrow> okey" where
  "Capability_key c = KL [Verb_key (cap_verb c), Scope_key (cap_scope c), ConstraintSet_key (cap_constraints c)]"

section \<open>Attenuation and delegation\<close>

record Narrowing =
  nar_scope :: "Scope option"
  nar_constraints :: ConstraintSet

definition Narrowing_none :: Narrowing where
  "Narrowing_none = \<lparr>nar_scope = None, nar_constraints = ConstraintSet_unconstrained\<rparr>"

definition Narrowing_to_scope :: "Scope \<Rightarrow> Narrowing" where
  "Narrowing_to_scope s = \<lparr>nar_scope = Some s, nar_constraints = ConstraintSet_unconstrained\<rparr>"

definition Narrowing_with_constraints :: "ConstraintSet \<Rightarrow> Narrowing" where
  "Narrowing_with_constraints c = \<lparr>nar_scope = None, nar_constraints = c\<rparr>"

definition attenuate :: "Capability \<Rightarrow> Narrowing \<Rightarrow> (Capability, AttenuationError) result" where
  "attenuate parent nrw =
     (let s = (case nar_scope nrw of Some s \<Rightarrow> s | None \<Rightarrow> cap_scope parent);
          c = ConstraintSet_overlay (cap_constraints parent) (nar_constraints nrw)
      in and_then (map_err InvalidNarrowing (Capability_new (cap_verb parent) s c)) (\<lambda>candidate.
           if \<not> Capability_contains parent candidate then Err WouldWiden else Ok candidate))"

definition delegate :: "Capability \<Rightarrow> Capability \<Rightarrow> (Capability, AttenuationError) result" where
  "delegate parent child =
     (if cap_verb parent \<noteq> cap_verb child then Err VerbChanged
      else if \<not> Capability_contains parent child then Err WouldWiden
      else Ok child)"

section \<open>Declarations\<close>

record CapabilitySpec =
  spec_verb :: Verb
  spec_scope :: ScopeSpec
  spec_constraints :: ConstraintSet

definition CapabilitySpec_needs_resolution :: "CapabilitySpec \<Rightarrow> bool" where
  "CapabilitySpec_needs_resolution s =
     (case spec_scope s of SpecDeclaredPath _ \<Rightarrow> True | SpecDeclaredExecutable _ \<Rightarrow> True | _ \<Rightarrow> False)"

definition CapabilitySpec_resolve :: "CapabilitySpec \<Rightarrow> (Capability, UnresolvedScope) result" where
  "CapabilitySpec_resolve self =
     and_then (case spec_scope self of
          SpecUniversal \<Rightarrow> Ok Universal
        | SpecSyntactic s \<Rightarrow> Ok (Syntactic s)
        | SpecDeclaredPath _ \<Rightarrow> Err UnresolvedCanonicalPath
        | SpecDeclaredExecutable _ \<Rightarrow> Err UnresolvedExecutableIdentity)
       (\<lambda>s. map_err (\<lambda>_. UnresolvedCanonicalPath) (Capability_new (spec_verb self) s (spec_constraints self)))"

definition CapabilitySpec_resolve_path ::
  "CapabilitySpec \<Rightarrow> CanonicalPath \<Rightarrow> (Capability, UnresolvedScope) result" where
  "CapabilitySpec_resolve_path self canonical =
     (case spec_scope self of
        SpecDeclaredPath _ \<Rightarrow>
          map_err (\<lambda>_. UnresolvedCanonicalPath)
            (Capability_new (spec_verb self) (ScopePath canonical) (spec_constraints self))
      | _ \<Rightarrow> Err UnresolvedCanonicalPath)"

definition CapabilitySpec_resolve_executable ::
  "CapabilitySpec \<Rightarrow> ExecutableIdentity \<Rightarrow> (Capability, UnresolvedScope) result" where
  "CapabilitySpec_resolve_executable self identity =
     (case spec_scope self of
        SpecDeclaredExecutable _ \<Rightarrow>
          map_err (\<lambda>_. UnresolvedExecutableIdentity)
            (Capability_new (spec_verb self) (ScopeExecutable identity) (spec_constraints self))
      | _ \<Rightarrow> Err UnresolvedExecutableIdentity)"

definition CapabilitySpec_to_string :: "CapabilitySpec \<Rightarrow> string" where
  "CapabilitySpec_to_string s =
     Verb_to_string (spec_verb s) @ CHR '':'' # ScopeSpec_to_string (spec_scope s) @
     (if ConstraintSet_is_empty (spec_constraints s) then []
      else CHR ''?'' # ConstraintSet_to_string (spec_constraints s))"

section \<open>What a capability authorises\<close>

datatype Resource =
  EndpointRes "HostLabel list \<times> 16 word" | CredentialRes string | ModelRes string string
| DomainRes "HostLabel list" | ServerRes string | AgentRes string | MemoryRes string
| IntentRes string | ArtifactRes string | ChannelRes ChannelTarget | PathRes "PathComponent list"
| ExecutableRes ExecutableIdentity

fun SyntacticScope_denotes :: "SyntacticScope \<Rightarrow> Resource set" where
  "SyntacticScope_denotes (SEndpoint e) = EndpointRes ` Endpoint_denotes e"
| "SyntacticScope_denotes (SCredentialHandle l) = {CredentialRes l}"
| "SyntacticScope_denotes (SProviderModel p) = ModelRes (pm_provider p) ` Pattern_denotes (pm_model p)"
| "SyntacticScope_denotes (SDomain h) = DomainRes ` HostPattern_denotes h"
| "SyntacticScope_denotes (SServerId l) = {ServerRes l}"
| "SyntacticScope_denotes (SAgentProfile p) = AgentRes ` Pattern_denotes p"
| "SyntacticScope_denotes (SMemoryScope l) = {MemoryRes l}"
| "SyntacticScope_denotes (SIntent p) = IntentRes ` Pattern_denotes p"
| "SyntacticScope_denotes (SArtifactScope l) = {ArtifactRes l}"
| "SyntacticScope_denotes (SChannelTarget c) = {ChannelRes c}"

fun Scope_denotes :: "Scope \<Rightarrow> Resource set" where
  "Scope_denotes Universal = UNIV"
| "Scope_denotes (Syntactic s) = SyntacticScope_denotes s"
| "Scope_denotes (ScopePath p) = PathRes ` {q. prefix (components p) q}"
| "Scope_denotes (ScopeExecutable e) = {ExecutableRes e}"

definition Capability_permits :: "Capability \<Rightarrow> Verb \<Rightarrow> Resource \<Rightarrow> Usage \<Rightarrow> bool" where
  "Capability_permits c v r u \<longleftrightarrow>
     v = cap_verb c \<and> r \<in> Scope_denotes (cap_scope c) \<and> ConstraintSet_permits (cap_constraints c) u"

definition wf_Capability :: "Capability \<Rightarrow> bool" where
  "wf_Capability c \<longleftrightarrow> Scope_fits (cap_scope c) (Verb_scope_family (cap_verb c)) \<and>
     (\<forall>n. ConstraintSet_has (cap_constraints c) n \<longrightarrow> ConstraintName_applies_to n (cap_verb c)) \<and>
     wf_ConstraintSet (cap_constraints c)"

text \<open>Every way to derive a capability from one that is held: attenuation or delegation, repeated.\<close>

inductive derives :: "Capability \<Rightarrow> Capability \<Rightarrow> bool" for root where
  derives_self: "derives root root"
| derives_attenuate: "derives root c \<Longrightarrow> attenuate c n = Ok d \<Longrightarrow> derives root d"
| derives_delegate: "derives root c \<Longrightarrow> delegate c e = Ok d \<Longrightarrow> derives root d"

section \<open>Laws\<close>

lemma Pattern_denotes_nonempty [simp]: "Pattern_denotes p \<noteq> {}"
  by (cases p) auto

lemma ModelRes_image_subset:
  "ModelRes a ` A \<subseteq> ModelRes b ` B \<longleftrightarrow> A = {} \<or> a = b \<and> A \<subseteq> B"
  by (auto simp: image_subset_iff)

lemma image_inj_subset: "inj f \<Longrightarrow> f ` A \<subseteq> f ` B \<longleftrightarrow> A \<subseteq> B"
  by (rule inj_image_subset_iff)

lemma resource_injs [simp]:
  "inj EndpointRes" "inj DomainRes" "inj AgentRes" "inj IntentRes" "inj PathRes"
  by (simp_all add: inj_def)

fun Resource_family :: "Resource \<Rightarrow> ScopeFamily" where
  "Resource_family (EndpointRes _) = ScopeFamily.Endpoint"
| "Resource_family (CredentialRes _) = CredentialHandle"
| "Resource_family (ModelRes _ _) = ScopeFamily.ProviderModel"
| "Resource_family (DomainRes _) = Domain"
| "Resource_family (ServerRes _) = ServerId"
| "Resource_family (AgentRes _) = AgentProfile"
| "Resource_family (MemoryRes _) = MemoryScope"
| "Resource_family (IntentRes _) = Intent"
| "Resource_family (ArtifactRes _) = ArtifactScope"
| "Resource_family (ChannelRes _) = ScopeFamily.ChannelTarget"
| "Resource_family (PathRes _) = Path"
| "Resource_family (ExecutableRes _) = Executable"

lemma SyntacticScope_denotes_family:
  "r \<in> SyntacticScope_denotes s \<Longrightarrow> Resource_family r = SyntacticScope_family s"
  by (cases s) auto

lemma SyntacticScope_denotes_nonempty [simp]: "SyntacticScope_denotes s \<noteq> {}"
  by (cases s) (auto simp: Endpoint_denotes_def)

lemma SyntacticScope_contains_family:
  "SyntacticScope_contains a b \<Longrightarrow> SyntacticScope_family a = SyntacticScope_family b"
  by (cases a; cases b) auto

lemma SyntacticScope_contains_denotes:
  "SyntacticScope_contains a b \<longleftrightarrow> SyntacticScope_denotes b \<subseteq> SyntacticScope_denotes a"
proof (cases "SyntacticScope_family a = SyntacticScope_family b")
  case True
  then show ?thesis
    by (cases a; cases b)
      (auto simp: image_inj_subset ModelRes_image_subset ProviderModel_contains_def
        Endpoint_contains_denotes HostPattern_contains_denotes Pattern_contains_denotes)
next
  case False
  obtain r where "r \<in> SyntacticScope_denotes b"
    using SyntacticScope_denotes_nonempty by blast
  with False have "\<not> SyntacticScope_contains a b" "\<not> SyntacticScope_denotes b \<subseteq> SyntacticScope_denotes a"
    using SyntacticScope_contains_family [of a b] SyntacticScope_denotes_family [of r a]
      SyntacticScope_denotes_family [of r b] by auto
  then show ?thesis by blast
qed

lemma SyntacticScope_denotes_not_resolved:
  "PathRes p \<notin> SyntacticScope_denotes s" "ExecutableRes e \<notin> SyntacticScope_denotes s"
  by (cases s; auto)+

lemma Scope_denotes_family: "s \<noteq> Universal \<Longrightarrow> r \<in> Scope_denotes s \<Longrightarrow> Scope_family s = Some (Resource_family r)"
  by (cases s) (auto dest: SyntacticScope_denotes_family)

lemma Scope_denotes_nonempty [simp]: "Scope_denotes s \<noteq> {}"
  by (cases s) auto

lemma Scope_denotes_not_UNIV:
  assumes "s \<noteq> Universal"
  shows "\<not> UNIV \<subseteq> Scope_denotes s"
proof
  assume "UNIV \<subseteq> Scope_denotes s"
  then have "PathRes [] \<in> Scope_denotes s" "CredentialRes [] \<in> Scope_denotes s" by auto
  then have "Scope_family s = Some Path" "Scope_family s = Some CredentialHandle"
    using Scope_denotes_family [OF assms, of "PathRes []"]
      Scope_denotes_family [OF assms, of "CredentialRes []"] by simp_all
  then show False by simp
qed

lemma Scope_contains_family:
  "Scope_contains a b \<Longrightarrow> a \<noteq> Universal \<Longrightarrow> b \<noteq> Universal \<and> Scope_family a = Scope_family b"
  by (cases a; cases b) (auto dest: SyntacticScope_contains_family)

lemma Scope_contains_denotes: "Scope_contains a b \<longleftrightarrow> Scope_denotes b \<subseteq> Scope_denotes a"
proof (cases "a = Universal \<or> b = Universal \<or> Scope_family a \<noteq> Scope_family b")
  case True
  obtain r where r: "r \<in> Scope_denotes b"
    using Scope_denotes_nonempty by blast
  show ?thesis
  proof (cases "a = Universal")
    case False
    with True have "\<not> Scope_contains a b"
      using Scope_contains_family [of a b] by blast
    moreover have "\<not> Scope_denotes b \<subseteq> Scope_denotes a"
    proof
      assume *: "Scope_denotes b \<subseteq> Scope_denotes a"
      with False have b: "b \<noteq> Universal" using Scope_denotes_not_UNIV [of a] by auto
      from * r have "r \<in> Scope_denotes a" by blast
      with False True b r show False
        using Scope_denotes_family [of a r] Scope_denotes_family [of b r] by simp
    qed
    ultimately show ?thesis by blast
  qed simp
next
  case False
  then show ?thesis
  proof (cases a; cases b)
    fix p q assume "a = ScopePath p" "b = ScopePath q"
    then show ?thesis
      by (auto simp: CanonicalPath_contains_prefix image_inj_subset intro: prefix_order.trans)
  next
    fix x y assume "a = Syntactic x" "b = Syntactic y"
    then show ?thesis by (simp add: SyntacticScope_contains_denotes)
  next
    fix x e assume ab: "a = Syntactic x" "b = ScopePath e"
    with False show ?thesis by (cases x) auto
  next
    fix x e assume ab: "a = ScopePath e" "b = Syntactic x"
    with False show ?thesis by (cases x) auto
  next
    fix x e assume ab: "a = Syntactic x" "b = ScopeExecutable e"
    with False show ?thesis by (cases x) auto
  next
    fix x e assume ab: "a = ScopeExecutable e" "b = Syntactic x"
    with False show ?thesis by (cases x) auto
  qed auto
qed

lemma ConstraintSet_key_inject [simp]: "ConstraintSet_key a = ConstraintSet_key b \<longleftrightarrow> a = b"
proof
  have idx: "PrivacyClass_index p = PrivacyClass_index q \<longleftrightarrow> p = q" for p q
    by (cases p; cases q) simp_all
  have vec: "key_vec key_str xs = key_vec key_str ys \<longleftrightarrow> xs = ys" for xs ys
    by (rule key_vec_inject) simp
  have unit: "KN 0 = KN 0 \<longleftrightarrow> x = y" for x y :: unit by simp
  assume "ConstraintSet_key a = ConstraintSet_key b"
  then show "a = b"
    by (intro ConstraintSet.equality)
      (auto simp: ConstraintSet_key_def key_opt_inject idx vec key_opt_inject [OF unit])
qed simp

lemma Capability_key_inject [simp]: "Capability_key a = Capability_key b \<longleftrightarrow> a = b"
  by (auto simp: Capability_key_def intro: Capability.equality)

interpretation cap: containment Capability_contains wf_Capability
proof
  fix a b c :: Capability
  show "wf_Capability a \<Longrightarrow> Capability_contains a a"
    by (auto simp: Capability_contains_def wf_Capability_def
        intro: scope.covers_refl constraints.covers_refl)
  show "Capability_contains a b \<Longrightarrow> Capability_contains b c \<Longrightarrow> Capability_contains a c"
    by (auto simp: Capability_contains_def intro: scope.covers_trans constraints.covers_trans)
  show "wf_Capability a \<Longrightarrow> wf_Capability b \<Longrightarrow> Capability_contains a b \<Longrightarrow> Capability_contains b a \<Longrightarrow> a = b"
    by (rule Capability.equality)
      (auto simp: Capability_contains_def wf_Capability_def
        intro: scope.covers_antisym constraints.covers_antisym)
qed

lemma contains_permits:
  "Capability_contains a b \<Longrightarrow> Capability_permits b v r u \<Longrightarrow> Capability_permits a v r u"
  by (auto simp: Capability_contains_def Capability_permits_def Scope_contains_denotes
      intro: narrower_permits_less)

lemma present_iff_has: "set (ConstraintSet_present c) = {n. ConstraintSet_has c n}"
  by (simp add: ConstraintSet_present_def)

lemma Capability_new_Ok:
  "Capability_new v s c = Ok cap \<longleftrightarrow>
     cap = \<lparr>cap_verb = v, cap_scope = s, cap_constraints = c\<rparr> \<and> Scope_fits s (Verb_scope_family v) \<and>
     (\<forall>n. ConstraintSet_has c n \<longrightarrow> ConstraintName_applies_to n v)"
proof -
  have "find (\<lambda>n. \<not> ConstraintName_applies_to n v) (ConstraintSet_present c) = None \<longleftrightarrow>
      (\<forall>n. ConstraintSet_has c n \<longrightarrow> ConstraintName_applies_to n v)"
    by (simp add: find_None_iff present_iff_has)
  then show ?thesis
    by (auto simp: Capability_new_def split: option.splits)
qed

lemma Capability_new_wf: "Capability_new v s c = Ok cap \<Longrightarrow> wf_ConstraintSet c \<Longrightarrow> wf_Capability cap"
  by (auto simp: Capability_new_Ok wf_Capability_def)

lemma wf_overlay:
  "wf_ConstraintSet a \<Longrightarrow> wf_ConstraintSet b \<Longrightarrow> wf_ConstraintSet (ConstraintSet_overlay a b)"
  by (auto simp: wf_ConstraintSet_def ConstraintSet_overlay_def opt_or_def split: option.splits)

lemma overlay_none [simp]: "ConstraintSet_overlay c ConstraintSet_unconstrained = c"
  by (rule ConstraintSet.equality)
    (simp_all add: ConstraintSet_overlay_def ConstraintSet_unconstrained_def opt_or_def)

lemma attenuate_Ok:
  "attenuate parent n = Ok child \<longleftrightarrow>
     Capability_contains parent child \<and>
     Capability_new (cap_verb parent)
       (case nar_scope n of Some s \<Rightarrow> s | None \<Rightarrow> cap_scope parent)
       (ConstraintSet_overlay (cap_constraints parent) (nar_constraints n)) = Ok child"
  by (auto simp: attenuate_def Let_def and_then_Ok_iff split: if_splits)

lemma attenuate_wf:
  "attenuate parent n = Ok child \<Longrightarrow> wf_Capability parent \<Longrightarrow> wf_ConstraintSet (nar_constraints n) \<Longrightarrow>
   wf_Capability child"
  by (auto simp: attenuate_Ok wf_Capability_def [of parent] intro: Capability_new_wf wf_overlay)

lemma delegate_Ok: "delegate parent child = Ok d \<longleftrightarrow> d = child \<and> Capability_contains parent child"
  by (auto simp: delegate_def Capability_contains_def)

lemma derives_contained: "derives root c \<Longrightarrow> wf_Capability root \<Longrightarrow> Capability_contains root c"
proof (induction rule: derives.induct)
  case derives_self
  then show ?case by (rule cap.covers_refl)
qed (auto simp: attenuate_Ok delegate_Ok intro: cap.covers_trans)

end
