(* ===== verification/Cap_Set.thy ===== *)
theory Cap_Set
  imports Cap_Authority
begin

text \<open>
  Capability sets (\<^verbatim>\<open>capability/set.rs\<close>): the members, kept sorted by the derived order
  and minimal. The laws are proved once, in the locale \<open>minimal_set\<close>, for any containment order
  with an injective key and an insertion that drops what the new member covers; the code's own
  insertion interprets it.
\<close>

section \<open>The sets\<close>

record CapabilitySet =
  members :: "Capability list"

definition CapabilitySet_empty :: CapabilitySet where
  "CapabilitySet_empty = \<lparr>members = []\<rparr>"

text \<open>
  \<^verbatim>\<open>binary_search\<close> on a sorted slice answers the index of an equal element or, without one,
  the index at which the element keeps the slice sorted; \<^verbatim>\<open>unwrap_or_else(|i| i)\<close> takes
  either. On a sorted slice without duplicates both are the number of smaller elements.
\<close>

definition search_position :: "Capability \<Rightarrow> Capability list \<Rightarrow> nat" where
  "search_position c ms = length (takeWhile (\<lambda>held. Capability_key held < Capability_key c) ms)"

definition members_insert :: "Capability \<Rightarrow> Capability list \<Rightarrow> Capability list" where
  "members_insert c ms =
     (if list_ex (\<lambda>held. Capability_contains held c) ms then ms
      else let kept = filter (\<lambda>held. \<not> Capability_contains c held) ms;
               position = search_position c kept
           in take position kept @ c # drop position kept)"

definition CapabilitySet_insert :: "Capability \<Rightarrow> CapabilitySet \<Rightarrow> CapabilitySet \<times> bool" where
  "CapabilitySet_insert c self =
     (self\<lparr>members := members_insert c (members self)\<rparr>,
      \<not> list_ex (\<lambda>held. Capability_contains held c) (members self))"

definition CapabilitySet_from_capabilities :: "Capability list \<Rightarrow> CapabilitySet" where
  "CapabilitySet_from_capabilities items =
     foldl (\<lambda>set' item. fst (CapabilitySet_insert item set')) CapabilitySet_empty items"

definition CapabilitySet_covers :: "CapabilitySet \<Rightarrow> Capability \<Rightarrow> bool" where
  "CapabilitySet_covers self c \<longleftrightarrow> list_ex (\<lambda>held. Capability_contains held c) (members self)"

definition CapabilitySet_is_contained_by :: "CapabilitySet \<Rightarrow> CapabilitySet \<Rightarrow> bool" where
  "CapabilitySet_is_contained_by self other \<longleftrightarrow> list_all (CapabilitySet_covers other) (members self)"

definition CapabilitySet_contains_set :: "CapabilitySet \<Rightarrow> CapabilitySet \<Rightarrow> bool" where
  "CapabilitySet_contains_set self other \<longleftrightarrow> CapabilitySet_is_contained_by other self"

definition CapabilitySet_len :: "CapabilitySet \<Rightarrow> nat" where
  "CapabilitySet_len self = length (members self)"

definition CapabilitySet_is_empty :: "CapabilitySet \<Rightarrow> bool" where
  "CapabilitySet_is_empty self \<longleftrightarrow> members self = []"

definition CapabilitySet_to_string :: "CapabilitySet \<Rightarrow> string" where
  "CapabilitySet_to_string self = join_on CHR '','' (map Capability_to_string (members self))"

text \<open>The representation invariant: well-formed members, strictly sorted, none covering another.\<close>

definition set_inv :: "CapabilitySet \<Rightarrow> bool" where
  "set_inv s \<longleftrightarrow> list_all wf_Capability (members s) \<and>
     sorted_wrt (<) (map Capability_key (members s)) \<and>
     (\<forall>a \<in> set (members s). \<forall>b \<in> set (members s). Capability_contains a b \<longrightarrow> a = b)"

section \<open>Minimal sorted sets over any containment order\<close>

locale minimal_set = containment covers wf
  for covers :: "'a \<Rightarrow> 'a \<Rightarrow> bool" and wf :: "'a \<Rightarrow> bool" +
  fixes key :: "'a \<Rightarrow> okey" and ins :: "'a \<Rightarrow> 'a list \<Rightarrow> 'a list"
  assumes key_inject: "key a = key b \<longleftrightarrow> a = b"
    and ins_covered: "\<exists>h \<in> set ms. covers h c \<Longrightarrow> ins c ms = ms"
    and ins_new: "\<not> (\<exists>h \<in> set ms. covers h c) \<Longrightarrow>
      set (ins c ms) = Set.insert c {h \<in> set ms. \<not> covers c h}"
    and ins_sorted: "wf c \<Longrightarrow> sorted_wrt (<) (map key ms) \<Longrightarrow> sorted_wrt (<) (map key (ins c ms))"
begin

lemma ins_authority:
  assumes "wf c"
  shows "(\<exists>h \<in> set (ins c ms). covers h x) \<longleftrightarrow> (\<exists>h \<in> set ms. covers h x) \<or> covers c x"
proof (cases "\<exists>h \<in> set ms. covers h c")
  case True
  then obtain h where "h \<in> set ms" "covers h c" by blast
  with True show ?thesis by (auto simp: ins_covered intro: covers_trans)
next
  case False
  show ?thesis
    unfolding ins_new [OF False] by (auto intro: covers_trans)
qed

lemma ins_wf: "wf c \<Longrightarrow> \<forall>h \<in> set ms. wf h \<Longrightarrow> \<forall>h \<in> set (ins c ms). wf h"
  by (cases "\<exists>h \<in> set ms. covers h c") (auto simp: ins_covered ins_new)

lemma ins_antichain:
  assumes "wf c" "\<forall>a \<in> set ms. \<forall>b \<in> set ms. covers a b \<longrightarrow> a = b"
  shows "\<forall>a \<in> set (ins c ms). \<forall>b \<in> set (ins c ms). covers a b \<longrightarrow> a = b"
proof (cases "\<exists>h \<in> set ms. covers h c")
  case True
  then show ?thesis using assms by (simp add: ins_covered)
next
  case False
  then show ?thesis using assms by (auto simp: ins_new)
qed

lemma foldl_authority:
  assumes "\<forall>c \<in> set cs. wf c"
  shows "(\<exists>h \<in> set (foldl (\<lambda>ms c. ins c ms) ms cs). covers h x) \<longleftrightarrow>
    (\<exists>h \<in> set ms \<union> set cs. covers h x)"
  using assms
proof (induction cs arbitrary: ms)
  case (Cons c cs)
  then have "(\<exists>h \<in> set (foldl (\<lambda>ms c. ins c ms) ms (c # cs)). covers h x) \<longleftrightarrow>
      (\<exists>h \<in> set (ins c ms). covers h x) \<or> (\<exists>h \<in> set cs. covers h x)"
    by (simp add: bex_Un)
  also have "\<dots> \<longleftrightarrow> (\<exists>h \<in> set ms \<union> set (c # cs). covers h x)"
    using Cons.prems by (simp add: ins_authority bex_Un disj_ac)
  finally show ?case .
qed simp

lemma foldl_inv:
  assumes "\<forall>c \<in> set cs. wf c" "\<forall>h \<in> set ms. wf h" "sorted_wrt (<) (map key ms)"
    "\<forall>a \<in> set ms. \<forall>b \<in> set ms. covers a b \<longrightarrow> a = b"
  defines "rs \<equiv> foldl (\<lambda>ms c. ins c ms) ms cs"
  shows "(\<forall>h \<in> set rs. wf h) \<and> sorted_wrt (<) (map key rs) \<and>
    (\<forall>a \<in> set rs. \<forall>b \<in> set rs. covers a b \<longrightarrow> a = b)"
  using assms(1-4) unfolding rs_def
proof (induction cs arbitrary: ms)
  case (Cons c cs)
  show ?case
    unfolding foldl_Cons
  proof (rule Cons.IH)
    show "\<forall>h \<in> set (ins c ms). wf h"
      using Cons.prems(1,2) by (intro ins_wf) simp_all
    show "sorted_wrt (<) (map key (ins c ms))"
      using Cons.prems(1,3) by (intro ins_sorted) simp_all
    show "\<forall>a \<in> set (ins c ms). \<forall>b \<in> set (ins c ms). covers a b \<longrightarrow> a = b"
      using Cons.prems(1) by (intro ins_antichain Cons.prems(4)) simp
  qed (use Cons.prems(1) in simp)
qed (simp only: foldl_Nil)

text \<open>Two minimal sets that cover the same elements are the same list.\<close>

lemma minimal_subset:
  assumes "\<forall>h \<in> set ms. wf h" "\<forall>h \<in> set ns. wf h"
    and "\<forall>a \<in> set ms. \<forall>b \<in> set ms. covers a b \<longrightarrow> a = b"
    and same: "\<And>x. wf x \<Longrightarrow> (\<exists>h \<in> set ms. covers h x) \<longleftrightarrow> (\<exists>h \<in> set ns. covers h x)"
  shows "set ms \<subseteq> set ns"
proof
  fix a assume a: "a \<in> set ms"
  with assms(1) have "wf a" "\<exists>h \<in> set ms. covers h a" using covers_refl by auto
  then obtain b where b: "b \<in> set ns" "covers b a" using same by blast
  with assms(2) have "wf b" "\<exists>h \<in> set ns. covers h b" using covers_refl by auto
  then obtain d where d: "d \<in> set ms" "covers d b" using same by blast
  with b have "covers d a" using covers_trans by blast
  with a d assms(3) have "d = a" by blast
  with d b \<open>wf a\<close> \<open>wf b\<close> have "a = b" using covers_antisym by blast
  with b show "a \<in> set ns" by simp
qed

lemma canonical:
  assumes "\<forall>h \<in> set ms. wf h" "\<forall>h \<in> set ns. wf h"
    and "\<forall>a \<in> set ms. \<forall>b \<in> set ms. covers a b \<longrightarrow> a = b"
    and "\<forall>a \<in> set ns. \<forall>b \<in> set ns. covers a b \<longrightarrow> a = b"
    and "sorted_wrt (<) (map key ms)" "sorted_wrt (<) (map key ns)"
    and same: "\<And>x. wf x \<Longrightarrow> (\<exists>h \<in> set ms. covers h x) \<longleftrightarrow> (\<exists>h \<in> set ns. covers h x)"
  shows "ms = ns"
proof -
  have "set ms = set ns"
    using minimal_subset [of ms ns] minimal_subset [of ns ms] assms by blast
  then have "map key ms = map key ns"
    using assms(5,6) by (intro strict_sorted_equal) auto
  then show ?thesis using key_inject by (simp add: inj_map_eq_map inj_def)
qed

end

section \<open>The code's insertion is one\<close>

lemma insert_at_set: "set (take i xs @ c # drop i xs) = Set.insert c (set xs)"
  by (metis Un_insert_right append_take_drop_id list.simps(15) set_append)

lemma sorted_insert_at:
  fixes key :: "'a \<Rightarrow> okey"
  assumes "sorted_wrt (<) (map key xs)" "key c \<notin> key ` set xs"
  defines "i \<equiv> length (takeWhile (\<lambda>h. key h < key c) xs)"
  shows "sorted_wrt (<) (map key (take i xs @ c # drop i xs))"
  using assms(1,2) unfolding i_def
proof (induction xs)
  case (Cons x xs)
  show ?case
  proof (cases "key x < key c")
    case True
    with Cons show ?thesis
      using insert_at_set [of "length (takeWhile (\<lambda>h. key h < key c) xs)" xs c] by auto
  next
    case False
    with Cons.prems have "key c < key x" by auto
    with Cons.prems False show ?thesis by auto
  qed
qed simp

lemma members_insert_set:
  "\<not> (\<exists>h \<in> set ms. Capability_contains h c) \<Longrightarrow>
   set (members_insert c ms) = Set.insert c {h \<in> set ms. \<not> Capability_contains c h}"
  by (simp add: members_insert_def list_ex_iff Let_def insert_at_set del: set_append)

lemma members_insert_sorted:
  assumes wf: "wf_Capability c" and sorted: "sorted_wrt (<) (map Capability_key ms)"
  shows "sorted_wrt (<) (map Capability_key (members_insert c ms))"
proof (cases "\<exists>h \<in> set ms. Capability_contains h c")
  case True
  with sorted show ?thesis by (auto simp: members_insert_def list_ex_iff)
next
  case False
  let ?kept = "filter (\<lambda>held. \<not> Capability_contains c held) ms"
  have "c \<notin> set ms" using False wf cap.covers_refl by blast
  then have "Capability_key c \<notin> Capability_key ` set ?kept" by auto
  moreover have "sorted_wrt (<) (map Capability_key ?kept)"
    using sorted by (simp add: sorted_wrt_map sorted_wrt_filter)
  ultimately show ?thesis
    using False sorted_insert_at [of Capability_key ?kept c]
    by (simp add: members_insert_def list_ex_iff Let_def search_position_def)
qed

interpretation capset: minimal_set Capability_contains wf_Capability Capability_key members_insert
proof unfold_locales
  show "\<exists>h \<in> set ms. Capability_contains h c \<Longrightarrow> members_insert c ms = ms" for ms c
    by (auto simp: members_insert_def list_ex_iff)
qed (simp_all add: members_insert_set members_insert_sorted)

lemma members_from_capabilities:
  "members (CapabilitySet_from_capabilities items) = foldl (\<lambda>ms c. members_insert c ms) [] items"
proof -
  have "members (foldl (\<lambda>s item. fst (CapabilitySet_insert item s)) s items) =
      foldl (\<lambda>ms c. members_insert c ms) (members s) items" for s
    by (induction items arbitrary: s) (simp_all add: CapabilitySet_insert_def)
  then show ?thesis
    by (simp add: CapabilitySet_from_capabilities_def CapabilitySet_empty_def)
qed

lemma set_inv_from_capabilities:
  "\<forall>c \<in> set items. wf_Capability c \<Longrightarrow> set_inv (CapabilitySet_from_capabilities items)"
  using capset.foldl_inv [of items "[]"]
  by (simp add: set_inv_def members_from_capabilities list_all_iff)

lemma set_inv_insert:
  "set_inv s \<Longrightarrow> wf_Capability c \<Longrightarrow> set_inv (fst (CapabilitySet_insert c s))"
  using capset.ins_wf [of c "members s"] capset.ins_sorted [of c "members s"]
    capset.ins_antichain [of c "members s"]
  by (simp add: set_inv_def CapabilitySet_insert_def list_all_iff)

lemma covers_insert:
  "wf_Capability c \<Longrightarrow>
   CapabilitySet_covers (fst (CapabilitySet_insert c s)) x \<longleftrightarrow> CapabilitySet_covers s x \<or> Capability_contains c x"
  by (simp add: CapabilitySet_covers_def CapabilitySet_insert_def list_ex_iff capset.ins_authority)

lemma covers_from_capabilities:
  "\<forall>c \<in> set items. wf_Capability c \<Longrightarrow>
   CapabilitySet_covers (CapabilitySet_from_capabilities items) x \<longleftrightarrow> (\<exists>c \<in> set items. Capability_contains c x)"
  by (simp add: CapabilitySet_covers_def list_ex_iff members_from_capabilities capset.foldl_authority)

lemma set_inv_canonical:
  assumes "set_inv s" "set_inv t"
    and "\<And>x. wf_Capability x \<Longrightarrow> CapabilitySet_covers s x \<longleftrightarrow> CapabilitySet_covers t x"
  shows "s = t"
proof -
  have "members s = members t"
    using assms by (intro capset.canonical)
      (auto simp: set_inv_def list_all_iff CapabilitySet_covers_def list_ex_iff)
  then show ?thesis by (rule CapabilitySet.equality) simp
qed

lemma is_contained_by_covers:
  assumes "set_inv s"
  shows "CapabilitySet_is_contained_by s t \<longleftrightarrow>
    (\<forall>x. CapabilitySet_covers s x \<longrightarrow> CapabilitySet_covers t x)"
proof
  assume "CapabilitySet_is_contained_by s t"
  then show "\<forall>x. CapabilitySet_covers s x \<longrightarrow> CapabilitySet_covers t x"
    by (auto simp: CapabilitySet_is_contained_by_def CapabilitySet_covers_def list_all_iff list_ex_iff
        intro: cap.covers_trans)
next
  assume *: "\<forall>x. CapabilitySet_covers s x \<longrightarrow> CapabilitySet_covers t x"
  show "CapabilitySet_is_contained_by s t"
    unfolding CapabilitySet_is_contained_by_def list_all_iff
  proof
    fix a assume "a \<in> set (members s)"
    with assms have "CapabilitySet_covers s a"
      by (auto simp: set_inv_def CapabilitySet_covers_def list_all_iff list_ex_iff intro: cap.covers_refl)
    with * show "CapabilitySet_covers t a" by blast
  qed
qed

end
