(* ===== verification/Cap_Parse.thy ===== *)
theory Cap_Parse
  imports Cap_Authority "HOL-Library.Multiset"
begin

unbundle bit_operations_syntax

text \<open>
  The parser of capability text (\<^verbatim>\<open>capability/parse.rs\<close>) and its relation to the canonical
  printer (\<^verbatim>\<open>capability/spec.rs\<close>): what it accepts is well-formed, printing what it
  accepted gives a text of the same length that parses to the same declaration, and a declaration
  of a family that is its own identity always resolves.
\<close>

section \<open>The parser\<close>

definition MAX_CAPABILITY_CHARS :: nat where "MAX_CAPABILITY_CHARS = 512"

definition parse_verb :: "string \<Rightarrow> (Verb, CapabilityError) result" where
  "parse_verb text =
     and_then (ok_or (split_once CHR ''.'' text) MissingAction) (\<lambda>(namespace_text, action_text).
       if namespace_text = [] then Err EmptyNamespace
       else if action_text = [] then Err EmptyAction
       else if CHR ''.'' \<in> set action_text
       then and_then (ok_or (Namespace_parse namespace_text) UnknownNamespace) (\<lambda>n. Err (UnknownAction n))
       else and_then (ok_or (Namespace_parse namespace_text) UnknownNamespace) (\<lambda>n.
         ok_or (Verb_parse_action n action_text) (UnknownAction n)))"

definition parse_name :: "(Label \<Rightarrow> SyntacticScope) \<Rightarrow> string \<Rightarrow> (ScopeSpec, CapabilityError) result" where
  "parse_name f text =
     and_then (ok_or (Label_new text) (InvalidScope MalformedName)) (\<lambda>l. Ok (SpecSyntactic (f l)))"

definition parse_syntactic ::
  "('a \<Rightarrow> SyntacticScope) \<Rightarrow> ('a, ScopeError) result \<Rightarrow> (ScopeSpec, CapabilityError) result" where
  "parse_syntactic f r = and_then (map_err InvalidScope r) (\<lambda>x. Ok (SpecSyntactic (f x)))"

definition parse_scope :: "Verb \<Rightarrow> string \<Rightarrow> (ScopeSpec, CapabilityError) result" where
  "parse_scope verb text =
     (if text = [] then Err EmptyScope
      else if text = ''*'' then Ok SpecUniversal
      else case Verb_scope_family verb of
        Path \<Rightarrow> and_then (ok_or (DeclaredPath_new text) (InvalidScope MalformedPath)) (\<lambda>p. Ok (SpecDeclaredPath p))
      | Executable \<Rightarrow>
          and_then (ok_or (DeclaredPath_new text) (InvalidScope MalformedPath)) (\<lambda>p. Ok (SpecDeclaredExecutable p))
      | ScopeFamily.Endpoint \<Rightarrow> parse_syntactic SEndpoint (Endpoint_parse text)
      | CredentialHandle \<Rightarrow> parse_name SCredentialHandle text
      | ScopeFamily.ProviderModel \<Rightarrow> parse_syntactic SProviderModel (ProviderModel_parse text)
      | Domain \<Rightarrow> parse_syntactic SDomain (HostPattern_parse text)
      | ServerId \<Rightarrow> parse_name SServerId text
      | AgentProfile \<Rightarrow> parse_syntactic SAgentProfile (Pattern_parse text)
      | MemoryScope \<Rightarrow> parse_name SMemoryScope text
      | Intent \<Rightarrow> parse_syntactic SIntent (Pattern_parse text)
      | ArtifactScope \<Rightarrow> parse_name SArtifactScope text
      | ScopeFamily.ChannelTarget \<Rightarrow> parse_syntactic SChannelTarget (ChannelTarget_parse text))"

fun apply_constraint ::
  "ConstraintSet \<Rightarrow> ConstraintName \<Rightarrow> string \<Rightarrow> (ConstraintSet, ValueError) result" where
  "apply_constraint s MaxBytes value =
     and_then (parse_u64_strict value) (\<lambda>w. Ok (s\<lparr>cs_max_bytes := Some w\<rparr>))"
| "apply_constraint s NoSymlinkTargetsName value =
     and_then (NoSymlinkTargets_parse value) (\<lambda>u. Ok (s\<lparr>cs_no_symlink_targets := Some u\<rparr>))"
| "apply_constraint s Methods value =
     and_then (MethodSet_parse value) (\<lambda>m. Ok (s\<lparr>cs_methods := Some m\<rparr>))"
| "apply_constraint s MaxRequests value =
     and_then (parse_u32_strict value) (\<lambda>w. Ok (s\<lparr>cs_max_requests := Some w\<rparr>))"
| "apply_constraint s ArgvAllowlistName value =
     and_then (ArgvAllowlist_parse value) (\<lambda>a. Ok (s\<lparr>cs_argv_allowlist := Some a\<rparr>))"
| "apply_constraint s PrivacyClassName value =
     and_then (ok_or (PrivacyClass_parse value) UnknownPrivacyClass) (\<lambda>p. Ok (s\<lparr>cs_privacy_class := Some p\<rparr>))"
| "apply_constraint s Depth value =
     and_then (parse_u16_strict value) (\<lambda>w. Ok (s\<lparr>cs_depth := Some w\<rparr>))"
| "apply_constraint s Fanout value =
     and_then (parse_u16_strict value) (\<lambda>w. Ok (s\<lparr>cs_fanout := Some w\<rparr>))"

fun parse_constraints_loop ::
  "Verb \<Rightarrow> string list \<Rightarrow> ConstraintSet \<Rightarrow> ConstraintName list \<Rightarrow> (ConstraintSet, CapabilityError) result" where
  "parse_constraints_loop verb [] s seen = Ok s"
| "parse_constraints_loop verb (item # items) s seen =
     (if item = [] then Err MalformedConstraint
      else and_then (ok_or (split_once CHR ''='' item) MalformedConstraint) (\<lambda>(name_text, value).
        if name_text = [] then Err EmptyConstraintName
        else if value = [] then Err EmptyConstraintValue
        else and_then (ok_or (ConstraintName_parse name_text) UnknownConstraint) (\<lambda>name.
          if name \<in> set seen then Err (DuplicateConstraint name)
          else if \<not> ConstraintName_applies_to name verb then Err (ConstraintNotApplicable name verb)
          else and_then (map_err (InvalidConstraintValue name) (apply_constraint s name value)) (\<lambda>s'.
            parse_constraints_loop verb items s' (seen @ [name])))))"

definition parse_constraints :: "Verb \<Rightarrow> string \<Rightarrow> (ConstraintSet, CapabilityError) result" where
  "parse_constraints verb text =
     parse_constraints_loop verb (split_on CHR ''&'' text) ConstraintSet_unconstrained []"

definition split_constraints :: "string \<Rightarrow> (string \<times> string option, CapabilityError) result" where
  "split_constraints text =
     (case split_once CHR ''?'' text of
        None \<Rightarrow> Ok (text, None)
      | Some (head, rest) \<Rightarrow>
          if CHR ''?'' \<in> set rest then Err RepeatedConstraintSeparator
          else if rest = [] then Err EmptyConstraints
          else Ok (head, Some rest))"

definition parse :: "string \<Rightarrow> (CapabilitySpec, CapabilityError) result" where
  "parse text =
     (if text = [] then Err EmptyCapability
      else if MAX_CAPABILITY_CHARS < chars_count text then Err TooLong
      else and_then (split_constraints text) (\<lambda>(head, constraint_text).
        and_then (ok_or (split_once CHR '':'' head) MissingScope) (\<lambda>(verb_text, scope_text).
          and_then (parse_verb verb_text) (\<lambda>verb.
            and_then (parse_scope verb scope_text) (\<lambda>scope.
              and_then (case constraint_text of None \<Rightarrow> Ok ConstraintSet_unconstrained
                        | Some t \<Rightarrow> parse_constraints verb t) (\<lambda>c.
                Ok \<lparr>spec_verb = verb, spec_scope = scope, spec_constraints = c\<rparr>))))))"

text \<open>What a parsed declaration satisfies.\<close>

fun wf_ScopeSpec :: "ScopeSpec \<Rightarrow> bool" where
  "wf_ScopeSpec SpecUniversal = True"
| "wf_ScopeSpec (SpecSyntactic s) = (wf_SyntacticScope s \<and> SyntacticScope_to_string s \<noteq> ''*'')"
| "wf_ScopeSpec (SpecDeclaredPath p) = declared_path_ok p"
| "wf_ScopeSpec (SpecDeclaredExecutable p) = declared_path_ok p"

definition wf_CapabilitySpec :: "CapabilitySpec \<Rightarrow> bool" where
  "wf_CapabilitySpec s \<longleftrightarrow> spec_verb s \<in> set Verb_ALL \<and> wf_ScopeSpec (spec_scope s) \<and>
     (case ScopeSpec_family (spec_scope s) of None \<Rightarrow> True | Some f \<Rightarrow> f = Verb_scope_family (spec_verb s)) \<and>
     wf_ConstraintSet (spec_constraints s) \<and>
     (\<forall>n. ConstraintSet_has (spec_constraints s) n \<longrightarrow> ConstraintName_applies_to n (spec_verb s))"

section \<open>Lengths\<close>

lemma chars_count_join:
  "ps \<noteq> [] \<Longrightarrow> \<not> is_continuation c \<Longrightarrow>
   Suc (chars_count (join_on c ps)) = sum_list (map chars_count ps) + length ps"
proof (induction c ps rule: join_on.induct)
  case (3 c p q ps)
  have "chars_count (c # join_on c (q # ps)) = Suc (chars_count (join_on c (q # ps)))"
    using "3.prems" by (simp add: chars_count_def)
  with 3 show ?case by simp
qed simp_all

lemma chars_count_join_perm:
  assumes "mset ps = mset qs" "\<not> is_continuation c"
  shows "chars_count (join_on c ps) = chars_count (join_on c qs)"
proof (cases "ps = []")
  case False
  with assms have "qs \<noteq> []" by auto
  have "mset (map chars_count ps) = mset (map chars_count qs)" using assms by simp
  then have "sum_list (map chars_count ps) = sum_list (map chars_count qs)"
    by (metis sum_mset_sum_list)
  moreover have "length ps = length qs" using assms by (metis size_mset)
  ultimately show ?thesis
    using chars_count_join [OF False assms(2)] chars_count_join [OF \<open>qs \<noteq> []\<close> assms(2)] by simp
qed (use assms in simp)

lemma separators [simp]:
  "\<not> is_continuation CHR '',''" "\<not> is_continuation CHR ''&''" "\<not> is_continuation CHR ''=''"
  "\<not> is_continuation CHR ''?''" "\<not> is_continuation CHR '':''"
  by (simp_all add: is_continuation_def)

section \<open>Constraint values\<close>

lemma u64_strict_Ok: "parse_u64_strict t = Ok w \<longleftrightarrow> t = show_nat (unat w)"
proof -
  have starts: "starts_with t ''0'' \<longleftrightarrow> t \<noteq> [] \<and> hd t = CHR ''0''"
    by (cases t) (auto simp: starts_with_def)
  have canon: "canonical_digits t \<longleftrightarrow> t \<noteq> [] \<and> list_all is_ascii_digit t \<and> \<not> (1 < length t \<and> starts_with t ''0'')"
    unfolding canonical_digits_def starts by auto
  have eq: "parse_u64_strict t = Ok w \<longleftrightarrow>
      canonical_digits t \<and> nat_of_digits t < 2 ^ 64 \<and> w = of_nat (nat_of_digits t)"
    unfolding parse_u64_strict_def canon by auto
  show ?thesis
  proof
    assume "parse_u64_strict t = Ok w"
    then have c: "canonical_digits t" "nat_of_digits t < 2 ^ 64" "w = of_nat (nat_of_digits t)"
      unfolding eq by auto
    then have "unat w = nat_of_digits t" by (simp add: unat_of_nat)
    with c show "t = show_nat (unat w)" by (simp add: show_nat_of_digits)
  next
    assume t: "t = show_nat (unat w)"
    have "unat w < 2 ^ 64" using unsigned_less [of w] by simp
    with t show "parse_u64_strict t = Ok w" unfolding eq by simp
  qed
qed

lemma u32_strict_Ok: "parse_u32_strict t = Ok w \<longleftrightarrow> t = show_nat (unat w)"
proof
  assume "parse_u32_strict t = Ok w"
  then show "t = show_nat (unat w)"
    by (auto simp: parse_u32_strict_def and_then_Ok_iff u64_strict_Ok unsigned_ucast_eq
        take_bit_nat_eq_self split: if_splits)
next
  assume t: "t = show_nat (unat w)"
  define v :: "64 word" where "v = ucast w"
  have "unat w < 2 ^ 32" using unsigned_less [of w] by simp
  then have v: "unat v = unat w" by (simp add: v_def unsigned_ucast_eq take_bit_nat_eq_self)
  moreover from this t have "parse_u64_strict t = Ok v" by (simp add: u64_strict_Ok)
  moreover from v \<open>unat w < 2 ^ 32\<close> have "ucast v = w"
    by (intro unat_inject [THEN iffD1]) (simp add: unsigned_ucast_eq take_bit_nat_eq_self)
  ultimately show "parse_u32_strict t = Ok w"
    using \<open>unat w < 2 ^ 32\<close> by (simp add: parse_u32_strict_def)
qed

lemma u16_strict_Ok: "parse_u16_strict t = Ok w \<longleftrightarrow> t = show_nat (unat w)"
proof
  assume "parse_u16_strict t = Ok w"
  then show "t = show_nat (unat w)"
    by (auto simp: parse_u16_strict_def and_then_Ok_iff u64_strict_Ok unsigned_ucast_eq
        take_bit_nat_eq_self split: if_splits)
next
  assume t: "t = show_nat (unat w)"
  define v :: "64 word" where "v = ucast w"
  have "unat w < 2 ^ 16" using unsigned_less [of w] by simp
  then have v: "unat v = unat w" by (simp add: v_def unsigned_ucast_eq take_bit_nat_eq_self)
  moreover from this t have "parse_u64_strict t = Ok v" by (simp add: u64_strict_Ok)
  moreover from v \<open>unat w < 2 ^ 16\<close> have "ucast v = w"
    by (intro unat_inject [THEN iffD1]) (simp add: unsigned_ucast_eq take_bit_nat_eq_self)
  ultimately show "parse_u16_strict t = Ok w"
    using \<open>unat w < 2 ^ 16\<close> by (simp add: parse_u16_strict_def)
qed

lemma Method_as_str_inject [simp]: "Method_as_str m = Method_as_str n \<longleftrightarrow> m = n"
  by (cases m; cases n) simp_all

lemma Method_as_str_chars: "Method_as_str m \<noteq> []" "c \<in> set (Method_as_str m) \<Longrightarrow> is_ascii_uppercase c"
  by (cases m; auto simp: is_ascii_uppercase_def)+

lemma Method_parse_exact: "Method_parse t = Some m \<longleftrightarrow> t = Method_as_str m"
proof
  show "Method_parse t = Some m \<Longrightarrow> t = Method_as_str m"
    by (auto simp: Method_parse_def dest: find_SomeD)
  show "t = Method_as_str m \<Longrightarrow> Method_parse t = Some m"
    unfolding Method_parse_def by (rule find_unique) auto
qed

lemma bit_Method_bit: "bit (Method_bit m) n \<longleftrightarrow> n = Method_index m"
  using Method_index_less [of m] by (auto simp: Method_bit_push bit_push_bit_iff bit_1_iff bit_2_iff bit_exp_iff)

lemma has_or_bit: "MethodSet_has (s OR Method_bit m) k \<longleftrightarrow> MethodSet_has s k \<or> k = m"
  by (auto simp: MethodSet_has_bit bit_or_iff bit_Method_bit)

lemma MethodSet_parse_loop_Ok:
  "MethodSet_parse_loop parts bits = Ok s \<Longrightarrow>
   \<exists>ms. parts = map Method_as_str ms \<and> distinct ms \<and> (\<forall>m \<in> set ms. \<not> MethodSet_has bits m) \<and>
     (\<forall>k. MethodSet_has s k \<longleftrightarrow> MethodSet_has bits k \<or> k \<in> set ms) \<and> (bit s 7 \<longleftrightarrow> bit bits 7)"
proof (induction parts arbitrary: bits)
  case (Cons part parts)
  then obtain m where m: "part = Method_as_str m" "\<not> MethodSet_has bits m"
    and rec: "MethodSet_parse_loop parts (bits OR Method_bit m) = Ok s"
    by (auto simp: and_then_Ok_iff Method_parse_exact MethodSet_has_def split: if_splits)
  from Cons.IH [OF rec] obtain ms where ms: "parts = map Method_as_str ms" "distinct ms"
    "\<forall>k \<in> set ms. \<not> MethodSet_has (bits OR Method_bit m) k"
    "\<forall>k. MethodSet_has s k \<longleftrightarrow> MethodSet_has (bits OR Method_bit m) k \<or> k \<in> set ms"
    "bit s 7 \<longleftrightarrow> bit (bits OR Method_bit m) 7" by blast
  have "bit s 7 \<longleftrightarrow> bit bits 7"
    using ms(5) Method_index_less [of m] by (simp add: bit_or_iff bit_Method_bit)
  with m ms show ?case
    by (intro exI [of _ "m # ms"]) (auto simp: has_or_bit)
qed auto

lemma MethodSet_parse_loop_map:
  "distinct ms \<Longrightarrow> \<forall>m \<in> set ms. \<not> MethodSet_has bits m \<Longrightarrow>
   MethodSet_parse_loop (map Method_as_str ms) bits = Ok (foldl (\<lambda>acc m. acc OR Method_bit m) bits ms)"
proof (induction ms arbitrary: bits)
  case (Cons m ms)
  have "\<forall>k \<in> set ms. \<not> MethodSet_has (bits OR Method_bit m) k"
    using Cons.prems by (auto simp: has_or_bit)
  then have "MethodSet_parse_loop (map Method_as_str ms) (bits OR Method_bit m) =
      Ok (foldl (\<lambda>acc m. acc OR Method_bit m) (bits OR Method_bit m) ms)"
    using Cons by simp
  moreover have "Method_parse (Method_as_str m) = Some m" by (simp add: Method_parse_exact)
  ultimately show ?case
    using Cons.prems Method_as_str_chars(1) by (simp add: MethodSet_has_def)
qed simp

lemma foldl_or_has:
  "MethodSet_has (foldl (\<lambda>acc m. acc OR Method_bit m) bits ms) k \<longleftrightarrow> MethodSet_has bits k \<or> k \<in> set ms"
  by (induction ms arbitrary: bits) (auto simp: has_or_bit)

lemma foldl_or_bit7:
  "bit (foldl (\<lambda>acc m. acc OR Method_bit m) bits ms) 7 \<longleftrightarrow> bit bits 7"
proof (induction ms arbitrary: bits)
  case (Cons m ms)
  then show ?case using Method_index_less [of m] by (simp add: bit_or_iff bit_Method_bit)
qed simp

lemma methods_set [simp]: "set (MethodSet_methods s) = {m. MethodSet_has s m}" "distinct (MethodSet_methods s)"
  by (simp_all add: MethodSet_methods_def)

lemma has_0 [simp]: "\<not> MethodSet_has 0 m"
  by (simp add: MethodSet_has_def)

lemma split_method_names:
  "ms \<noteq> [] \<Longrightarrow> split_on CHR '','' (join_on CHR '','' (map Method_as_str ms)) = map Method_as_str ms"
  by (intro split_on_join_on) (auto dest!: Method_as_str_chars(2) simp: is_ascii_uppercase_def)

lemma MethodSet_parse_print:
  assumes "wf_MethodSet s"
  shows "MethodSet_parse (MethodSet_to_string s) = Ok s"
proof -
  let ?t = "foldl (\<lambda>acc m. acc OR Method_bit m) 0 (MethodSet_methods s)"
  have "MethodSet_methods s \<noteq> []"
    using wf_MethodSet_nonempty [OF assms] methods_set(1) [of s] by (metis empty_Collect_eq set_empty)
  then have "MethodSet_parse (MethodSet_to_string s) = Ok ?t"
    by (simp add: MethodSet_parse_def MethodSet_to_string_def split_method_names MethodSet_parse_loop_map)
  moreover have "?t = s"
  proof (rule wf_MethodSet_eqI)
    show has: "MethodSet_has ?t m \<longleftrightarrow> MethodSet_has s m" for m by (simp add: foldl_or_has)
    obtain m where "MethodSet_has s m" using wf_MethodSet_nonempty [OF assms] ..
    then have "?t \<noteq> 0" using has [of m] by auto
    then show "wf_MethodSet ?t" by (simp add: wf_MethodSet_bits foldl_or_bit7)
  qed (fact assms)
  ultimately show ?thesis by simp
qed

lemma MethodSet_parse_Ok:
  assumes "MethodSet_parse t = Ok s"
  shows "wf_MethodSet s \<and> chars_count (MethodSet_to_string s) = chars_count t"
proof -
  obtain ms where ms: "split_on CHR '','' t = map Method_as_str ms" "distinct ms"
    and has: "\<And>k. MethodSet_has s k \<longleftrightarrow> k \<in> set ms" and b7: "\<not> bit s 7"
    using MethodSet_parse_loop_Ok [OF assms [unfolded MethodSet_parse_def]] by auto
  have "ms \<noteq> []" using ms(1) split_on_nonempty [of "CHR '',''" t] by auto
  then obtain m where "MethodSet_has s m" using has by (cases ms) auto
  then have "s \<noteq> 0" by auto
  with b7 have "wf_MethodSet s" by (simp add: wf_MethodSet_bits)
  moreover have "mset (MethodSet_methods s) = mset ms"
    using ms(2) has by (simp add: set_eq_iff_mset_eq_distinct [symmetric])
  then have "chars_count (MethodSet_to_string s) = chars_count (join_on CHR '','' (map Method_as_str ms))"
    unfolding MethodSet_to_string_def by (intro chars_count_join_perm) simp_all
  then have "chars_count (MethodSet_to_string s) = chars_count t"
    using join_on_split_on [of "CHR '',''" t] ms(1) by simp
  ultimately show ?thesis by blast
qed

lemma length_dedup: "length (dedup xs) \<le> length xs"
  by (induction xs rule: dedup.induct) auto

lemma dedup_sorted:
  fixes key :: "'a \<Rightarrow> okey"
  assumes "\<And>x y. key x = key y \<longleftrightarrow> x = y" "sorted (map key xs)"
  shows "length (dedup xs) = length xs \<longleftrightarrow> distinct xs" and "distinct xs \<Longrightarrow> dedup xs = xs"
proof -
  have "(length (dedup xs) = length xs \<longleftrightarrow> distinct xs) \<and> (distinct xs \<longrightarrow> dedup xs = xs)"
    using assms(2)
  proof (induction xs rule: dedup.induct)
    case (1 x y zs)
    show ?case
    proof (cases "x = y")
      case True
      then show ?thesis using length_dedup [of "y # zs"] by simp
    next
      case False
      with "1.prems" assms(1) have "key x < key y" "\<forall>z \<in> set zs. key y \<le> key z"
        by (auto simp: order.strict_iff_order)
      then have "x \<notin> set (y # zs)" using False by fastforce
      with False 1 show ?thesis by simp
    qed
  qed simp_all
  then show "length (dedup xs) = length xs \<longleftrightarrow> distinct xs" "distinct xs \<Longrightarrow> dedup xs = xs" by blast+
qed

lemma ArgvAllowlist_new_Some:
  "ArgvAllowlist_new ts = Some a \<longleftrightarrow>
     ts \<noteq> [] \<and> length ts \<le> ARGV_MAX_TOKENS \<and> distinct ts \<and> a = sort_key key_str ts"
proof -
  have "sorted (map key_str (sort_key key_str ts))" by simp
  note d = dedup_sorted [of key_str, OF key_str_inject this]
  have "distinct (sort_key key_str ts) \<longleftrightarrow> distinct ts" by simp
  with d show ?thesis by (auto simp: ArgvAllowlist_new_def Let_def)
qed

lemma ArgvAllowlist_parse_loop_Ok:
  "ArgvAllowlist_parse_loop parts tokens = Ok ts \<longleftrightarrow>
     ts = tokens @ parts \<and> list_all argv_token_ok parts \<and> distinct parts \<and> set parts \<inter> set tokens = {}"
proof (induction parts arbitrary: tokens)
  case (Cons part parts)
  have step: "ArgvAllowlist_parse_loop (part # parts) tokens = Ok ts \<longleftrightarrow>
      argv_token_ok part \<and> part \<notin> set tokens \<and> ArgvAllowlist_parse_loop parts (tokens @ [part]) = Ok ts"
    by (auto simp: ArgvToken_new_def argv_token_ok_def)
  show ?case unfolding step using Cons.IH [of "tokens @ [part]"] by auto
qed auto

lemma argv_token_excludes: "argv_token_ok t \<Longrightarrow> CHR '','' \<notin> set t"
  by (auto simp: argv_token_ok_def list_all_iff char_class_defs)

lemma wf_ArgvAllowlist_sorted:
  "wf_ArgvAllowlist a \<longleftrightarrow> a \<noteq> [] \<and> length a \<le> ARGV_MAX_TOKENS \<and> list_all argv_token_ok a \<and>
     distinct a \<and> sorted (map key_str a)"
  by (auto simp: wf_ArgvAllowlist_def strict_sorted_iff distinct_map inj_on_def)

lemma ArgvAllowlist_parse_print:
  assumes "wf_ArgvAllowlist a"
  shows "ArgvAllowlist_parse (ArgvAllowlist_to_string a) = Ok a"
proof -
  from assms have a: "a \<noteq> []" "length a \<le> ARGV_MAX_TOKENS" "list_all argv_token_ok a" "distinct a"
    "sorted (map key_str a)" by (simp_all add: wf_ArgvAllowlist_sorted)
  have "split_on CHR '','' (join_on CHR '','' a) = a"
    using a argv_token_excludes by (intro split_on_join_on) (auto simp: list_all_iff)
  moreover have "ArgvAllowlist_parse_loop a [] = Ok a" using a by (simp add: ArgvAllowlist_parse_loop_Ok)
  moreover have "ArgvAllowlist_new a = Some a"
    using a by (simp add: ArgvAllowlist_new_Some sort_key_id_if_sorted)
  ultimately show ?thesis by (simp add: ArgvAllowlist_parse_def ArgvAllowlist_to_string_def)
qed

lemma ArgvAllowlist_parse_Ok:
  assumes "ArgvAllowlist_parse t = Ok a"
  shows "wf_ArgvAllowlist a \<and> chars_count (ArgvAllowlist_to_string a) = chars_count t"
proof -
  let ?ps = "split_on CHR '','' t"
  from assms have ps: "list_all argv_token_ok ?ps" "distinct ?ps" "length ?ps \<le> ARGV_MAX_TOKENS"
    and a: "a = sort_key key_str ?ps"
    by (auto simp: ArgvAllowlist_parse_def and_then_Ok_iff ArgvAllowlist_parse_loop_Ok ArgvAllowlist_new_Some)
  have "a \<noteq> []" using a by (metis length_0_conv length_sort split_on_nonempty)
  with ps a have "wf_ArgvAllowlist a" by (simp add: wf_ArgvAllowlist_sorted list_all_iff)
  moreover have "chars_count (join_on CHR '','' a) = chars_count (join_on CHR '','' ?ps)"
    by (rule chars_count_join_perm) (simp_all add: a)
  ultimately show ?thesis by (simp add: ArgvAllowlist_to_string_def)
qed

lemma PrivacyClass_parse_exact: "PrivacyClass_parse t = Some p \<longleftrightarrow> t = PrivacyClass_as_str p"
proof
  show "PrivacyClass_parse t = Some p \<Longrightarrow> t = PrivacyClass_as_str p"
    by (auto simp: PrivacyClass_parse_def dest: find_SomeD)
  have "PrivacyClass_as_str q = PrivacyClass_as_str p \<Longrightarrow> q = p" for q
    by (cases q; cases p) simp_all
  then show "t = PrivacyClass_as_str p \<Longrightarrow> PrivacyClass_parse t = Some p"
    unfolding PrivacyClass_parse_def
    by (intro find_unique) (cases p; auto simp: PrivacyClass_ALL_def)+
qed

section \<open>Constraint sets\<close>

fun ConstraintSet_value :: "ConstraintSet \<Rightarrow> ConstraintName \<Rightarrow> string option" where
  "ConstraintSet_value c MaxBytes = map_option (\<lambda>v. show_nat (unat v)) (cs_max_bytes c)"
| "ConstraintSet_value c NoSymlinkTargetsName = map_option (\<lambda>v. ''true'') (cs_no_symlink_targets c)"
| "ConstraintSet_value c Methods = map_option MethodSet_to_string (cs_methods c)"
| "ConstraintSet_value c MaxRequests = map_option (\<lambda>v. show_nat (unat v)) (cs_max_requests c)"
| "ConstraintSet_value c ArgvAllowlistName = map_option ArgvAllowlist_to_string (cs_argv_allowlist c)"
| "ConstraintSet_value c PrivacyClassName = map_option PrivacyClass_as_str (cs_privacy_class c)"
| "ConstraintSet_value c Depth = map_option (\<lambda>v. show_nat (unat v)) (cs_depth c)"
| "ConstraintSet_value c Fanout = map_option (\<lambda>v. show_nat (unat v)) (cs_fanout c)"

fun copy_field :: "ConstraintSet \<Rightarrow> ConstraintSet \<Rightarrow> ConstraintName \<Rightarrow> ConstraintSet" where
  "copy_field c s MaxBytes = s\<lparr>cs_max_bytes := cs_max_bytes c\<rparr>"
| "copy_field c s NoSymlinkTargetsName = s\<lparr>cs_no_symlink_targets := cs_no_symlink_targets c\<rparr>"
| "copy_field c s Methods = s\<lparr>cs_methods := cs_methods c\<rparr>"
| "copy_field c s MaxRequests = s\<lparr>cs_max_requests := cs_max_requests c\<rparr>"
| "copy_field c s ArgvAllowlistName = s\<lparr>cs_argv_allowlist := cs_argv_allowlist c\<rparr>"
| "copy_field c s PrivacyClassName = s\<lparr>cs_privacy_class := cs_privacy_class c\<rparr>"
| "copy_field c s Depth = s\<lparr>cs_depth := cs_depth c\<rparr>"
| "copy_field c s Fanout = s\<lparr>cs_fanout := cs_fanout c\<rparr>"

lemma item_value:
  "ConstraintSet_item c n = map_option (\<lambda>v. ConstraintName_as_str n @ CHR ''='' # v) (ConstraintSet_value c n)"
  by (cases n) (simp_all add: option.map_comp comp_def)

lemma has_value: "ConstraintSet_has c n \<longleftrightarrow> ConstraintSet_value c n \<noteq> None"
  by (cases n) simp_all

lemma apply_value:
  "wf_ConstraintSet c \<Longrightarrow> ConstraintSet_value c n = Some v \<Longrightarrow> apply_constraint s n v = Ok (copy_field c s n)"
  by (cases n) (auto simp: u64_strict_Ok [THEN iffD2] u32_strict_Ok [THEN iffD2] u16_strict_Ok [THEN iffD2]
      NoSymlinkTargets_parse_def wf_ConstraintSet_def MethodSet_parse_print ArgvAllowlist_parse_print
      PrivacyClass_parse_exact [THEN iffD2])

definition value_text :: "string \<Rightarrow> bool" where
  "value_text v \<longleftrightarrow> v \<noteq> [] \<and> list_all (\<lambda>x. is_ascii_alphanumeric x \<or> x \<in> set ''_.-,'') v"

lemma value_text_show_nat: "value_text (show_nat k)"
  using show_nat_digits by (auto simp: value_text_def list_all_iff is_ascii_alphanumeric_def)

lemma value_text_methods: "wf_MethodSet m \<Longrightarrow> value_text (MethodSet_to_string m)"
proof -
  assume "wf_MethodSet m"
  then have "MethodSet_to_string m \<noteq> []"
    using MethodSet_parse_print [of m] by (auto simp: MethodSet_parse_def)
  then show ?thesis
    using Method_as_str_chars(2)
    by (auto simp: value_text_def list_all_iff MethodSet_to_string_def is_ascii_alphanumeric_def
        dest!: set_join_on)
qed

lemma value_text_argv: "wf_ArgvAllowlist a \<Longrightarrow> value_text (ArgvAllowlist_to_string a)"
proof -
  assume a: "wf_ArgvAllowlist a"
  then have "ArgvAllowlist_to_string a \<noteq> []"
    using ArgvAllowlist_parse_print [of a] by (auto simp: ArgvAllowlist_parse_def)
  with a show ?thesis
    by (fastforce simp: value_text_def ArgvAllowlist_to_string_def wf_ArgvAllowlist_def argv_token_ok_def
        list_all_iff dest!: set_join_on)
qed

lemma value_text_privacy: "value_text (PrivacyClass_as_str p)"
  by (cases p) (simp_all add: value_text_def char_class_defs)

lemma value_text_true: "value_text ''true''"
  by (simp add: value_text_def char_class_defs)

lemmas value_texts = value_text_show_nat value_text_methods value_text_argv value_text_privacy value_text_true

lemma value_chars: "wf_ConstraintSet c \<Longrightarrow> ConstraintSet_value c n = Some v \<Longrightarrow> value_text v"
  by (cases n) (auto simp: wf_ConstraintSet_def value_texts)

lemma value_text_excludes:
  assumes "value_text v"
  shows "CHR ''&'' \<notin> set v" "CHR ''?'' \<notin> set v" "v \<noteq> []"
  using assms by (auto simp: value_text_def list_all_iff char_class_defs)

definition item_text :: "ConstraintSet \<Rightarrow> ConstraintName \<Rightarrow> string" where
  "item_text c n = ConstraintName_as_str n @ CHR ''='' # the (ConstraintSet_value c n)"

lemma to_string_items: "ConstraintSet_to_string c = join_on CHR ''&'' (map (item_text c) (ConstraintSet_present c))"
proof -
  have "ConstraintSet_item c n \<noteq> None \<longleftrightarrow> ConstraintSet_has c n" for n
    by (simp add: item_value has_value)
  then have "List.map_filter (ConstraintSet_item c) ConstraintName_ALL =
      map (the \<circ> ConstraintSet_item c) (ConstraintSet_present c)"
    by (simp add: List.map_filter_def ConstraintSet_present_def)
  also have "\<dots> = map (item_text c) (ConstraintSet_present c)"
    by (auto simp: item_value item_text_def present_iff_has has_value)
  finally show ?thesis by (simp add: ConstraintSet_to_string_def)
qed

lemma name_excludes:
  "CHR ''='' \<notin> set (ConstraintName_as_str n)" "CHR ''&'' \<notin> set (ConstraintName_as_str n)"
  "CHR ''?'' \<notin> set (ConstraintName_as_str n)"
  by (cases n; simp)+

lemma loop_print:
  assumes "wf_ConstraintSet c"
  shows "distinct ns \<Longrightarrow> set ns \<inter> set seen = {} \<Longrightarrow>
    \<forall>n \<in> set ns. ConstraintSet_has c n \<and> ConstraintName_applies_to n verb \<Longrightarrow>
    parse_constraints_loop verb (map (item_text c) ns) s seen = Ok (foldl (copy_field c) s ns)"
proof (induction ns arbitrary: s seen)
  case (Cons n ns)
  then obtain v where v: "ConstraintSet_value c n = Some v" by (auto simp: has_value)
  with assms have "value_text v" "apply_constraint s n v = Ok (copy_field c s n)"
    by (auto intro: value_chars apply_value)
  moreover from v have "item_text c n = ConstraintName_as_str n @ CHR ''='' # v" by (simp add: item_text_def)
  moreover have "parse_constraints_loop verb (map (item_text c) ns) (copy_field c s n) (seen @ [n]) =
      Ok (foldl (copy_field c) (copy_field c s n) ns)"
    using Cons by (intro Cons.IH) auto
  ultimately show ?case
    using Cons.prems name_excludes(1) [of n] ConstraintName_as_str_chars(1) [of n] value_text_excludes [of v]
    by simp
qed simp

lemma foldl_copy_fields:
  "cs_max_bytes (foldl (copy_field c) s ns) = (if MaxBytes \<in> set ns then cs_max_bytes c else cs_max_bytes s)"
  "cs_no_symlink_targets (foldl (copy_field c) s ns) =
     (if NoSymlinkTargetsName \<in> set ns then cs_no_symlink_targets c else cs_no_symlink_targets s)"
  "cs_methods (foldl (copy_field c) s ns) = (if Methods \<in> set ns then cs_methods c else cs_methods s)"
  "cs_max_requests (foldl (copy_field c) s ns) =
     (if MaxRequests \<in> set ns then cs_max_requests c else cs_max_requests s)"
  "cs_argv_allowlist (foldl (copy_field c) s ns) =
     (if ArgvAllowlistName \<in> set ns then cs_argv_allowlist c else cs_argv_allowlist s)"
  "cs_privacy_class (foldl (copy_field c) s ns) =
     (if PrivacyClassName \<in> set ns then cs_privacy_class c else cs_privacy_class s)"
  "cs_depth (foldl (copy_field c) s ns) = (if Depth \<in> set ns then cs_depth c else cs_depth s)"
  "cs_fanout (foldl (copy_field c) s ns) = (if Fanout \<in> set ns then cs_fanout c else cs_fanout s)"
proof (induction ns arbitrary: s)
  case (Cons n ns)
  {
    case 1 show ?case using Cons(1) by (cases n) simp_all
  next
    case 2 show ?case using Cons(2) by (cases n) simp_all
  next
    case 3 show ?case using Cons(3) by (cases n) simp_all
  next
    case 4 show ?case using Cons(4) by (cases n) simp_all
  next
    case 5 show ?case using Cons(5) by (cases n) simp_all
  next
    case 6 show ?case using Cons(6) by (cases n) simp_all
  next
    case 7 show ?case using Cons(7) by (cases n) simp_all
  next
    case 8 show ?case using Cons(8) by (cases n) simp_all
  }
qed simp_all

lemma foldl_copy_present:
  "foldl (copy_field c) ConstraintSet_unconstrained (ConstraintSet_present c) = c"
  by (rule ConstraintSet.equality; cases "cs_no_symlink_targets c")
    (simp_all add: foldl_copy_fields present_iff_has ConstraintSet_unconstrained_def)

lemma has_unconstrained [simp]: "\<not> ConstraintSet_has ConstraintSet_unconstrained n"
  by (cases n) (simp_all add: ConstraintSet_unconstrained_def)

lemma present_empty: "ConstraintSet_present c = [] \<longleftrightarrow> c = ConstraintSet_unconstrained"
proof
  show "ConstraintSet_present c = [] \<Longrightarrow> c = ConstraintSet_unconstrained"
    using foldl_copy_present [of c] by simp
  show "c = ConstraintSet_unconstrained \<Longrightarrow> ConstraintSet_present c = []"
    by (simp add: ConstraintSet_present_def)
qed

lemma parse_constraints_print:
  assumes "wf_ConstraintSet c" "c \<noteq> ConstraintSet_unconstrained"
    and "\<forall>n. ConstraintSet_has c n \<longrightarrow> ConstraintName_applies_to n verb"
  shows "parse_constraints verb (ConstraintSet_to_string c) = Ok c"
proof -
  have "split_on CHR ''&'' (ConstraintSet_to_string c) = map (item_text c) (ConstraintSet_present c)"
    unfolding to_string_items
  proof (rule split_on_join_on)
    show "map (item_text c) (ConstraintSet_present c) \<noteq> []" using assms(2) by (simp add: present_empty)
    fix p assume "p \<in> set (map (item_text c) (ConstraintSet_present c))"
    then obtain n v where "p = ConstraintName_as_str n @ CHR ''='' # v" "ConstraintSet_value c n = Some v"
      by (auto simp: item_text_def present_iff_has has_value)
    then show "CHR ''&'' \<notin> set p"
      using name_excludes value_text_excludes(1) [OF value_chars [OF assms(1)]] by simp
  qed
  moreover have "parse_constraints_loop verb (map (item_text c) (ConstraintSet_present c))
      ConstraintSet_unconstrained [] = Ok c"
  proof (subst loop_print [OF assms(1)])
    show "distinct (ConstraintSet_present c)" by (simp add: ConstraintSet_present_def)
  qed (use assms(3) in \<open>simp_all add: foldl_copy_present present_iff_has\<close>)
  ultimately show ?thesis by (simp add: parse_constraints_def)
qed

lemma apply_Ok:
  assumes "apply_constraint s n v = Ok s'" "wf_ConstraintSet s"
  shows "wf_ConstraintSet s'" "m \<noteq> n \<Longrightarrow> ConstraintSet_value s' m = ConstraintSet_value s m"
    "\<exists>v'. ConstraintSet_value s' n = Some v' \<and> chars_count v' = chars_count v"
proof -
  show "wf_ConstraintSet s'"
    using assms by (cases n)
      (auto simp: and_then_Ok_iff wf_ConstraintSet_def dest: MethodSet_parse_Ok ArgvAllowlist_parse_Ok)
  show "m \<noteq> n \<Longrightarrow> ConstraintSet_value s' m = ConstraintSet_value s m"
    using assms(1) by (cases n; cases m) (auto simp: and_then_Ok_iff)
  show "\<exists>v'. ConstraintSet_value s' n = Some v' \<and> chars_count v' = chars_count v"
    using assms(1) by (cases n)
      (auto simp: and_then_Ok_iff u64_strict_Ok u32_strict_Ok u16_strict_Ok NoSymlinkTargets_parse_def
        PrivacyClass_parse_exact dest: MethodSet_parse_Ok ArgvAllowlist_parse_Ok split: if_splits)
qed

lemma loop_Ok:
  "parse_constraints_loop verb items s seen = Ok c \<Longrightarrow> wf_ConstraintSet s \<Longrightarrow> distinct seen \<Longrightarrow>
   (\<forall>n. ConstraintSet_has s n \<longleftrightarrow> n \<in> set seen) \<Longrightarrow>
   \<exists>ns. distinct (seen @ ns) \<and> wf_ConstraintSet c \<and> (\<forall>n. ConstraintSet_has c n \<longleftrightarrow> n \<in> set (seen @ ns)) \<and>
     (\<forall>n \<in> set ns. ConstraintName_applies_to n verb) \<and>
     map chars_count items = map (\<lambda>n. chars_count (item_text c n)) ns \<and>
     (\<forall>n \<in> set seen. ConstraintSet_value c n = ConstraintSet_value s n)"
proof (induction items arbitrary: s seen)
  case Nil
  then show ?case by (intro exI [of _ "[]"]) simp
next
  case (Cons item items)
  then obtain n v s' where item: "item = ConstraintName_as_str n @ CHR ''='' # v"
    and n: "n \<notin> set seen" "ConstraintName_applies_to n verb"
    and app: "apply_constraint s n v = Ok s'"
    and rec: "parse_constraints_loop verb items s' (seen @ [n]) = Ok c"
    by (auto simp: and_then_Ok_iff ConstraintName_parse_exact split_once_Some split: if_splits)
  note s' = apply_Ok [OF app Cons.prems(2)]
  have "ConstraintSet_has s' m \<longleftrightarrow> m \<in> set (seen @ [n])" for m
    using Cons.prems(4) s'(2) [of m] s'(3) by (cases "m = n") (auto simp: has_value)
  then obtain ns where ns: "distinct ((seen @ [n]) @ ns)" "wf_ConstraintSet c"
    "\<forall>m. ConstraintSet_has c m \<longleftrightarrow> m \<in> set ((seen @ [n]) @ ns)"
    "\<forall>m \<in> set ns. ConstraintName_applies_to m verb"
    "map chars_count items = map (\<lambda>m. chars_count (item_text c m)) ns"
    "\<forall>m \<in> set (seen @ [n]). ConstraintSet_value c m = ConstraintSet_value s' m"
    using Cons.IH [OF rec s'(1)] Cons.prems(3) n(1) by auto
  obtain v' where "ConstraintSet_value s' n = Some v'" "chars_count v' = chars_count v" using s'(3) by blast
  then have "chars_count item = chars_count (item_text c n)"
    using ns(6) item by (simp add: item_text_def chars_count_def)
  moreover have "\<forall>m \<in> set seen. ConstraintSet_value c m = ConstraintSet_value s m"
    using ns(6) s'(2) n(1) by (metis Un_iff set_append)
  ultimately show ?case
    using ns n by (intro exI [of _ "n # ns"]) simp
qed

lemma wf_unconstrained [simp]: "wf_ConstraintSet ConstraintSet_unconstrained"
  by (simp add: wf_ConstraintSet_def ConstraintSet_unconstrained_def)

lemma parse_constraints_Ok:
  assumes "parse_constraints verb t = Ok c"
  shows "wf_ConstraintSet c" "c \<noteq> ConstraintSet_unconstrained"
    "ConstraintSet_has c n \<Longrightarrow> ConstraintName_applies_to n verb"
    "chars_count (ConstraintSet_to_string c) = chars_count t"
proof -
  let ?items = "split_on CHR ''&'' t"
  obtain ns where ns: "distinct ns" "wf_ConstraintSet c" "\<forall>n. ConstraintSet_has c n \<longleftrightarrow> n \<in> set ns"
    "\<forall>n \<in> set ns. ConstraintName_applies_to n verb"
    "map chars_count ?items = map (\<lambda>n. chars_count (item_text c n)) ns"
    using loop_Ok [OF assms [unfolded parse_constraints_def]] by auto
  show "wf_ConstraintSet c" by (fact ns(2))
  show "ConstraintSet_has c n \<Longrightarrow> ConstraintName_applies_to n verb" using ns(3,4) by blast
  have len: "length ns = length ?items" using ns(5) by (metis length_map)
  then have "ns \<noteq> []" using split_on_nonempty [of "CHR ''&''" t] by auto
  then show "c \<noteq> ConstraintSet_unconstrained"
    using ns(3) has_unconstrained by (metis list.set_intros(1) neq_Nil_conv)
  have "set (ConstraintSet_present c) = set ns" using ns(3) by (auto simp: present_iff_has)
  then have "mset (map (item_text c) (ConstraintSet_present c)) = mset (map (item_text c) ns)"
    using ns(1) by (metis ConstraintSet_present_def distinct_ConstraintName_ALL distinct_filter mset_map
        set_eq_iff_mset_eq_distinct)
  then have "chars_count (ConstraintSet_to_string c) = chars_count (join_on CHR ''&'' (map (item_text c) ns))"
    unfolding to_string_items by (rule chars_count_join_perm) simp
  moreover have "Suc (chars_count (join_on CHR ''&'' (map (item_text c) ns))) =
      sum_list (map chars_count ?items) + length ?items"
    using chars_count_join [of "map (item_text c) ns" "CHR ''&''"] \<open>ns \<noteq> []\<close> ns(5) len
    by (simp add: comp_def)
  ultimately show "chars_count (ConstraintSet_to_string c) = chars_count t"
    using chars_count_join [of ?items "CHR ''&''"] by simp
qed

section \<open>Verbs and scopes\<close>

lemma verb_text_excludes:
  "CHR '':'' \<notin> set (Verb_to_string v)" "CHR ''?'' \<notin> set (Verb_to_string v)"
  "CHR ''.'' \<notin> set (Namespace_as_str n)" "CHR ''.'' \<notin> set (Action_as_str a)"
  using Namespace_as_str_chars(2) Action_as_str_chars(2)
  by (fastforce simp: Verb_to_string_def is_ascii_lowercase_def)+

lemma parse_verb_Ok: "parse_verb t = Ok v \<longleftrightarrow> v \<in> set Verb_ALL \<and> t = Verb_to_string v"
proof
  assume "parse_verb t = Ok v"
  then show "v \<in> set Verb_ALL \<and> t = Verb_to_string v"
    by (auto simp: parse_verb_def and_then_Ok_iff split_once_Some Namespace_parse_exact
        Verb_parse_action_exact Verb_to_string_def split: if_splits)
next
  assume "v \<in> set Verb_ALL \<and> t = Verb_to_string v"
  then show "parse_verb t = Ok v"
    using verb_text_excludes(3,4) Namespace_as_str_chars(1) Action_as_str_chars(1)
    by (simp add: parse_verb_def Verb_to_string_def Verb_parse_action_exact [THEN iffD2])
qed

lemma wf_Pattern_text: "wf_Pattern p \<Longrightarrow> CHR ''?'' \<notin> set (Pattern_to_string p)"
  by (cases p) (auto simp: pattern_body_ok_def list_all_iff char_class_defs)

lemma syntactic_text:
  assumes "wf_SyntacticScope s"
  shows "CHR ''?'' \<notin> set (SyntacticScope_to_string s)"
proof -
  have "CHR ''?'' \<notin> set (show_nat n)" for n
    by (rule show_nat_excludes) (simp add: is_ascii_digit_def)
  then show ?thesis
    using assms HostPattern_to_string_excludes(2) label_ok_excludes(4) wf_Pattern_text
    by (cases s) (auto simp: wf_Endpoint_def Endpoint_to_string_def wf_ProviderModel_def
        ProviderModel_to_string_def wf_ChannelTarget_def ChannelTarget_to_string_def split: PortSpec.splits)
qed

lemma scope_text: "wf_ScopeSpec s \<Longrightarrow> CHR ''?'' \<notin> set (ScopeSpec_to_string s)"
  by (cases s) (auto simp: syntactic_text declared_path_ok_def)

lemma syntactic_text_nonempty:
  assumes "wf_SyntacticScope s"
  shows "SyntacticScope_to_string s \<noteq> []"
proof -
  have "wf_HostPattern h \<Longrightarrow> HostPattern_to_string h \<noteq> []" for h
    using join_on_Nil_iff by (cases h) auto
  moreover have "wf_Pattern p \<Longrightarrow> Pattern_to_string p \<noteq> []" for p by (cases p) auto
  ultimately show ?thesis
    using assms label_ok_excludes(5)
    by (cases s) (auto simp: wf_Endpoint_def Endpoint_to_string_def ProviderModel_to_string_def
        ChannelTarget_to_string_def split: PortSpec.splits)
qed

lemmas scope_parse_exact =
  Endpoint_parse_Ok ProviderModel_parse_Ok HostPattern_parse_Ok Pattern_parse_Ok ChannelTarget_parse_Ok

definition spec_fits :: "ScopeSpec \<Rightarrow> ScopeFamily \<Rightarrow> bool" where
  "spec_fits s f \<longleftrightarrow> (case ScopeSpec_family s of None \<Rightarrow> True | Some g \<Rightarrow> g = f)"

lemma parse_scope_print:
  assumes "wf_ScopeSpec s" "spec_fits s (Verb_scope_family v)"
  shows "parse_scope v (ScopeSpec_to_string s) = Ok s"
proof (cases s)
  case (SpecSyntactic x)
  with assms syntactic_text_nonempty [of x] show ?thesis
    by (cases x) (auto simp: parse_scope_def spec_fits_def parse_syntactic_def parse_name_def Label_new_def
        scope_parse_exact [THEN iffD2] dest: label_ok_excludes(5))
qed (use assms in \<open>auto simp: parse_scope_def spec_fits_def DeclaredPath_new_def declared_path_ok_def
    starts_with_def\<close>)

lemma parse_scope_Ok:
  assumes "parse_scope v t = Ok s"
  shows "wf_ScopeSpec s \<and> spec_fits s (Verb_scope_family v) \<and> t = ScopeSpec_to_string s"
  using assms
  by (cases "Verb_scope_family v")
    (auto simp: parse_scope_def spec_fits_def parse_syntactic_def parse_name_def and_then_Ok_iff
      scope_parse_exact DeclaredPath_new_def split: if_splits)

section \<open>Declarations\<close>

lemma wf_CapabilitySpec_fits:
  "wf_CapabilitySpec s \<longleftrightarrow> spec_verb s \<in> set Verb_ALL \<and> wf_ScopeSpec (spec_scope s) \<and>
     spec_fits (spec_scope s) (Verb_scope_family (spec_verb s)) \<and> wf_ConstraintSet (spec_constraints s) \<and>
     (\<forall>n. ConstraintSet_has (spec_constraints s) n \<longrightarrow> ConstraintName_applies_to n (spec_verb s))"
  by (simp add: wf_CapabilitySpec_def spec_fits_def)

lemma constraints_is_empty: "ConstraintSet_is_empty c \<longleftrightarrow> c = ConstraintSet_unconstrained"
  using present_empty [of c] by (auto simp: ConstraintSet_is_empty_def)

lemma split_constraints_Ok:
  "split_constraints t = Ok (h, r) \<longleftrightarrow>
     (case r of None \<Rightarrow> t = h \<and> CHR ''?'' \<notin> set t
      | Some c \<Rightarrow> t = h @ CHR ''?'' # c \<and> CHR ''?'' \<notin> set h \<and> CHR ''?'' \<notin> set c \<and> c \<noteq> [])"
proof (cases "split_once CHR ''?'' t")
  case None
  then show ?thesis
    using split_once_None [of "CHR ''?''" t] by (auto simp: split_constraints_def split: option.splits)
next
  case (Some p)
  then obtain a b where ab: "split_once CHR ''?'' t = Some (a, b)" by (cases p) auto
  have "t = x @ CHR ''?'' # y \<and> CHR ''?'' \<notin> set x \<longleftrightarrow> a = x \<and> b = y" for x y
    using split_once_Some [of "CHR ''?''" t x y] ab by auto
  moreover have "CHR ''?'' \<in> set t" using ab by (auto simp: split_once_Some)
  ultimately show ?thesis using ab by (auto simp: split_constraints_def split: option.splits)
qed

lemma chars_count_Cons_sep: "\<not> is_continuation c \<Longrightarrow> chars_count (c # s) = Suc (chars_count s)"
  by (simp add: chars_count_def)

lemma parse_Ok:
  assumes "parse t = Ok s"
  shows "wf_CapabilitySpec s" "chars_count (CapabilitySpec_to_string s) = chars_count t"
    "chars_count t \<le> MAX_CAPABILITY_CHARS"
proof -
  from assms obtain h r scope_text verb scope c where sp: "split_constraints t = Ok (h, r)"
    and h': "h = Verb_to_string verb @ CHR '':'' # scope_text" "verb \<in> set Verb_ALL"
    and sc': "parse_scope verb scope_text = Ok scope"
    and c': "(case r of None \<Rightarrow> Ok ConstraintSet_unconstrained | Some x \<Rightarrow> parse_constraints verb x) = Ok c"
    and s: "s = \<lparr>spec_verb = verb, spec_scope = scope, spec_constraints = c\<rparr>"
    and len: "chars_count t \<le> MAX_CAPABILITY_CHARS"
    by (auto simp: parse_def and_then_Ok_iff split_once_Some parse_verb_Ok split: if_splits)
  have h: "h = Verb_to_string (spec_verb s) @ CHR '':'' # scope_text" and v: "spec_verb s \<in> set Verb_ALL"
    and sc: "parse_scope (spec_verb s) scope_text = Ok (spec_scope s)"
    and c: "(case r of None \<Rightarrow> Ok ConstraintSet_unconstrained | Some x \<Rightarrow> parse_constraints (spec_verb s) x)
        = Ok (spec_constraints s)"
    using h' sc' c' by (simp_all add: s split: option.splits)
  show "chars_count t \<le> MAX_CAPABILITY_CHARS" by (fact len)
  note scope = parse_scope_Ok [OF sc]
  show "wf_CapabilitySpec s"
  proof (cases r)
    case None
    then show ?thesis using v scope c by (auto simp: wf_CapabilitySpec_fits)
  next
    case (Some x)
    then have pc: "parse_constraints (spec_verb s) x = Ok (spec_constraints s)" using c by simp
    show ?thesis
      using v scope parse_constraints_Ok(1,3) [OF pc] by (auto simp: wf_CapabilitySpec_fits)
  qed
  show "chars_count (CapabilitySpec_to_string s) = chars_count t"
  proof (cases r)
    case None
    with c sp h scope show ?thesis
      by (auto simp: CapabilitySpec_to_string_def constraints_is_empty split_constraints_Ok)
  next
    case (Some x)
    with c have pc: "parse_constraints (spec_verb s) x = Ok (spec_constraints s)" by simp
    with Some sp h scope show ?thesis
      by (auto simp: CapabilitySpec_to_string_def constraints_is_empty split_constraints_Ok
          chars_count_Cons_sep parse_constraints_Ok(2,4) [OF pc])
  qed
qed

lemma constraints_text:
  assumes "wf_ConstraintSet c"
  shows "CHR ''?'' \<notin> set (ConstraintSet_to_string c)"
proof
  assume "CHR ''?'' \<in> set (ConstraintSet_to_string c)"
  then obtain n v where "CHR ''?'' \<in> set (ConstraintName_as_str n @ CHR ''='' # v)" "ConstraintSet_value c n = Some v"
    by (auto simp: to_string_items item_text_def present_iff_has has_value dest!: set_join_on)
  then show False using name_excludes(3) value_text_excludes(2) [OF value_chars [OF assms]] by auto
qed

lemma parse_print:
  assumes "wf_CapabilitySpec s" "chars_count (CapabilitySpec_to_string s) \<le> MAX_CAPABILITY_CHARS"
  shows "parse (CapabilitySpec_to_string s) = Ok s"
proof -
  let ?h = "Verb_to_string (spec_verb s) @ CHR '':'' # ScopeSpec_to_string (spec_scope s)"
  let ?c = "spec_constraints s"
  let ?r = "if ?c = ConstraintSet_unconstrained then None else Some (ConstraintSet_to_string ?c)"
  from assms(1) have wf: "spec_verb s \<in> set Verb_ALL" "wf_ScopeSpec (spec_scope s)"
    "spec_fits (spec_scope s) (Verb_scope_family (spec_verb s))" "wf_ConstraintSet ?c"
    "\<forall>n. ConstraintSet_has ?c n \<longrightarrow> ConstraintName_applies_to n (spec_verb s)"
    by (auto simp: wf_CapabilitySpec_fits)
  have pc: "?c \<noteq> ConstraintSet_unconstrained \<Longrightarrow>
      parse_constraints (spec_verb s) (ConstraintSet_to_string ?c) = Ok ?c"
    by (rule parse_constraints_print [OF wf(4) _ wf(5)])
  then have "?c \<noteq> ConstraintSet_unconstrained \<Longrightarrow> ConstraintSet_to_string ?c \<noteq> []"
    by (auto simp: parse_constraints_def)
  then have sp: "split_constraints (CapabilitySpec_to_string s) = Ok (?h, ?r)"
    using verb_text_excludes(2) [of "spec_verb s"] scope_text [OF wf(2)] constraints_text [OF wf(4)]
    by (auto simp: split_constraints_Ok CapabilitySpec_to_string_def constraints_is_empty)
  have once: "split_once CHR '':'' ?h = Some (Verb_to_string (spec_verb s), ScopeSpec_to_string (spec_scope s))"
    using verb_text_excludes(1) [of "spec_verb s"] by (simp add: split_once_Some)
  have "parse_verb (Verb_to_string (spec_verb s)) = Ok (spec_verb s)" using wf(1) by (simp add: parse_verb_Ok)
  moreover have "parse_scope (spec_verb s) (ScopeSpec_to_string (spec_scope s)) = Ok (spec_scope s)"
    by (rule parse_scope_print [OF wf(2,3)])
  moreover have "CapabilitySpec_to_string s \<noteq> []" by (simp add: CapabilitySpec_to_string_def)
  ultimately show ?thesis
    using assms(2) pc by (simp add: parse_def sp once)
qed

end
