(* ===== verification/Cap_Properties.thy ===== *)
theory Cap_Properties
  imports Cap_Set Cap_Parse
begin

text \<open>
  What the capability module promises, stated over the definitions of the component theories, with
  a concrete run of each conditional property. The running example is the pair of
  capabilities \<open>ex_root\<close> (GET requests to any host below \<open>example.com\<close>) and \<open>ex_child\<close>
  (at most five of them, to one host and port).
\<close>

section \<open>The running example\<close>

definition ex_verb :: Verb where
  "ex_verb = Verb_of Network Https"

definition ex_root :: Capability where
  "ex_root = \<lparr>cap_verb = ex_verb,
     cap_scope = Syntactic (SEndpoint \<lparr>ep_host = Wildcard [''example'', ''com''], ep_port = PortAny\<rparr>),
     cap_constraints = ConstraintSet_unconstrained\<lparr>cs_methods := Some (Method_bit Get)\<rparr>\<rparr>"

definition ex_scope :: Scope where
  "ex_scope = Syntactic (SEndpoint \<lparr>ep_host = Exact [''api'', ''example'', ''com''], ep_port = Port 443\<rparr>)"

definition ex_narrowing :: Narrowing where
  "ex_narrowing = \<lparr>nar_scope = Some ex_scope,
     nar_constraints = ConstraintSet_unconstrained\<lparr>cs_max_requests := Some 5\<rparr>\<rparr>"

definition ex_child :: Capability where
  "ex_child = \<lparr>cap_verb = ex_verb, cap_scope = ex_scope,
     cap_constraints = ConstraintSet_unconstrained\<lparr>cs_methods := Some (Method_bit Get), cs_max_requests := Some 5\<rparr>\<rparr>"

definition ex_resource :: Resource where
  "ex_resource = EndpointRes ([''api'', ''example'', ''com''], 443)"

definition ex_usage :: Usage where
  "ex_usage = \<lparr>use_bytes = 0, use_symlink_target = False, use_method = Get, use_requests = 3,
     use_argv = [], use_privacy = LocalOnly, use_depth = 0, use_fanout = 0\<rparr>"

lemma ex_permits: "Capability_permits ex_child ex_verb ex_resource ex_usage"
  by (simp add: Capability_permits_def ex_child_def ex_scope_def ex_resource_def Endpoint_denotes_def
      ConstraintSet_permits_def ConstraintSet_unconstrained_def ex_usage_def MethodSet_has_def)

lemma ex_attenuate: "attenuate ex_root ex_narrowing = Ok ex_child"
  by code_simp

lemma ex_contains: "Capability_contains ex_root ex_child"
  by code_simp

lemma ex_wf: "wf_Capability ex_root" "wf_Capability ex_child"
proof -
  have applies: "ConstraintSet_has (cap_constraints c) n \<Longrightarrow> ConstraintName_applies_to n (cap_verb c)"
    if "c = ex_root \<or> c = ex_child" for c n
    using that by (cases n) (auto simp: ex_root_def ex_child_def ex_verb_def Verb_of_def ConstraintSet_unconstrained_def)
  have "wf_MethodSet (Method_bit Get)" by code_simp
  then have cs: "wf_ConstraintSet (cap_constraints ex_root)" "wf_ConstraintSet (cap_constraints ex_child)"
    by (simp_all add: wf_ConstraintSet_def ex_root_def ex_child_def ConstraintSet_unconstrained_def)
  have "Scope_fits (cap_scope ex_root) (Verb_scope_family (cap_verb ex_root))" by code_simp
  then show "wf_Capability ex_root" by (auto simp: wf_Capability_def applies cs)
  have "Scope_fits (cap_scope ex_child) (Verb_scope_family (cap_verb ex_child))" by code_simp
  then show "wf_Capability ex_child" by (auto simp: wf_Capability_def applies cs)
qed

section \<open>Attenuation and delegation\<close>

text \<open>
  C1. Attenuation never widens authority: when \<open>attenuate\<close> answers a capability, it has the parent's
  verb, the parent contains it, every access it authorises (a verb on a concrete resource in a
  concrete way) the parent already authorised, and it is well formed when the parent and the
  requested constraints are.
\<close>

theorem attenuate_never_widens:
  assumes "attenuate parent n = Ok child"
  shows "cap_verb child = cap_verb parent \<and> Capability_contains parent child \<and>
    (\<forall>v r u. Capability_permits child v r u \<longrightarrow> Capability_permits parent v r u) \<and>
    (wf_Capability parent \<and> wf_ConstraintSet (nar_constraints n) \<longrightarrow> wf_Capability child)"
  using assms attenuate_wf [OF assms]
  by (auto simp: attenuate_Ok Capability_contains_def intro: contains_permits)

theorem attenuate_never_widens_witness:
  "attenuate ex_root ex_narrowing = Ok ex_child \<and> wf_Capability ex_child \<and>
   Capability_permits ex_root ex_verb ex_resource ex_usage"
proof -
  have "wf_ConstraintSet (nar_constraints ex_narrowing)"
    by (simp add: ex_narrowing_def wf_ConstraintSet_def ConstraintSet_unconstrained_def)
  then show ?thesis
    using attenuate_never_widens [OF ex_attenuate] ex_attenuate ex_permits ex_wf by blast
qed

text \<open>
  C3. What can be derived from a held capability, by any sequence of attenuations and delegations,
  is exactly what it contains: no chain of derivations reaches an authority outside the root.
\<close>

theorem derivations_exactly_contained:
  assumes "wf_Capability root"
  shows "(derives root c \<longleftrightarrow> Capability_contains root c) \<and>
    (derives root c \<longrightarrow> (\<forall>v r u. Capability_permits c v r u \<longrightarrow> Capability_permits root v r u))"
proof -
  have "derives root c" if "Capability_contains root c"
  proof (rule derives_delegate [OF derives_self])
    show "delegate root c = Ok c" by (simp add: delegate_Ok that)
  qed
  then show ?thesis
    using derives_contained [OF _ assms] contains_permits by blast
qed

theorem derivations_exactly_contained_witness:
  "derives ex_root ex_child \<and> Capability_permits ex_root ex_verb ex_resource ex_usage"
  using derivations_exactly_contained [OF ex_wf(1), of ex_child] ex_contains ex_permits by blast


section \<open>The order\<close>

text \<open>
  C5. Scope containment, decided by the code case by case, is exactly inclusion of the sets of
  concrete resources the scopes stand for.
\<close>

theorem scope_containment_is_inclusion:
  "Scope_contains a b \<longleftrightarrow> Scope_denotes b \<subseteq> Scope_denotes a"
  by (rule Scope_contains_denotes)

text \<open>
  C18. Capability containment is a partial order on well-formed capabilities: it is reflexive and
  transitive, and two capabilities that contain each other are the same value.
\<close>

theorem containment_partial_order:
  assumes "wf_Capability a" "wf_Capability b"
  shows "Capability_contains a a \<and>
    (Capability_contains a b \<and> Capability_contains b c \<longrightarrow> Capability_contains a c) \<and>
    (Capability_contains a b \<and> Capability_contains b a \<longrightarrow> a = b)"
  using assms cap.covers_refl [of a] cap.covers_trans [of a b c] cap.covers_antisym [of a b] by blast

theorem containment_partial_order_witness:
  "Capability_contains ex_root ex_root \<and> \<not> Capability_contains ex_child ex_root"
proof -
  have "ex_root \<noteq> ex_child" by (simp add: ex_root_def ex_child_def ex_scope_def)
  then show ?thesis
    using containment_partial_order [OF ex_wf] ex_contains by blast
qed



section \<open>Sets\<close>

text \<open>
  C9. Inserting keeps the representation of a capability set (members well formed, strictly sorted,
  none covering another), and the set then covers exactly what it covered before and what the new
  capability contains; the flag it answers says whether the capability was new to the set.
\<close>

theorem set_insert_exact:
  assumes "set_inv s" "wf_Capability c" "CapabilitySet_insert c s = (t, added)"
  shows "set_inv t \<and> (\<forall>x. CapabilitySet_covers t x \<longleftrightarrow> CapabilitySet_covers s x \<or> Capability_contains c x) \<and>
    (added \<longleftrightarrow> \<not> CapabilitySet_covers s c) \<and> (\<not> added \<longrightarrow> t = s)"
proof -
  have t: "t = fst (CapabilitySet_insert c s)" "added = snd (CapabilitySet_insert c s)" using assms(3) by auto
  have "\<not> added \<Longrightarrow> t = s"
    using t by (simp add: CapabilitySet_insert_def members_insert_def)
  moreover have "added \<longleftrightarrow> \<not> CapabilitySet_covers s c"
    using t by (simp add: CapabilitySet_insert_def CapabilitySet_covers_def)
  ultimately show ?thesis
    using set_inv_insert [OF assms(1,2)] covers_insert [OF assms(2)] t by simp
qed

theorem set_insert_exact_witness:
  "set_inv \<lparr>members = [ex_root]\<rparr> \<and> CapabilitySet_covers \<lparr>members = [ex_root]\<rparr> ex_child"
proof -
  have run: "CapabilitySet_insert ex_root \<lparr>members = [ex_child]\<rparr> = (\<lparr>members = [ex_root]\<rparr>, True)"
    by code_simp
  have "set_inv \<lparr>members = [ex_child]\<rparr>" using ex_wf by (simp add: set_inv_def)
  from set_insert_exact [OF this ex_wf(1) run] show ?thesis using ex_contains by blast
qed

text \<open>
  C6. A capability set is a canonical form of the authority it was built from: two lists of well-formed
  capabilities that cover the same capabilities, in any order and with any redundancy, build the
  same value, and what it covers is exactly what some item of the list contains.
\<close>

theorem set_is_canonical:
  assumes "\<forall>c \<in> set items. wf_Capability c" "\<forall>c \<in> set others. wf_Capability c"
  shows "set_inv (CapabilitySet_from_capabilities items) \<and>
    (CapabilitySet_covers (CapabilitySet_from_capabilities items) x \<longleftrightarrow> (\<exists>c \<in> set items. Capability_contains c x)) \<and>
    ((\<forall>y. wf_Capability y \<longrightarrow>
        (\<exists>c \<in> set items. Capability_contains c y) = (\<exists>c \<in> set others. Capability_contains c y)) \<longrightarrow>
     CapabilitySet_from_capabilities items = CapabilitySet_from_capabilities others)"
  using set_inv_from_capabilities [OF assms(1)] set_inv_from_capabilities [OF assms(2)]
    covers_from_capabilities [OF assms(1)] covers_from_capabilities [OF assms(2)]
  by (auto intro: set_inv_canonical)

theorem set_is_canonical_witness:
  "CapabilitySet_from_capabilities [ex_child, ex_root, ex_child] = CapabilitySet_from_capabilities [ex_root]"
proof -
  have "Capability_contains ex_root y" if "Capability_contains ex_child y" for y
    using ex_contains that by (rule cap.covers_trans)
  then show ?thesis
    using set_is_canonical [of "[ex_child, ex_root, ex_child]" "[ex_root]"] ex_wf by auto
qed

text \<open>
  C14. Set containment, checked member by member, is inclusion of coverage, and it never grants an access:
  every access authorised by some member of the contained set is authorised by one member of the
  containing one.
\<close>

theorem set_containment_is_coverage:
  assumes "set_inv s"
  shows "(CapabilitySet_is_contained_by s t \<longleftrightarrow>
      (\<forall>x. CapabilitySet_covers s x \<longrightarrow> CapabilitySet_covers t x)) \<and>
    (CapabilitySet_is_contained_by s t \<and> (\<exists>c \<in> set (members s). Capability_permits c v r u) \<longrightarrow>
      (\<exists>c \<in> set (members t). Capability_permits c v r u))"
proof -
  have "\<exists>d \<in> set (members t). Capability_permits d v r u"
    if "CapabilitySet_is_contained_by s t" "c \<in> set (members s)" "Capability_permits c v r u" for c
    using that contains_permits
    by (force simp: CapabilitySet_is_contained_by_def CapabilitySet_covers_def list_all_iff list_ex_iff)
  then show ?thesis using is_contained_by_covers [OF assms] by blast
qed

theorem set_containment_is_coverage_witness:
  "CapabilitySet_is_contained_by \<lparr>members = [ex_child]\<rparr> \<lparr>members = [ex_root]\<rparr> \<and>
   Capability_permits ex_root ex_verb ex_resource ex_usage"
proof -
  have "set_inv \<lparr>members = [ex_child]\<rparr>" using ex_wf by (simp add: set_inv_def)
  moreover have "CapabilitySet_is_contained_by \<lparr>members = [ex_child]\<rparr> \<lparr>members = [ex_root]\<rparr>" by code_simp
  ultimately show ?thesis
    using set_containment_is_coverage [of "\<lparr>members = [ex_child]\<rparr>" "\<lparr>members = [ex_root]\<rparr>"
        ex_verb ex_resource ex_usage] ex_permits by simp
qed

section \<open>Text\<close>

text \<open>
  C4. What the parser accepts is a well-formed declaration, and printing it gives a text of the same
  number of characters, which parses back to the same declaration: the canonical form never
  outgrows the limit the parser enforces.
\<close>

theorem parse_canonical_roundtrip:
  assumes "parse t = Ok s"
  shows "wf_CapabilitySpec s \<and> chars_count (CapabilitySpec_to_string s) = chars_count t \<and>
    chars_count t \<le> MAX_CAPABILITY_CHARS \<and> parse (CapabilitySpec_to_string s) = Ok s"
  using parse_Ok [OF assms] parse_print [of s] by simp

definition ex_text :: string where
  "ex_text = ''network.https:*.example.com:443?max_requests=5&methods=PUT,GET''"

theorem parse_canonical_roundtrip_witness:
  "\<exists>s. parse ex_text = Ok s \<and>
     CapabilitySpec_to_string s = ''network.https:*.example.com:443?methods=GET,PUT&max_requests=5'' \<and>
     parse (CapabilitySpec_to_string s) = Ok s"
proof -
  define s where "s = projr (parse ex_text)"
  have "is_ok (parse ex_text)" by code_simp
  then have ok: "parse ex_text = Ok s" by (cases "parse ex_text") (simp_all add: s_def)
  have "CapabilitySpec_to_string (projr (parse ex_text)) =
      ''network.https:*.example.com:443?methods=GET,PUT&max_requests=5''" by code_simp
  then have "CapabilitySpec_to_string s = ''network.https:*.example.com:443?methods=GET,PUT&max_requests=5''"
    unfolding s_def .
  moreover have "parse (CapabilitySpec_to_string s) = Ok s" using parse_canonical_roundtrip [OF ok] by blast
  ultimately show ?thesis using ok by blast
qed

text \<open>
  C15. Every well-formed declaration whose canonical text is within the limit parses from that text to
  itself, so two such declarations with the same text are the same declaration.
\<close>

theorem print_parse_identity:
  assumes "wf_CapabilitySpec s" "chars_count (CapabilitySpec_to_string s) \<le> MAX_CAPABILITY_CHARS"
  shows "parse (CapabilitySpec_to_string s) = Ok s \<and>
    (wf_CapabilitySpec s' \<and> CapabilitySpec_to_string s' = CapabilitySpec_to_string s \<longrightarrow> s' = s)"
proof (intro conjI impI)
  show print: "parse (CapabilitySpec_to_string s) = Ok s" by (rule parse_print [OF assms])
  assume "wf_CapabilitySpec s' \<and> CapabilitySpec_to_string s' = CapabilitySpec_to_string s"
  then have "parse (CapabilitySpec_to_string s) = Ok s'" using parse_print [of s'] assms(2) by metis
  with print show "s' = s" by simp
qed

definition ex_spec :: CapabilitySpec where
  "ex_spec = \<lparr>spec_verb = Verb_of Fs Read, spec_scope = SpecDeclaredPath ''/srv/data'',
     spec_constraints = ConstraintSet_unconstrained\<lparr>cs_max_bytes := Some 4096\<rparr>\<rparr>"

lemma ex_spec_wf: "wf_CapabilitySpec ex_spec"
proof -
  have "ConstraintSet_has (spec_constraints ex_spec) n \<Longrightarrow> ConstraintName_applies_to n (spec_verb ex_spec)" for n
    by (cases n) (auto simp: ex_spec_def Verb_of_def ConstraintSet_unconstrained_def)
  moreover have "declared_path_ok ''/srv/data''" by code_simp
  moreover have "spec_fits (SpecDeclaredPath ''/srv/data'') (Verb_scope_family (Verb_of Fs Read))" by code_simp
  moreover have "wf_ConstraintSet (spec_constraints ex_spec)"
    by (simp add: ex_spec_def wf_ConstraintSet_def ConstraintSet_unconstrained_def)
  ultimately show ?thesis
    unfolding wf_CapabilitySpec_fits by (simp add: ex_spec_def Verb_ALL_def)
qed

theorem print_parse_identity_witness: "parse ''fs.read:/srv/data?max_bytes=4096'' = Ok ex_spec"
proof -
  have t: "CapabilitySpec_to_string ex_spec = ''fs.read:/srv/data?max_bytes=4096''" by code_simp
  have "chars_count ''fs.read:/srv/data?max_bytes=4096'' \<le> MAX_CAPABILITY_CHARS" by code_simp
  then show ?thesis using print_parse_identity [OF ex_spec_wf, of ex_spec] t by simp
qed

text \<open>
  C16. Promotion of a parsed declaration is decided by its scope alone: a family that is its own identity
  always resolves, to a well-formed capability with the same canonical text; a declared path or
  executable never does without a canonical identity, and given one it always does.
\<close>

theorem resolve_decided_by_scope:
  assumes "parse t = Ok s"
  shows "(CapabilitySpec_needs_resolution s \<longrightarrow>
      (\<exists>e. CapabilitySpec_resolve s = Err e) \<and>
      (\<exists>c. CapabilitySpec_resolve_path s p = Ok c \<and> wf_Capability c \<and> cap_scope c = ScopePath p \<or>
           CapabilitySpec_resolve_executable s i = Ok c \<and> wf_Capability c \<and> cap_scope c = ScopeExecutable i)) \<and>
    (\<not> CapabilitySpec_needs_resolution s \<longrightarrow>
      (\<exists>c. CapabilitySpec_resolve s = Ok c \<and> wf_Capability c \<and> Capability_to_string c = CapabilitySpec_to_string s) \<and>
      (\<exists>e. CapabilitySpec_resolve_path s p = Err e) \<and> (\<exists>e. CapabilitySpec_resolve_executable s i = Err e))"
proof -
  have wf: "wf_CapabilitySpec s" using parse_Ok(1) [OF assms] .
  have new: "Capability_new (spec_verb s) x (spec_constraints s) =
      Ok \<lparr>cap_verb = spec_verb s, cap_scope = x, cap_constraints = spec_constraints s\<rparr>"
    "wf_Capability \<lparr>cap_verb = spec_verb s, cap_scope = x, cap_constraints = spec_constraints s\<rparr>"
    if "Scope_family x = ScopeSpec_family (spec_scope s)" for x
    using wf that
    by (auto simp: Capability_new_Ok wf_CapabilitySpec_def wf_Capability_def Scope_fits_def split: option.splits)
  show ?thesis
    by (cases "spec_scope s")
      (auto simp: CapabilitySpec_needs_resolution_def CapabilitySpec_resolve_def CapabilitySpec_resolve_path_def
        CapabilitySpec_resolve_executable_def Capability_to_string_def CapabilitySpec_to_string_def new)
qed

theorem resolve_decided_by_scope_witness:
  "\<exists>s c. parse ex_text = Ok s \<and> CapabilitySpec_resolve s = Ok c \<and> wf_Capability c"
proof -
  define s where "s = projr (parse ex_text)"
  have "is_ok (parse ex_text)" by code_simp
  then have ok: "parse ex_text = Ok s" by (cases "parse ex_text") (simp_all add: s_def)
  have "\<not> CapabilitySpec_needs_resolution (projr (parse ex_text))" by code_simp
  then show ?thesis using ok resolve_decided_by_scope [OF ok] s_def by blast
qed

text \<open>
  C23. The strict integer readers of the constraint grammar accept exactly the canonical decimal
  spelling of a value of their width: no sign, no leading zero, no overflow.
\<close>

theorem strict_integers_exact:
  "(parse_u64_strict t = Ok a \<longleftrightarrow> t = show_nat (unat a)) \<and>
   (parse_u32_strict t = Ok b \<longleftrightarrow> t = show_nat (unat b)) \<and>
   (parse_u16_strict t = Ok c \<longleftrightarrow> t = show_nat (unat c))"
  by (simp add: u64_strict_Ok u32_strict_Ok u16_strict_Ok)

end
