(* ===== verification/Pol_Vocab.thy ===== *)
theory Pol_Vocab
  imports Cap_Authority
begin

unbundle bit_operations_syntax

text \<open>
  The vocabulary of the policy engine (\<^verbatim>\<open>policy/effect.rs\<close>, \<^verbatim>\<open>reason.rs\<close>,
  \<^verbatim>\<open>action.rs\<close>, \<^verbatim>\<open>context.rs\<close>, \<^verbatim>\<open>obligation.rs\<close>, \<^verbatim>\<open>approval.rs\<close>, and the
  identifiers of \<^verbatim>\<open>mod.rs\<close> and \<^verbatim>\<open>rule.rs\<close>): effects and their order, reasons, the
  canonical action, the run's context, the obligations of a permission and the shape of an approval.
\<close>

section \<open>Effects\<close>

datatype Effect = Allow | RequireApproval | Deny

definition Effect_ALL :: "Effect list" where
  "Effect_ALL = [Deny, RequireApproval, Allow]"

fun Effect_as_str :: "Effect \<Rightarrow> string" where
  "Effect_as_str Allow = ''ALLOW''"
| "Effect_as_str RequireApproval = ''REQUIRE_APPROVAL''"
| "Effect_as_str Deny = ''DENY''"

definition Effect_parse :: "string \<Rightarrow> Effect option" where
  "Effect_parse text = find (\<lambda>e. Effect_as_str e = text) Effect_ALL"

fun Effect_authority :: "Effect \<Rightarrow> nat" where
  "Effect_authority Deny = 0"
| "Effect_authority RequireApproval = 1"
| "Effect_authority Allow = 2"

definition Effect_narrower_or_equal :: "Effect \<Rightarrow> Effect \<Rightarrow> bool" where
  "Effect_narrower_or_equal self other \<longleftrightarrow> Effect_authority self \<le> Effect_authority other"

definition Effect_strictly_narrower :: "Effect \<Rightarrow> Effect \<Rightarrow> bool" where
  "Effect_strictly_narrower self other \<longleftrightarrow> Effect_authority self < Effect_authority other"

definition Effect_meet :: "Effect \<Rightarrow> Effect \<Rightarrow> Effect" where
  "Effect_meet self other = (if Effect_narrower_or_equal self other then self else other)"

section \<open>Reasons\<close>

datatype Reason =
  SelfModification | SensitivePath | SandboxEscapeVector | DestructiveInWorkspace | UnknownExecutable
| HostExecutionDisabled | UntrustedContentInRun | NoHumanAvailable | ProfileCeiling | NoMatchingRule
| PermittedByRule | UnresolvedCanonicalInput

definition Reason_ALL :: "Reason list" where
  "Reason_ALL = [SelfModification, SensitivePath, SandboxEscapeVector, DestructiveInWorkspace,
     UnknownExecutable, HostExecutionDisabled, UntrustedContentInRun, NoHumanAvailable, ProfileCeiling,
     NoMatchingRule, PermittedByRule, UnresolvedCanonicalInput]"

fun Reason_as_str :: "Reason \<Rightarrow> string" where
  "Reason_as_str SelfModification = ''SELF_MODIFICATION''"
| "Reason_as_str SensitivePath = ''SENSITIVE_PATH''"
| "Reason_as_str SandboxEscapeVector = ''SANDBOX_ESCAPE_VECTOR''"
| "Reason_as_str DestructiveInWorkspace = ''DESTRUCTIVE_IN_WORKSPACE''"
| "Reason_as_str UnknownExecutable = ''UNKNOWN_EXECUTABLE''"
| "Reason_as_str HostExecutionDisabled = ''HOST_EXECUTION_DISABLED''"
| "Reason_as_str UntrustedContentInRun = ''UNTRUSTED_CONTENT_IN_RUN''"
| "Reason_as_str NoHumanAvailable = ''NO_HUMAN_AVAILABLE''"
| "Reason_as_str ProfileCeiling = ''PROFILE_CEILING''"
| "Reason_as_str NoMatchingRule = ''NO_MATCHING_RULE''"
| "Reason_as_str PermittedByRule = ''PERMITTED_BY_RULE''"
| "Reason_as_str UnresolvedCanonicalInput = ''UNRESOLVED_CANONICAL_INPUT''"

definition Reason_parse :: "string \<Rightarrow> Reason option" where
  "Reason_parse text = find (\<lambda>r. Reason_as_str r = text) Reason_ALL"

definition Reason_is_authorable :: "Reason \<Rightarrow> bool" where
  "Reason_is_authorable r \<longleftrightarrow> \<not> (r = PermittedByRule \<or> r = UnresolvedCanonicalInput)"

section \<open>The action\<close>

datatype Environment = Sandbox | Host

definition Environment_ALL :: "Environment list" where
  "Environment_ALL = [Sandbox, Host]"

fun Environment_as_str :: "Environment \<Rightarrow> string" where
  "Environment_as_str Sandbox = ''sandbox''"
| "Environment_as_str Host = ''host''"

definition Environment_parse :: "string \<Rightarrow> Environment option" where
  "Environment_parse text = find (\<lambda>e. Environment_as_str e = text) Environment_ALL"

datatype ArgvSafety = Safe | Reinterpreting

definition ArgvSafety_from_rule_flag :: "bool \<Rightarrow> ArgvSafety" where
  "ArgvSafety_from_rule_flag safe = (if safe then Safe else Reinterpreting)"

datatype Novelty = Novel | Seen

definition Novelty_from_rule_flag :: "bool \<Rightarrow> Novelty" where
  "Novelty_from_rule_flag novel = (if novel then Novel else Seen)"

text \<open>The octets of an address are an array of four or of sixteen bytes.\<close>

datatype IpAddress = V4 "8 word list" | V6 "8 word list"

fun IpAddress_octets :: "IpAddress \<Rightarrow> 8 word list" where
  "IpAddress_octets (V4 os) = os"
| "IpAddress_octets (V6 os) = os"

fun IpAddress_bits :: "IpAddress \<Rightarrow> nat" where
  "IpAddress_bits (V4 _) = 32"
| "IpAddress_bits (V6 _) = 128"

definition wf_IpAddress :: "IpAddress \<Rightarrow> bool" where
  "wf_IpAddress a \<longleftrightarrow> 8 * length (IpAddress_octets a) = IpAddress_bits a"

text \<open>\<^verbatim>\<open>{:04x}\<close> of a pair of octets is the two hexadecimal bytes one after the other.\<close>

fun hex_groups :: "8 word list \<Rightarrow> string list" where
  "hex_groups (high # low # rest) = (hex_byte high @ hex_byte low) # hex_groups rest"
| "hex_groups _ = []"

fun IpAddress_to_string :: "IpAddress \<Rightarrow> string" where
  "IpAddress_to_string (V4 os) = join_on CHR ''.'' (map (\<lambda>b. show_nat (unat b)) os)"
| "IpAddress_to_string (V6 os) = join_on CHR '':'' (hex_groups os)"

record CanonicalAction =
  act_capability :: Capability
  act_environment :: Environment
  act_argv_safety :: "ArgvSafety option"
  act_byte_count :: "64 word option"
  act_destination_ip :: "IpAddress option"
  act_destination_novelty :: "Novelty option"

definition CanonicalAction_new :: "Capability \<Rightarrow> Environment \<Rightarrow> CanonicalAction" where
  "CanonicalAction_new c e = \<lparr>act_capability = c, act_environment = e, act_argv_safety = None,
     act_byte_count = None, act_destination_ip = None, act_destination_novelty = None\<rparr>"

section \<open>The context\<close>

datatype Origin = Interactive | Scheduled | OriginChannel | Subagent | Api

definition Origin_ALL :: "Origin list" where
  "Origin_ALL = [Interactive, Scheduled, OriginChannel, Subagent, Api]"

fun Origin_as_str :: "Origin \<Rightarrow> string" where
  "Origin_as_str Interactive = ''interactive''"
| "Origin_as_str Scheduled = ''scheduled''"
| "Origin_as_str OriginChannel = ''channel''"
| "Origin_as_str Subagent = ''subagent''"
| "Origin_as_str Api = ''api''"

definition Origin_parse :: "string \<Rightarrow> Origin option" where
  "Origin_parse text = find (\<lambda>x. Origin_as_str x = text) Origin_ALL"

definition Origin_attended :: "Origin \<Rightarrow> bool" where
  "Origin_attended x \<longleftrightarrow> x = Interactive"

datatype TaintLevel = TaintNone | LocalUnverified | ExternalUntrusted

definition TaintLevel_ALL :: "TaintLevel list" where
  "TaintLevel_ALL = [TaintNone, LocalUnverified, ExternalUntrusted]"

fun TaintLevel_as_str :: "TaintLevel \<Rightarrow> string" where
  "TaintLevel_as_str TaintNone = ''NONE''"
| "TaintLevel_as_str LocalUnverified = ''LOCAL_UNVERIFIED''"
| "TaintLevel_as_str ExternalUntrusted = ''EXTERNAL_UNTRUSTED''"

definition TaintLevel_parse :: "string \<Rightarrow> TaintLevel option" where
  "TaintLevel_parse text = find (\<lambda>x. TaintLevel_as_str x = text) TaintLevel_ALL"

datatype StandingGrantState = Unavailable

fun StandingGrantState_is_held :: "StandingGrantState \<Rightarrow> bool" where
  "StandingGrantState_is_held Unavailable = False"

datatype ConfigKey = SecurityAllowHostExecution

definition ConfigKey_ALL :: "ConfigKey list" where
  "ConfigKey_ALL = [SecurityAllowHostExecution]"

fun ConfigKey_as_str :: "ConfigKey \<Rightarrow> string" where
  "ConfigKey_as_str SecurityAllowHostExecution = ''security.allow_host_execution''"

definition ConfigKey_parse :: "string \<Rightarrow> ConfigKey option" where
  "ConfigKey_parse text = find (\<lambda>k. ConfigKey_as_str k = text) ConfigKey_ALL"

record ConfigFlags =
  security_allow_host_execution :: bool

fun ConfigFlags_is_set :: "ConfigFlags \<Rightarrow> ConfigKey \<Rightarrow> bool" where
  "ConfigFlags_is_set flags SecurityAllowHostExecution = security_allow_host_execution flags"

datatype PathAnchor = Workspace | DirewolfHome | DirewolfConfig | DirewolfInstall | Home | Absolute

definition PathAnchor_SYMBOLIC :: "PathAnchor list" where
  "PathAnchor_SYMBOLIC = [Workspace, DirewolfHome, DirewolfConfig, DirewolfInstall, Home]"

fun PathAnchor_as_str :: "PathAnchor \<Rightarrow> string option" where
  "PathAnchor_as_str Workspace = Some ''${WORKSPACE}''"
| "PathAnchor_as_str DirewolfHome = Some ''${DIREWOLF_HOME}''"
| "PathAnchor_as_str DirewolfConfig = Some ''${DIREWOLF_CONFIG}''"
| "PathAnchor_as_str DirewolfInstall = Some ''${DIREWOLF_INSTALL}''"
| "PathAnchor_as_str Home = Some ''~''"
| "PathAnchor_as_str Absolute = None"

record PathAnchors =
  anchor_workspace :: "CanonicalPath option"
  anchor_direwolf_home :: "CanonicalPath option"
  anchor_direwolf_config :: "CanonicalPath option"
  anchor_direwolf_install :: "CanonicalPath option"
  anchor_home :: "CanonicalPath option"

definition PathAnchors_empty :: PathAnchors where
  "PathAnchors_empty = \<lparr>anchor_workspace = None, anchor_direwolf_home = None,
     anchor_direwolf_config = None, anchor_direwolf_install = None, anchor_home = None\<rparr>"

fun PathAnchors_get :: "PathAnchors \<Rightarrow> PathAnchor \<Rightarrow> CanonicalPath option" where
  "PathAnchors_get self Workspace = anchor_workspace self"
| "PathAnchors_get self DirewolfHome = anchor_direwolf_home self"
| "PathAnchors_get self DirewolfConfig = anchor_direwolf_config self"
| "PathAnchors_get self DirewolfInstall = anchor_direwolf_install self"
| "PathAnchors_get self Home = anchor_home self"
| "PathAnchors_get self Absolute = None"

record PolicyContext =
  ctx_origin :: Origin
  ctx_taint :: TaintLevel
  ctx_privacy :: PrivacyClass
  ctx_standing_grant :: StandingGrantState
  ctx_config :: ConfigFlags
  ctx_anchors :: PathAnchors

definition PolicyContext_new :: "Origin \<Rightarrow> TaintLevel \<Rightarrow> PolicyContext" where
  "PolicyContext_new origin taint = \<lparr>ctx_origin = origin, ctx_taint = taint, ctx_privacy = LocalOnly,
     ctx_standing_grant = Unavailable, ctx_config = \<lparr>security_allow_host_execution = False\<rparr>,
     ctx_anchors = PathAnchors_empty\<rparr>"

definition CanonicalAction_with_argv_safety :: "ArgvSafety \<Rightarrow> CanonicalAction \<Rightarrow> CanonicalAction" where
  "CanonicalAction_with_argv_safety x self = self\<lparr>act_argv_safety := Some x\<rparr>"

definition CanonicalAction_with_byte_count :: "64 word \<Rightarrow> CanonicalAction \<Rightarrow> CanonicalAction" where
  "CanonicalAction_with_byte_count x self = self\<lparr>act_byte_count := Some x\<rparr>"

definition CanonicalAction_with_destination_ip :: "IpAddress \<Rightarrow> CanonicalAction \<Rightarrow> CanonicalAction" where
  "CanonicalAction_with_destination_ip x self = self\<lparr>act_destination_ip := Some x\<rparr>"

definition CanonicalAction_with_destination_novelty :: "Novelty \<Rightarrow> CanonicalAction \<Rightarrow> CanonicalAction" where
  "CanonicalAction_with_destination_novelty x self = self\<lparr>act_destination_novelty := Some x\<rparr>"

definition PolicyContext_with_privacy :: "PrivacyClass \<Rightarrow> PolicyContext \<Rightarrow> PolicyContext" where
  "PolicyContext_with_privacy x self = self\<lparr>ctx_privacy := x\<rparr>"

definition PolicyContext_with_config :: "ConfigFlags \<Rightarrow> PolicyContext \<Rightarrow> PolicyContext" where
  "PolicyContext_with_config x self = self\<lparr>ctx_config := x\<rparr>"

definition PolicyContext_with_anchors :: "PathAnchors \<Rightarrow> PolicyContext \<Rightarrow> PolicyContext" where
  "PolicyContext_with_anchors x self = self\<lparr>ctx_anchors := x\<rparr>"

section \<open>Limits and value errors\<close>

definition MAX_SOURCE_NAME_CHARS :: nat where "MAX_SOURCE_NAME_CHARS = 128"
definition MAX_RULE_ID_CHARS :: nat where "MAX_RULE_ID_CHARS = 64"
definition MAX_PROFILE_NAME_CHARS :: nat where "MAX_PROFILE_NAME_CHARS = 64"
definition MAX_PROFILE_REF_CHARS :: nat where "MAX_PROFILE_REF_CHARS = 64"
definition MAX_OBLIGATIONS_PER_RULE :: nat where "MAX_OBLIGATIONS_PER_RULE = 8"
definition MAX_PATH_SEGMENTS :: nat where "MAX_PATH_SEGMENTS = 32"
definition MAX_EXTENDS_DEPTH :: nat where "MAX_EXTENDS_DEPTH = 4"
definition MAX_APPROVAL_TTL_SECONDS :: nat where "MAX_APPROVAL_TTL_SECONDS = 24 * 60 * 60"
definition MAX_APPROVAL_USES :: nat where "MAX_APPROVAL_USES = 1000"

datatype PolicyValueError =
  UnknownEffect | UnknownReason | UnknownObligation | ObligationParameter | DuplicateObligation
| TooManyObligations | TtlError | ApprovalUses | UnknownApprovalScope | UnknownVerb | UnknownOrigin
| UnknownTaintLevel | PolicyUnknownPrivacyClass | UnknownEnvironment | UnknownConfigKey | UnknownPathAnchor
| PolicyMalformedPath | PolicyMalformedHost | MalformedCidr | MalformedRuleId | MalformedProfileName
| NumericRange | EmptyList | DuplicateListItem | TooManyListItems | StringTooLong

section \<open>Identifiers\<close>

text \<open>The text contains two adjacent hyphens.\<close>

fun contains_double :: "char \<Rightarrow> string \<Rightarrow> bool" where
  "contains_double c (x # y # s) \<longleftrightarrow> x = c \<and> y = c \<or> contains_double c (y # s)"
| "contains_double c _ \<longleftrightarrow> False"

definition is_lower_kebab :: "string \<Rightarrow> nat \<Rightarrow> bool" where
  "is_lower_kebab text max_chars \<longleftrightarrow>
     \<not> (text = [] \<or> max_chars < length text) \<and>
     \<not> (\<not> is_ascii_lowercase (hd text) \<or> last text = CHR ''-'') \<and>
     \<not> contains_double CHR ''-'' text \<and>
     list_all (\<lambda>b. is_ascii_lowercase b \<or> is_ascii_digit b \<or> b = CHR ''-'') text"

type_synonym ProfileName = string
type_synonym RuleId = string
type_synonym ProfileRef = string

definition ProfileName_new :: "string \<Rightarrow> (ProfileName, PolicyValueError) result" where
  "ProfileName_new text =
     (if is_lower_kebab text MAX_PROFILE_NAME_CHARS then Ok text else Err MalformedProfileName)"

definition ProfileRef_new :: "string \<Rightarrow> ProfileRef option" where
  "ProfileRef_new text = (if is_lower_kebab text MAX_PROFILE_REF_CHARS then Some text else None)"

definition RuleId_DEFAULT :: string where "RuleId_DEFAULT = ''default''"

definition RuleId_new :: "string \<Rightarrow> RuleId option" where
  "RuleId_new text = (if is_lower_kebab text MAX_RULE_ID_CHARS then Some text else None)"

definition RuleId_is_default :: "RuleId \<Rightarrow> bool" where
  "RuleId_is_default r \<longleftrightarrow> r = RuleId_DEFAULT"

record SourceLocation =
  loc_source :: string
  loc_line :: "32 word"

definition SourceLocation_new :: "string \<Rightarrow> 32 word \<Rightarrow> SourceLocation option" where
  "SourceLocation_new source line =
     (let chars = chars_count source
      in if source = [] \<or> MAX_SOURCE_NAME_CHARS < chars \<or> line = 0 then None
         else Some \<lparr>loc_source = source, loc_line = line\<rparr>)"

definition SourceLocation_synthetic :: SourceLocation where
  "SourceLocation_synthetic = \<lparr>loc_source = ''<load>'', loc_line = 1\<rparr>"

section \<open>Obligations\<close>

datatype AuditLevel = Full

fun AuditLevel_as_str :: "AuditLevel \<Rightarrow> string" where
  "AuditLevel_as_str Full = ''full''"

datatype Obligation =
  ForceEnvironment ProfileRef | MaxOutputBytes "64 word" | RequireArtifactCapture
| RedactProfile ProfileRef | NetworkDeny | ReadOnlyWorkspace | ObligationAuditLevel AuditLevel
| SingleUseOnly | ForceQuarantinedRead | WorkspaceExecHygiene

fun Obligation_name :: "Obligation \<Rightarrow> string" where
  "Obligation_name (ForceEnvironment _) = ''force_environment''"
| "Obligation_name (MaxOutputBytes _) = ''max_output_bytes''"
| "Obligation_name RequireArtifactCapture = ''require_artifact_capture''"
| "Obligation_name (RedactProfile _) = ''redact_profile''"
| "Obligation_name NetworkDeny = ''network_deny''"
| "Obligation_name ReadOnlyWorkspace = ''read_only_workspace''"
| "Obligation_name (ObligationAuditLevel _) = ''audit_level''"
| "Obligation_name SingleUseOnly = ''single_use_only''"
| "Obligation_name ForceQuarantinedRead = ''force_quarantined_read''"
| "Obligation_name WorkspaceExecHygiene = ''workspace_exec_hygiene''"

definition obligation_require :: "string option \<Rightarrow> (string, PolicyValueError) result" where
  "obligation_require argument = ok_or argument ObligationParameter"

definition obligation_flag :: "string option \<Rightarrow> Obligation \<Rightarrow> (Obligation, PolicyValueError) result" where
  "obligation_flag argument value =
     (case argument of None \<Rightarrow> Ok value | Some _ \<Rightarrow> Err ObligationParameter)"

definition parse_byte_cap :: "string \<Rightarrow> (64 word, PolicyValueError) result" where
  "parse_byte_cap raw =
     (if raw = [] \<or> \<not> list_all is_ascii_digit raw then Err ObligationParameter
      else if nat_of_digits raw = 0 \<or> \<not> nat_of_digits raw < 2 ^ 64 then Err ObligationParameter
      else Ok (of_nat (nat_of_digits raw)))"

definition Obligation_parse :: "string \<Rightarrow> (Obligation, PolicyValueError) result" where
  "Obligation_parse text =
     (let (name, argument) = (case split_once CHR ''='' text of Some (n, a) \<Rightarrow> (n, Some a) | None \<Rightarrow> (text, None))
      in if name = ''force_environment'' then
           and_then (obligation_require argument) (\<lambda>a. ok_or (map_option ForceEnvironment (ProfileRef_new a)) ObligationParameter)
         else if name = ''redact_profile'' then
           and_then (obligation_require argument) (\<lambda>a. ok_or (map_option RedactProfile (ProfileRef_new a)) ObligationParameter)
         else if name = ''max_output_bytes'' then
           and_then (obligation_require argument) (\<lambda>a. and_then (parse_byte_cap a) (\<lambda>n. Ok (MaxOutputBytes n)))
         else if name = ''audit_level'' then
           and_then (obligation_require argument)
             (\<lambda>a. if a = ''full'' then Ok (ObligationAuditLevel Full) else Err ObligationParameter)
         else if name = ''require_artifact_capture'' then obligation_flag argument RequireArtifactCapture
         else if name = ''network_deny'' then obligation_flag argument NetworkDeny
         else if name = ''read_only_workspace'' then obligation_flag argument ReadOnlyWorkspace
         else if name = ''single_use_only'' then obligation_flag argument SingleUseOnly
         else if name = ''force_quarantined_read'' then obligation_flag argument ForceQuarantinedRead
         else if name = ''workspace_exec_hygiene'' then obligation_flag argument WorkspaceExecHygiene
         else Err UnknownObligation)"

fun Obligation_to_string :: "Obligation \<Rightarrow> string" where
  "Obligation_to_string (ForceEnvironment p) = ''force_environment='' @ p"
| "Obligation_to_string (RedactProfile p) = ''redact_profile='' @ p"
| "Obligation_to_string (MaxOutputBytes n) = ''max_output_bytes='' @ show_nat (unat n)"
| "Obligation_to_string (ObligationAuditLevel level) = ''audit_level='' @ AuditLevel_as_str level"
| "Obligation_to_string ob = Obligation_name ob"

text \<open>The derived order: the variant's position, then its payload.\<close>

fun Obligation_key :: "Obligation \<Rightarrow> okey" where
  "Obligation_key (ForceEnvironment p) = KL [KN 0, key_str p]"
| "Obligation_key (MaxOutputBytes n) = KL [KN 1, KN (unat n)]"
| "Obligation_key RequireArtifactCapture = KL [KN 2]"
| "Obligation_key (RedactProfile p) = KL [KN 3, key_str p]"
| "Obligation_key NetworkDeny = KL [KN 4]"
| "Obligation_key ReadOnlyWorkspace = KL [KN 5]"
| "Obligation_key (ObligationAuditLevel Full) = KL [KN 6, KL [KN 0]]"
| "Obligation_key SingleUseOnly = KL [KN 7]"
| "Obligation_key ForceQuarantinedRead = KL [KN 8]"
| "Obligation_key WorkspaceExecHygiene = KL [KN 9]"

type_synonym Obligations = "Obligation list"

definition Obligations_none :: Obligations where "Obligations_none = []"

fun any_window :: "('a \<Rightarrow> 'a \<Rightarrow> bool) \<Rightarrow> 'a list \<Rightarrow> bool" where
  "any_window P (a # b # rest) \<longleftrightarrow> P a b \<or> any_window P (b # rest)"
| "any_window P _ \<longleftrightarrow> False"

definition Obligations_new :: "Obligation list \<Rightarrow> (Obligations, PolicyValueError) result" where
  "Obligations_new obligations =
     (if MAX_OBLIGATIONS_PER_RULE < length obligations then Err TooManyObligations
      else let sorted_obs = sort_key Obligation_key obligations
           in if any_window (\<lambda>a b. Obligation_name a = Obligation_name b) sorted_obs
              then Err DuplicateObligation else Ok sorted_obs)"

definition Obligations_to_string :: "Obligations \<Rightarrow> string" where
  "Obligations_to_string obs = join_on CHR '','' (map Obligation_to_string obs)"

section \<open>Approvals\<close>

datatype ApprovalScopeKind =
  ExactAction | PathSet | ExecutableAndArgv | PathSubtree | HostAndMethods | CredentialUse

definition ApprovalScopeKind_ALL :: "ApprovalScopeKind list" where
  "ApprovalScopeKind_ALL = [ExactAction, PathSet, ExecutableAndArgv, PathSubtree, HostAndMethods, CredentialUse]"

fun ApprovalScopeKind_as_str :: "ApprovalScopeKind \<Rightarrow> string" where
  "ApprovalScopeKind_as_str ExactAction = ''exact_action''"
| "ApprovalScopeKind_as_str PathSet = ''path_set''"
| "ApprovalScopeKind_as_str ExecutableAndArgv = ''executable_and_argv''"
| "ApprovalScopeKind_as_str PathSubtree = ''path_subtree''"
| "ApprovalScopeKind_as_str HostAndMethods = ''host_and_methods''"
| "ApprovalScopeKind_as_str CredentialUse = ''credential_use''"

definition ApprovalScopeKind_parse :: "string \<Rightarrow> ApprovalScopeKind option" where
  "ApprovalScopeKind_parse text = find (\<lambda>k. ApprovalScopeKind_as_str k = text) ApprovalScopeKind_ALL"

type_synonym Ttl = "32 word"

definition Ttl_unit :: "string \<Rightarrow> nat option" where
  "Ttl_unit unit = (if unit = ''s'' then Some 1 else if unit = ''m'' then Some 60
     else if unit = ''h'' then Some 3600 else None)"

definition Ttl_parse :: "string \<Rightarrow> (Ttl, PolicyValueError) result" where
  "Ttl_parse text =
     (let n = length text - 1 in
      if n < length text \<and> is_continuation (text ! n) then Err TtlError
      else let digits = take n text; unit = drop n text in
        and_then (ok_or (Ttl_unit unit) TtlError) (\<lambda>multiplier.
          if digits = [] \<or> \<not> list_all is_ascii_digit digits then Err TtlError
          else if \<not> nat_of_digits digits < 2 ^ 32 then Err TtlError
          else let seconds = nat_of_digits digits * multiplier in
            if \<not> seconds < 2 ^ 32 then Err TtlError
            else if seconds = 0 \<or> MAX_APPROVAL_TTL_SECONDS < seconds then Err TtlError
            else Ok (of_nat seconds)))"

definition Ttl_to_string :: "Ttl \<Rightarrow> string" where
  "Ttl_to_string self =
     (let s = unat self in
      if s mod 3600 = 0 then show_nat (s div 3600) @ ''h''
      else if s mod 60 = 0 then show_nat (s div 60) @ ''m''
      else show_nat s @ ''s'')"

record ApprovalSpec =
  approval_scope :: ApprovalScopeKind
  approval_ttl :: Ttl
  approval_max_uses :: "32 word"

definition ApprovalSpec_new ::
  "ApprovalScopeKind \<Rightarrow> Ttl \<Rightarrow> 32 word \<Rightarrow> (ApprovalSpec, PolicyValueError) result" where
  "ApprovalSpec_new scope ttl max_uses =
     (if max_uses = 0 \<or> MAX_APPROVAL_USES < unat max_uses then Err ApprovalUses
      else Ok \<lparr>approval_scope = scope, approval_ttl = ttl, approval_max_uses = max_uses\<rparr>)"

section \<open>Laws\<close>

lemma Effect_order [simp]:
  "Effect_narrower_or_equal e e" "Effect_narrower_or_equal Deny e" "Effect_narrower_or_equal e Allow"
  "Effect_narrower_or_equal e Deny \<longleftrightarrow> e = Deny"
  by (cases e; simp add: Effect_narrower_or_equal_def)+

lemma Effect_narrower_trans [trans]:
  "Effect_narrower_or_equal a b \<Longrightarrow> Effect_narrower_or_equal b c \<Longrightarrow> Effect_narrower_or_equal a c"
  by (simp add: Effect_narrower_or_equal_def)

lemma Effect_narrower_antisym:
  "Effect_narrower_or_equal a b \<Longrightarrow> Effect_narrower_or_equal b a \<Longrightarrow> a = b"
  by (cases a; cases b) (simp_all add: Effect_narrower_or_equal_def)

interpretation effect: containment "\<lambda>wide narrow. Effect_narrower_or_equal narrow wide" "\<lambda>_. True"
  by unfold_locales (auto intro: Effect_narrower_trans Effect_narrower_antisym)

lemma Effect_meet_lower:
  "Effect_narrower_or_equal (Effect_meet a b) a" "Effect_narrower_or_equal (Effect_meet a b) b"
  by (auto simp: Effect_meet_def Effect_narrower_or_equal_def)

lemma Effect_meet_simps [simp]: "Effect_meet Deny e = Deny" "Effect_meet e Deny = Deny" "Effect_meet e e = e"
  by (auto simp: Effect_meet_def)

lemma Effect_meet_mono:
  "Effect_narrower_or_equal a b \<Longrightarrow> Effect_narrower_or_equal (Effect_meet a c) (Effect_meet b c)"
  by (auto simp: Effect_meet_def Effect_narrower_or_equal_def)

lemma Effect_meet_greatest:
  "Effect_narrower_or_equal e (Effect_meet a b) \<longleftrightarrow> Effect_narrower_or_equal e a \<and> Effect_narrower_or_equal e b"
  by (auto simp: Effect_meet_def Effect_narrower_or_equal_def)

end
