(* ===== verification/Pol_Value.thy ===== *)
theory Pol_Value
  imports Pol_Vocab
begin

unbundle bit_operations_syntax

text \<open>
  The values a rule writes (\<^verbatim>\<open>policy/value.rs\<close>): anchored paths and their component-wise
  containment, executables by name, path or pinned digest, and address ranges, with what each
  comparison means stated apart from the code: prefixes of component lists, and agreement of leading
  bits.
\<close>

section \<open>Rule-side paths\<close>

record RulePath =
  rp_anchor :: PathAnchor
  rp_segments :: "string list"

definition is_path_segment :: "string \<Rightarrow> bool" where
  "is_path_segment segment \<longleftrightarrow> segment \<noteq> [] \<and> segment \<noteq> ''.'' \<and> segment \<noteq> ''..'' \<and> length segment \<le> 255 \<and>
     CHR ''/'' \<notin> set segment \<and> char_of (92::nat) \<notin> set segment \<and> char_of (0::nat) \<notin> set segment"

definition strip_separator :: "string \<Rightarrow> (string, PolicyValueError) result" where
  "strip_separator rest = (if rest = [] then Ok [] else ok_or (strip_prefix ''/'' rest) PolicyMalformedPath)"

definition split_anchor :: "string \<Rightarrow> (PathAnchor \<times> string, PolicyValueError) result" where
  "split_anchor text =
     (case strip_prefix ''${'' text of
        Some rest \<Rightarrow>
          (case split_once CHR ''}'' rest of
             None \<Rightarrow> Err UnknownPathAnchor
           | Some (symbol, rest) \<Rightarrow>
               let full = ''${'' @ symbol @ ''}'' in
               and_then (ok_or (find (\<lambda>a. PathAnchor_as_str a = Some full) PathAnchor_SYMBOLIC) UnknownPathAnchor)
                 (\<lambda>anchor. and_then (strip_separator rest) (\<lambda>body. Ok (anchor, body))))
      | None \<Rightarrow>
          (case strip_prefix ''~'' text of
             Some rest \<Rightarrow> and_then (strip_separator rest) (\<lambda>body. Ok (Home, body))
           | None \<Rightarrow>
               (case strip_prefix ''/'' text of
                  Some rest \<Rightarrow> Ok (Absolute, rest)
                | None \<Rightarrow> Err PolicyMalformedPath)))"

fun parse_segments :: "string list \<Rightarrow> string list \<Rightarrow> (string list, PolicyValueError) result" where
  "parse_segments [] segments = Ok segments"
| "parse_segments (segment # rest) segments =
     (if \<not> is_path_segment segment then Err PolicyMalformedPath else parse_segments rest (segments @ [segment]))"

definition RulePath_parse :: "string \<Rightarrow> (RulePath, PolicyValueError) result" where
  "RulePath_parse text =
     (if text = [] \<or> char_of (0::nat) \<in> set text then Err PolicyMalformedPath
      else and_then (split_anchor text) (\<lambda>(anchor, rest).
        and_then (if rest = [] then Ok [] else parse_segments (split_on CHR ''/'' rest) []) (\<lambda>segments.
          if MAX_PATH_SEGMENTS < length segments then Err PolicyMalformedPath
          else Ok \<lparr>rp_anchor = anchor, rp_segments = segments\<rparr>)))"

definition anchor_root :: "PathAnchors \<Rightarrow> PathAnchor \<Rightarrow> (PathComponent list, PathAnchor) result" where
  "anchor_root anchors anchor =
     (case anchor of Absolute \<Rightarrow> Ok []
      | other \<Rightarrow> and_then (ok_or (PathAnchors_get anchors other) other) (\<lambda>p. Ok (components p)))"

definition RulePath_contains ::
  "RulePath \<Rightarrow> PathAnchors \<Rightarrow> CanonicalPath \<Rightarrow> (bool, PathAnchor) result" where
  "RulePath_contains self anchors candidate =
     and_then (anchor_root anchors (rp_anchor self)) (\<lambda>root.
       let cs = components candidate in
       if length cs < length root + length (rp_segments self) then Ok False
       else if \<not> list_all (\<lambda>(actual, expected). actual = expected) (zip cs root) then Ok False
       else Ok (list_all (\<lambda>(actual, expected). actual = expected) (zip (drop (length root) cs) (rp_segments self))))"

definition RulePath_is_exactly ::
  "RulePath \<Rightarrow> PathAnchors \<Rightarrow> CanonicalPath \<Rightarrow> (bool, PathAnchor) result" where
  "RulePath_is_exactly self anchors candidate =
     and_then (anchor_root anchors (rp_anchor self)) (\<lambda>root.
       if length (components candidate) = length root + length (rp_segments self)
       then RulePath_contains self anchors candidate else Ok False)"

definition RulePath_to_string :: "RulePath \<Rightarrow> string" where
  "RulePath_to_string p =
     (case PathAnchor_as_str (rp_anchor p) of Some a \<Rightarrow> a | None \<Rightarrow> []) @
     concat (map (\<lambda>s. CHR ''/'' # s) (rp_segments p)) @
     (if rp_segments p = [] \<and> rp_anchor p = Absolute then ''/'' else [])"

section \<open>Rule-side executables\<close>

datatype ExecutableSpec = SpecName string | SpecPath RulePath | SpecPinned RulePath string

definition is_sha256_hex :: "string \<Rightarrow> bool" where
  "is_sha256_hex text \<longleftrightarrow> length text = 64 \<and>
     list_all (\<lambda>b. is_ascii_digit b \<or> 97 \<le> byte_of b \<and> byte_of b \<le> 102) text"

definition ExecutableSpec_parse :: "string \<Rightarrow> (ExecutableSpec, PolicyValueError) result" where
  "ExecutableSpec_parse text =
     (case rsplit_once CHR ''@'' text of
        Some (path, digest) \<Rightarrow>
          if \<not> is_sha256_hex digest then Err PolicyMalformedPath
          else and_then (RulePath_parse path) (\<lambda>p. Ok (SpecPinned p digest))
      | None \<Rightarrow>
          if starts_with text ''/'' \<or> starts_with text ''${'' \<or> starts_with text ''~''
          then and_then (RulePath_parse text) (\<lambda>p. Ok (SpecPath p))
          else if \<not> is_path_segment text then Err PolicyMalformedPath
          else Ok (SpecName text))"

fun ExecutableSpec_matches ::
  "ExecutableSpec \<Rightarrow> PathAnchors \<Rightarrow> ExecutableIdentity \<Rightarrow> (bool, PathAnchor) result" where
  "ExecutableSpec_matches (SpecName name) anchors candidate =
     Ok (components (exe_path candidate) \<noteq> [] \<and> last (components (exe_path candidate)) = name)"
| "ExecutableSpec_matches (SpecPath path) anchors candidate =
     RulePath_is_exactly path anchors (exe_path candidate)"
| "ExecutableSpec_matches (SpecPinned path digest) anchors candidate =
     and_then (RulePath_is_exactly path anchors (exe_path candidate)) (\<lambda>exact.
       Ok (exact \<and> Sha256Digest_to_string (exe_digest candidate) = digest))"

fun ExecutableSpec_to_string :: "ExecutableSpec \<Rightarrow> string" where
  "ExecutableSpec_to_string (SpecName name) = name"
| "ExecutableSpec_to_string (SpecPath path) = RulePath_to_string path"
| "ExecutableSpec_to_string (SpecPinned path digest) = RulePath_to_string path @ CHR ''@'' # digest"

section \<open>Address ranges\<close>

record Cidr =
  cidr_network :: IpAddress
  cidr_prefix :: nat

definition split_prefix :: "nat \<Rightarrow> nat \<times> nat" where
  "split_prefix pfx = (pfx div 8, pfx mod 8)"

definition octet_mask :: "nat \<Rightarrow> 8 word" where
  "octet_mask remainder = push_bit (8 - remainder) 255"

definition host_bits_clear :: "IpAddress \<Rightarrow> nat \<Rightarrow> bool" where
  "host_bits_clear address pfx =
     (let octets = IpAddress_octets address; (whole, remainder) = split_prefix pfx in
      if remainder \<noteq> 0 \<and> whole < length octets \<and> octets ! whole AND NOT (octet_mask remainder) \<noteq> 0 then False
      else let tail = (if remainder = 0 then whole else whole + 1)
           in list_all (\<lambda>byte. byte = 0) (drop tail octets))"

definition parse_octet :: "string \<Rightarrow> (8 word, PolicyValueError) result" where
  "parse_octet part =
     (if part = [] \<or> 3 < length part \<or> \<not> list_all is_ascii_digit part then Err MalformedCidr
      else if 1 < length part \<and> starts_with part ''0'' then Err MalformedCidr
      else if nat_of_digits part < 256 then Ok (of_nat (nat_of_digits part)) else Err MalformedCidr)"

fun parse_v4_loop :: "string list \<Rightarrow> 8 word list \<Rightarrow> (8 word list, PolicyValueError) result" where
  "parse_v4_loop [] octets = (if length octets = 4 then Ok octets else Err MalformedCidr)"
| "parse_v4_loop (part # parts) octets =
     (if \<not> length octets < 4 then Err MalformedCidr
      else and_then (parse_octet part) (\<lambda>b. parse_v4_loop parts (octets @ [b])))"

definition v6_digit :: "char \<Rightarrow> nat option" where
  "v6_digit byte =
     (if 48 \<le> byte_of byte \<and> byte_of byte \<le> 57 then Some (byte_of byte - 48)
      else if 97 \<le> byte_of byte \<and> byte_of byte \<le> 102 then Some (byte_of byte - 97 + 10)
      else None)"

text \<open>The \<^verbatim>\<open>u16\<close> accumulator with its checked multiplication and addition.\<close>

fun parse_v6_digits :: "string \<Rightarrow> nat \<Rightarrow> (nat, PolicyValueError) result" where
  "parse_v6_digits [] v = Ok v"
| "parse_v6_digits (b # bs) v =
     and_then (ok_or (v6_digit b) MalformedCidr) (\<lambda>digit.
       if v * 16 < 2 ^ 16 \<and> v * 16 + digit < 2 ^ 16 then parse_v6_digits bs (v * 16 + digit)
       else Err MalformedCidr)"

definition parse_v6_group :: "string \<Rightarrow> (nat, PolicyValueError) result" where
  "parse_v6_group part =
     (if part = [] \<or> 4 < length part then Err MalformedCidr else parse_v6_digits part 0)"

fun parse_v6_loop :: "string list \<Rightarrow> 8 word list \<Rightarrow> nat \<Rightarrow> (8 word list, PolicyValueError) result" where
  "parse_v6_loop [] octets groups = (if groups = 8 then Ok octets else Err MalformedCidr)"
| "parse_v6_loop (part # parts) octets groups =
     and_then (parse_v6_group part) (\<lambda>v.
       if \<not> groups * 2 + 2 \<le> 16 then Err MalformedCidr
       else parse_v6_loop parts (octets @ [of_nat (v div 256), of_nat (v mod 256)]) (groups + 1))"

definition parse_address :: "string \<Rightarrow> (IpAddress, PolicyValueError) result" where
  "parse_address text =
     (if CHR '':'' \<in> set text then and_then (parse_v6_loop (split_on CHR '':'' text) [] 0) (\<lambda>os. Ok (V6 os))
      else and_then (parse_v4_loop (split_on CHR ''.'' text) []) (\<lambda>os. Ok (V4 os)))"

definition Cidr_parse :: "string \<Rightarrow> (Cidr, PolicyValueError) result" where
  "Cidr_parse text =
     and_then (ok_or (split_once CHR ''/'' text) MalformedCidr) (\<lambda>(address, pfx).
       if pfx = [] \<or> \<not> list_all is_ascii_digit pfx then Err MalformedCidr
       else if \<not> nat_of_digits pfx < 2 ^ 32 then Err MalformedCidr
       else and_then (parse_address address) (\<lambda>network.
         if IpAddress_bits network < nat_of_digits pfx then Err MalformedCidr
         else if \<not> host_bits_clear network (nat_of_digits pfx) then Err MalformedCidr
         else Ok \<lparr>cidr_network = network, cidr_prefix = nat_of_digits pfx\<rparr>))"

definition Cidr_contains :: "Cidr \<Rightarrow> IpAddress \<Rightarrow> bool" where
  "Cidr_contains self address =
     (let network = IpAddress_octets (cidr_network self); candidate = IpAddress_octets address in
      if length network \<noteq> length candidate then False
      else let (whole, remainder) = split_prefix (cidr_prefix self) in
        if take whole network \<noteq> take whole candidate then False
        else if remainder = 0 then True
        else let mask = octet_mask remainder in
          if whole < length network \<and> whole < length candidate
          then network ! whole AND mask = candidate ! whole AND mask
          else True)"

definition Cidr_to_string :: "Cidr \<Rightarrow> string" where
  "Cidr_to_string c = IpAddress_to_string (cidr_network c) @ CHR ''/'' # show_nat (cidr_prefix c)"

text \<open>What a range means: the addresses whose leading bits are those of the network.\<close>

definition byte_bits :: "8 word \<Rightarrow> bool list" where
  "byte_bits b = map (\<lambda>i. bit b (7 - i)) [0..<8]"

definition address_bits :: "IpAddress \<Rightarrow> bool list" where
  "address_bits a = concat (map byte_bits (IpAddress_octets a))"

definition wf_Cidr :: "Cidr \<Rightarrow> bool" where
  "wf_Cidr c \<longleftrightarrow> wf_IpAddress (cidr_network c) \<and> cidr_prefix c \<le> IpAddress_bits (cidr_network c) \<and>
     list_all Not (drop (cidr_prefix c) (address_bits (cidr_network c)))"

section \<open>Containment\<close>

lemma zip_all_eq_prefix:
  "length ys \<le> length xs \<Longrightarrow> list_all (\<lambda>(a, e). a = e) (zip xs ys) \<longleftrightarrow> prefix ys xs"
  by (induction xs ys rule: list_induct2') auto

lemma zip_all_eq_prefix_rev:
  "length xs \<le> length ys \<Longrightarrow> list_all (\<lambda>(a, e). a = e) (zip xs ys) \<longleftrightarrow> prefix xs ys"
  by (induction xs ys rule: list_induct2') auto

lemma prefix_append_drop: "prefix xs zs \<Longrightarrow> prefix (xs @ ys) zs \<longleftrightarrow> prefix ys (drop (length xs) zs)"
  by (auto simp: prefix_def)

lemma RulePath_contains_exact:
  "RulePath_contains self anchors candidate =
     and_then (anchor_root anchors (rp_anchor self)) (\<lambda>root.
       Ok (prefix (root @ rp_segments self) (components candidate)))"
proof (cases "anchor_root anchors (rp_anchor self)")
  case (Inr root)
  let ?cs = "components candidate" and ?ss = "rp_segments self"
  show ?thesis
  proof (cases "length root + length ?ss \<le> length ?cs")
    case False
    then have "\<not> prefix (root @ ?ss) ?cs" using prefix_length_le [of "root @ ?ss" ?cs] by auto
    with False Inr show ?thesis by (simp add: RulePath_contains_def Let_def)
  next
    case True
    then have "list_all (\<lambda>(a, e). a = e) (zip ?cs root) \<longleftrightarrow> prefix root ?cs"
      "list_all (\<lambda>(a, e). a = e) (zip (drop (length root) ?cs) ?ss) \<longleftrightarrow> prefix ?ss (drop (length root) ?cs)"
      by (simp_all add: zip_all_eq_prefix)
    with True Inr show ?thesis
      using prefix_append_drop [of root ?cs ?ss]
      by (auto simp: RulePath_contains_def Let_def dest: append_prefixD)
  qed
qed (simp add: RulePath_contains_def)

lemma RulePath_is_exactly_exact:
  "RulePath_is_exactly self anchors candidate =
     and_then (anchor_root anchors (rp_anchor self)) (\<lambda>root.
       Ok (components candidate = root @ rp_segments self))"
proof (cases "anchor_root anchors (rp_anchor self)")
  case (Inr root)
  have "length (components candidate) = length root + length (rp_segments self) \<Longrightarrow>
      prefix (root @ rp_segments self) (components candidate) \<longleftrightarrow> components candidate = root @ rp_segments self"
    by (auto simp: prefix_def)
  with Inr show ?thesis by (auto simp: RulePath_is_exactly_def RulePath_contains_exact)
qed (simp add: RulePath_is_exactly_def)

lemma anchor_root_Err: "anchor_root anchors a = Err b \<longleftrightarrow> a \<noteq> Absolute \<and> b = a \<and> PathAnchors_get anchors a = None"
  by (cases a) (auto simp: anchor_root_def ok_or_def and_then_def split: option.splits)

section \<open>Leading bits\<close>

lemma byte_bits_length [simp]: "length (byte_bits b) = 8"
  by (simp add: byte_bits_def)

lemma byte_bits_nth [simp]: "i < 8 \<Longrightarrow> byte_bits b ! i = bit b (7 - i)"
  by (simp add: byte_bits_def)

lemma take_byte_bits_eq:
  assumes "r \<le> 8"
  shows "take r (byte_bits a) = take r (byte_bits b) \<longleftrightarrow> (\<forall>n. 8 - r \<le> n \<and> n < 8 \<longrightarrow> bit a n = bit b n)"
proof
  assume eq: "take r (byte_bits a) = take r (byte_bits b)"
  show "\<forall>n. 8 - r \<le> n \<and> n < 8 \<longrightarrow> bit a n = bit b n"
  proof (intro allI impI)
    fix n :: nat assume n: "8 - r \<le> n \<and> n < 8"
    then have i: "7 - n < r" using assms by linarith
    have "take r (byte_bits a) ! (7 - n) = take r (byte_bits b) ! (7 - n)" using eq by simp
    with i n show "bit a n = bit b n" by simp
  qed
next
  assume agree: "\<forall>n. 8 - r \<le> n \<and> n < 8 \<longrightarrow> bit a n = bit b n"
  have "bit a (7 - i) = bit b (7 - i)" if "i < r" for i
    using agree [THEN spec, of "7 - i"] that assms by linarith
  then show "take r (byte_bits a) = take r (byte_bits b)"
    using assms by (intro nth_equalityI) auto
qed

lemma byte_bits_inject [simp]: "byte_bits a = byte_bits b \<longleftrightarrow> a = b"
  using take_byte_bits_eq [of 8 a b] by (auto simp: bit_eq_iff bit_imp_le_length)

lemma bit_octet_mask: "bit (octet_mask r) n \<longleftrightarrow> 8 - r \<le> n \<and> n < 8"
proof -
  have "(255 :: 8 word) = mask 8" by (simp add: mask_eq_exp_minus_1)
  then have "octet_mask r = push_bit (8 - r) (mask 8)" by (simp only: octet_mask_def)
  then show ?thesis by (auto simp: bit_push_bit_iff bit_mask_iff)
qed

lemma masked_eq:
  "r \<le> 8 \<Longrightarrow> a AND octet_mask r = b AND octet_mask r \<longleftrightarrow> take r (byte_bits a) = take r (byte_bits b)"
  by (auto simp: take_byte_bits_eq bit_eq_iff bit_and_iff bit_octet_mask)

lemma byte_bits_zero: "list_all Not (byte_bits b) \<longleftrightarrow> b = 0"
proof
  assume "list_all Not (byte_bits b)"
  then have clear: "\<forall>i < 8. \<not> bit b (7 - i)" by (simp add: list_all_length)
  have "\<not> bit b n" if "n < 8" for n
  proof -
    have "7 - (7 - n) = n" using that by simp
    then show ?thesis using clear [rule_format, of "7 - n"] by simp
  qed
  then show "b = 0" by (intro bit_eqI) (auto dest: bit_imp_le_length)
qed (simp add: byte_bits_def list_all_iff)

lemma unmasked_zero:
  assumes "r \<le> 8"
  shows "b AND NOT (octet_mask r) = 0 \<longleftrightarrow> list_all Not (drop r (byte_bits b))"
proof
  assume z: "b AND NOT (octet_mask r) = 0"
  show "list_all Not (drop r (byte_bits b))"
    unfolding list_all_length
  proof (intro allI impI)
    fix i assume i: "i < length (drop r (byte_bits b))"
    have "\<not> bit (b AND NOT (octet_mask r)) (7 - (r + i))" using z by simp
    then show "\<not> drop r (byte_bits b) ! i"
      using i assms by (auto simp: bit_and_iff bit_not_iff bit_octet_mask)
  qed
next
  assume clear: "list_all Not (drop r (byte_bits b))"
  show "b AND NOT (octet_mask r) = 0"
  proof (rule bit_eqI)
    fix n assume n: "possible_bit TYPE(8 word) n"
    show "bit (b AND NOT (octet_mask r)) n = bit (0 :: 8 word) n"
    proof (cases "n < 8 - r")
      case True
      then have "drop r (byte_bits b) ! (7 - n - r) = bit b n"
        by simp
      moreover have "7 - n - r < length (drop r (byte_bits b))" using True by simp
      ultimately have "\<not> bit b n" using clear by (auto simp: list_all_length)
      then show ?thesis by (simp add: bit_and_iff)
    qed (use n assms in \<open>auto simp: bit_and_iff bit_not_iff bit_octet_mask dest: bit_imp_le_length\<close>)
  qed
qed

lemma take_concat_bytes:
  "take k (concat (map byte_bits xs)) =
     concat (map byte_bits (take (k div 8) xs)) @
     (if k div 8 < length xs then take (k mod 8) (byte_bits (xs ! (k div 8))) else [])"
proof (induction xs arbitrary: k)
  case (Cons x xs)
  show ?case
  proof (cases "k < 8")
    case False
    then have "k div 8 = Suc ((k - 8) div 8)" "k mod 8 = (k - 8) mod 8"
      by (simp_all add: le_div_geq le_mod_geq)
    with False Cons.IH [of "k - 8"] show ?thesis by simp
  qed simp
qed simp

lemma drop_concat_bytes:
  "drop k (concat (map byte_bits xs)) =
     (if k div 8 < length xs then drop (k mod 8) (byte_bits (xs ! (k div 8))) else []) @
     concat (map byte_bits (drop (Suc (k div 8)) xs))"
proof (induction xs arbitrary: k)
  case (Cons x xs)
  show ?case
  proof (cases "k < 8")
    case False
    then have "k div 8 = Suc ((k - 8) div 8)" "k mod 8 = (k - 8) mod 8"
      by (simp_all add: le_div_geq le_mod_geq)
    with False Cons.IH [of "k - 8"] show ?thesis by simp
  qed simp
qed simp

lemma concat_bytes_inject:
  "length xs = length ys \<Longrightarrow> concat (map byte_bits xs) = concat (map byte_bits ys) \<longleftrightarrow> xs = ys"
  by (induction xs ys rule: list_induct2) auto

lemma Cidr_contains_bits:
  "Cidr_contains c a \<longleftrightarrow>
     length (address_bits (cidr_network c)) = length (address_bits a) \<and>
     take (cidr_prefix c) (address_bits (cidr_network c)) = take (cidr_prefix c) (address_bits a)"
proof -
  let ?n = "IpAddress_octets (cidr_network c)" and ?a = "IpAddress_octets a" and ?p = "cidr_prefix c"
  have len: "length (address_bits x) = 8 * length (IpAddress_octets x)" for x
    by (simp add: address_bits_def length_concat comp_def sum_list_triv)
  show ?thesis
  proof (cases "length ?n = length ?a")
    case eq: True
    have "length (concat (map byte_bits (take (?p div 8) ?n))) = length (concat (map byte_bits (take (?p div 8) ?a)))"
      using eq by (simp add: length_concat comp_def sum_list_triv)
    then have "take ?p (address_bits (cidr_network c)) = take ?p (address_bits a) \<longleftrightarrow>
        take (?p div 8) ?n = take (?p div 8) ?a \<and>
        (?p div 8 < length ?n \<longrightarrow> take (?p mod 8) (byte_bits (?n ! (?p div 8))) = take (?p mod 8) (byte_bits (?a ! (?p div 8))))"
      unfolding address_bits_def take_concat_bytes using eq by (auto simp: concat_bytes_inject)
    moreover have "Cidr_contains c a \<longleftrightarrow> take (?p div 8) ?n = take (?p div 8) ?a \<and>
        (?p div 8 < length ?n \<longrightarrow> take (?p mod 8) (byte_bits (?n ! (?p div 8))) = take (?p mod 8) (byte_bits (?a ! (?p div 8))))"
      using eq by (cases "?p mod 8 = 0") (auto simp: Cidr_contains_def Let_def split_prefix_def masked_eq)
    ultimately show ?thesis using eq len by simp
  next
    case False
    then show ?thesis using len by (simp add: Cidr_contains_def)
  qed
qed

lemma host_bits_clear_bits:
  "host_bits_clear a p \<longleftrightarrow> list_all Not (drop p (address_bits a))"
proof -
  let ?o = "IpAddress_octets a"
  have zeros: "list_all Not (concat (map byte_bits xs)) \<longleftrightarrow> list_all (\<lambda>b. b = 0) xs" for xs
    by (induction xs) (simp_all add: byte_bits_zero)
  have "drop (p div 8) ?o = ?o ! (p div 8) # drop (Suc (p div 8)) ?o" if "p div 8 < length ?o"
    using that by (rule Cons_nth_drop_Suc [symmetric])
  then show ?thesis
    by (auto simp: host_bits_clear_def Let_def split_prefix_def address_bits_def drop_concat_bytes zeros
        unmasked_zero byte_bits_zero)
qed

section \<open>Range text\<close>

lemma show_nat_length: "0 < k \<Longrightarrow> n < 10 ^ k \<Longrightarrow> length (show_nat n) \<le> k"
proof (induction k arbitrary: n)
  case (Suc k)
  show ?case
  proof (cases "n < 10")
    case False
    then have "n div 10 < 10 ^ k" "0 < k" using Suc.prems by (auto intro: Suc_lessI gr0I)
    then have "length (show_nat (n div 10)) \<le> k" using Suc.IH by blast
    then show ?thesis using False show_nat.simps [of n] by simp
  qed (use show_nat.simps [of n] in simp)
qed simp

lemma starts_with_0_canonical: "canonical_digits s \<Longrightarrow> 1 < length s \<Longrightarrow> \<not> starts_with s ''0''"
  by (cases s) (auto simp: canonical_digits_def starts_with_def)

lemma unat_octet: "unat (b :: 8 word) < 256"
  using unsigned_less [of b] by simp

lemma parse_octet_show [simp]: "parse_octet (show_nat (unat b)) = Ok b"
  using show_nat_length [of 3 "unat b"] starts_with_0_canonical [OF canonical_digits_show_nat, of "unat b"]
    show_nat_digits unat_octet [of b]
  by (auto simp: parse_octet_def list_all_iff)

lemma parse_v4_loop_print:
  "length octets + length bs = 4 \<Longrightarrow>
   parse_v4_loop (map (\<lambda>b. show_nat (unat b)) bs) octets = Ok (octets @ bs)"
  by (induction bs arbitrary: octets) simp_all

lemma parse_v4_loop_Ok: "parse_v4_loop parts octets = Ok os \<Longrightarrow> length os = 4"
  by (induction parts arbitrary: octets) (auto simp: and_then_Ok_iff split: if_splits)

lemma parse_v6_loop_Ok:
  "parse_v6_loop parts octets groups = Ok os \<Longrightarrow> length octets = 2 * groups \<Longrightarrow> length os = 16"
  by (induction parts arbitrary: octets groups) (auto simp: and_then_Ok_iff split: if_splits)

lemma v6_digit_nibble [simp]: "d < 16 \<Longrightarrow> v6_digit (nibble_char d) = Some d"
  by (auto simp: v6_digit_def nibble_char_def)

lemma parse_v6_group_print [simp]:
  "parse_v6_group (hex_byte h @ hex_byte l) = Ok (unat h * 256 + unat l)"
proof -
  have digits: "a < 16 \<Longrightarrow> b < 16 \<Longrightarrow> c < 16 \<Longrightarrow> d < 16 \<Longrightarrow>
      parse_v6_digits [nibble_char a, nibble_char b, nibble_char c, nibble_char d] 0 =
      Ok (((a * 16 + b) * 16 + c) * 16 + d)" for a b c d :: nat
    by simp
  have split: "unat w div 16 * 16 + unat w mod 16 = unat w" for w :: "8 word" by simp
  have small: "unat w div 16 < 16" for w :: "8 word" using unat_octet [of w] by simp
  have "parse_v6_group (hex_byte h @ hex_byte l) =
      Ok (((unat h div 16 * 16 + unat h mod 16) * 16 + unat l div 16) * 16 + unat l mod 16)"
    unfolding parse_v6_group_def hex_byte_def
    using digits [OF small [of h] _ small [of l], of "unat h mod 16" "unat l mod 16"]
    by (simp del: parse_v6_digits.simps)
  also have "((unat h div 16 * 16 + unat h mod 16) * 16 + unat l div 16) * 16 + unat l mod 16 =
      (unat h div 16 * 16 + unat h mod 16) * 256 + (unat l div 16 * 16 + unat l mod 16)" by simp
  finally show ?thesis by (simp only: split)
qed

lemma parse_v6_loop_print:
  "length octets = 2 * groups \<Longrightarrow> length octets + length bs = 16 \<Longrightarrow>
   parse_v6_loop (hex_groups bs) octets groups = Ok (octets @ bs)"
proof (induction bs arbitrary: octets groups rule: hex_groups.induct)
  case (1 h l rest)
  have "(unat h * 256 + unat l) div 256 = unat h" "(unat h * 256 + unat l) mod 256 = unat l"
    using unat_octet [of l] by simp_all
  with 1 show ?case by simp
qed (simp, simp, presburger)

lemma hex_byte_chars: "c \<in> set (hex_byte b) \<Longrightarrow> c \<noteq> CHR '':'' \<and> c \<noteq> CHR ''/''"
proof -
  have "nibble_char n \<noteq> CHR '':'' \<and> nibble_char n \<noteq> CHR ''/''" if "n < 16" for n
  proof -
    have "byte_of (nibble_char n) \<noteq> 58 \<and> byte_of (nibble_char n) \<noteq> 47"
      using that by (auto simp: nibble_char_def)
    then show ?thesis by auto
  qed
  moreover have "unat b div 16 < 16" using unat_octet [of b] by simp
  ultimately show "c \<in> set (hex_byte b) \<Longrightarrow> ?thesis" by (auto simp: hex_byte_def)
qed

lemma hex_groups_chars: "g \<in> set (hex_groups bs) \<Longrightarrow> CHR '':'' \<notin> set g \<and> CHR ''/'' \<notin> set g"
  by (induction bs rule: hex_groups.induct) (auto dest: hex_byte_chars)

lemma parse_address_print:
  assumes "wf_IpAddress a"
  shows "parse_address (IpAddress_to_string a) = Ok a" "CHR ''/'' \<notin> set (IpAddress_to_string a)"
proof -
  have digits: "CHR '':'' \<notin> set (show_nat n)" "CHR ''/'' \<notin> set (show_nat n)" "CHR ''.'' \<notin> set (show_nat n)" for n
    by (rule show_nat_excludes; simp add: is_ascii_digit_def)+
  show "CHR ''/'' \<notin> set (IpAddress_to_string a)"
    using digits hex_groups_chars by (cases a) (auto dest!: set_join_on)
  show "parse_address (IpAddress_to_string a) = Ok a"
  proof (cases a)
    case (V4 os)
    with assms have os: "length os = 4" by (simp add: wf_IpAddress_def)
    have "CHR '':'' \<notin> set (IpAddress_to_string a)" using V4 digits by (auto dest!: set_join_on)
    moreover have "split_on CHR ''.'' (IpAddress_to_string a) = map (\<lambda>b. show_nat (unat b)) os"
      using V4 os digits by (auto intro!: split_on_join_on)
    ultimately show ?thesis using V4 os by (simp add: parse_address_def parse_v4_loop_print)
  next
    case (V6 os)
    with assms have os: "length os = 16" by (simp add: wf_IpAddress_def)
    then obtain b1 b2 b3 b4 rest where "os = b1 # b2 # b3 # b4 # rest"
      by (auto simp: numeral_eq_Suc length_Suc_conv)
    then have "CHR '':'' \<in> set (IpAddress_to_string a)" "hex_groups os \<noteq> []" using V6 by simp_all
    moreover from this have "split_on CHR '':'' (IpAddress_to_string a) = hex_groups os"
      using V6 hex_groups_chars by (auto intro!: split_on_join_on)
    ultimately show ?thesis using V6 os by (simp add: parse_address_def parse_v6_loop_print)
  qed
qed

lemma Cidr_parse_print:
  assumes "wf_Cidr c"
  shows "Cidr_parse (Cidr_to_string c) = Ok c"
proof -
  have "IpAddress_bits (cidr_network c) \<le> 128" by (cases "cidr_network c") simp_all
  then have "cidr_prefix c < 2 ^ 32" using assms by (simp add: wf_Cidr_def)
  then show ?thesis
    using assms parse_address_print [of "cidr_network c"] show_nat_digits
    by (auto simp: Cidr_parse_def Cidr_to_string_def wf_Cidr_def host_bits_clear_bits list_all_iff)
qed

lemma parse_address_Ok: "parse_address t = Ok a \<Longrightarrow> wf_IpAddress a"
  by (auto simp: parse_address_def and_then_Ok_iff wf_IpAddress_def
      dest: parse_v4_loop_Ok parse_v6_loop_Ok split: if_splits)

lemma Cidr_parse_Ok: "Cidr_parse t = Ok c \<Longrightarrow> wf_Cidr c"
  by (auto simp: Cidr_parse_def and_then_Ok_iff wf_Cidr_def host_bits_clear_bits
      dest: parse_address_Ok split: if_splits)

end
