(* ===== verification/Pol_Eval.thy ===== *)
theory Pol_Eval
  imports Pol_Value
begin

text \<open>
  Predicates, compiled rules and the two-phase evaluator (\<^verbatim>\<open>policy/predicate.rs\<close>,
  \<^verbatim>\<open>policy/rule.rs\<close>, \<^verbatim>\<open>policy/eval.rs\<close> and the decision of \<^verbatim>\<open>policy/mod.rs\<close>): primary
  rules decide by first match, postconditions then narrow, and an input that a predicate needs and
  does not have denies.
\<close>

section \<open>Predicate values\<close>

datatype 'a MatchValue = MatchEq 'a | MatchIn "'a list"

fun MatchValue_any :: "('a \<Rightarrow> bool) \<Rightarrow> 'a MatchValue \<Rightarrow> bool" where
  "MatchValue_any predicate (MatchEq value) = predicate value"
| "MatchValue_any predicate (MatchIn values) = list_ex predicate values"

fun try_any_list :: "('a \<Rightarrow> (bool, 'e) result) \<Rightarrow> 'a list \<Rightarrow> (bool, 'e) result" where
  "try_any_list predicate [] = Ok False"
| "try_any_list predicate (value # values) =
     and_then (predicate value) (\<lambda>b. if b then Ok True else try_any_list predicate values)"

fun MatchValue_try_any :: "('a \<Rightarrow> (bool, 'e) result) \<Rightarrow> 'a MatchValue \<Rightarrow> (bool, 'e) result" where
  "MatchValue_try_any predicate (MatchEq value) = predicate value"
| "MatchValue_try_any predicate (MatchIn values) = try_any_list predicate values"

fun MatchValue_values :: "'a MatchValue \<Rightarrow> 'a list" where
  "MatchValue_values (MatchEq value) = [value]"
| "MatchValue_values (MatchIn values) = values"

fun MatchValue_is_scalar :: "'a MatchValue \<Rightarrow> bool" where
  "MatchValue_is_scalar (MatchEq _) = True"
| "MatchValue_is_scalar (MatchIn _) = False"

fun MatchValue_len :: "'a MatchValue \<Rightarrow> nat" where
  "MatchValue_len (MatchEq _) = 1"
| "MatchValue_len (MatchIn values) = length values"

definition MatchValue_matches :: "'a MatchValue \<Rightarrow> 'a \<Rightarrow> bool" where
  "MatchValue_matches self candidate = MatchValue_any (\<lambda>value. value = candidate) self"

datatype PredicateName =
  PVerb | PPathUnder | PMaxBytes | PExecutableIn | PArgvSafe | PHostMatches | PIpIn | PDestinationNovel
| PEnvironment | POrigin | PTaintLevel | PPrivacyClass | PProvisionalEffect | PUnlessConfig
| PUnlessStandingGrant

definition PredicateName_ALL :: "PredicateName list" where
  "PredicateName_ALL = [PVerb, PPathUnder, PMaxBytes, PExecutableIn, PArgvSafe, PHostMatches, PIpIn,
     PDestinationNovel, PEnvironment, POrigin, PTaintLevel, PPrivacyClass, PProvisionalEffect,
     PUnlessConfig, PUnlessStandingGrant]"

fun PredicateName_as_str :: "PredicateName \<Rightarrow> string" where
  "PredicateName_as_str PVerb = ''verb''"
| "PredicateName_as_str PPathUnder = ''path_under''"
| "PredicateName_as_str PMaxBytes = ''max_bytes''"
| "PredicateName_as_str PExecutableIn = ''executable_in''"
| "PredicateName_as_str PArgvSafe = ''argv_safe''"
| "PredicateName_as_str PHostMatches = ''host_matches''"
| "PredicateName_as_str PIpIn = ''ip_in''"
| "PredicateName_as_str PDestinationNovel = ''destination_novel''"
| "PredicateName_as_str PEnvironment = ''environment''"
| "PredicateName_as_str POrigin = ''origin''"
| "PredicateName_as_str PTaintLevel = ''taint_level''"
| "PredicateName_as_str PPrivacyClass = ''privacy_class''"
| "PredicateName_as_str PProvisionalEffect = ''provisional_effect''"
| "PredicateName_as_str PUnlessConfig = ''config''"
| "PredicateName_as_str PUnlessStandingGrant = ''standing_grant''"

definition PredicateName_applies_to :: "PredicateName \<Rightarrow> Verb \<Rightarrow> bool" where
  "PredicateName_applies_to self verb =
     (case self of
        PPathUnder \<Rightarrow> Verb_scope_family verb = Path
      | PMaxBytes \<Rightarrow> Verb_scope_family verb = Path
      | PExecutableIn \<Rightarrow> Verb_scope_family verb = Executable
      | PArgvSafe \<Rightarrow> Verb_scope_family verb = Executable
      | PHostMatches \<Rightarrow> Verb_scope_family verb = ScopeFamily.Endpoint \<or> Verb_scope_family verb = Domain
      | PIpIn \<Rightarrow> Verb_scope_family verb = ScopeFamily.Endpoint
      | PDestinationNovel \<Rightarrow>
          Verb_scope_family verb = ScopeFamily.Endpoint \<or> Verb_scope_family verb = Domain \<or>
          Verb_scope_family verb = ScopeFamily.ChannelTarget
      | _ \<Rightarrow> True)"

record When =
  when_verb :: "Verb MatchValue option"
  when_path_under :: "RulePath MatchValue option"
  when_max_bytes :: "64 word option"
  when_executable_in :: "ExecutableSpec MatchValue option"
  when_argv_safe :: "ArgvSafety option"
  when_host_matches :: "HostPattern MatchValue option"
  when_ip_in :: "Cidr MatchValue option"
  when_destination_novel :: "Novelty option"
  when_environment :: "Environment MatchValue option"
  when_origin :: "Origin MatchValue option"
  when_taint_level :: "TaintLevel MatchValue option"
  when_privacy_class :: "PrivacyClass MatchValue option"
  when_provisional_effect :: "Effect MatchValue option"

definition When_default :: When where
  "When_default = \<lparr>when_verb = None, when_path_under = None, when_max_bytes = None, when_executable_in = None,
     when_argv_safe = None, when_host_matches = None, when_ip_in = None, when_destination_novel = None,
     when_environment = None, when_origin = None, when_taint_level = None, when_privacy_class = None,
     when_provisional_effect = None\<rparr>"

record Unless =
  unless_config :: "ConfigKey option"
  unless_standing_grant :: "bool option"

definition Unless_default :: Unless where
  "Unless_default = \<lparr>unless_config = None, unless_standing_grant = None\<rparr>"

datatype Unevaluable = UnresolvedAnchor PathAnchor | ResolvedAddress

datatype Match = Yes | No | Unevaluable Unevaluable

definition Match_from_bool :: "bool \<Rightarrow> Match" where
  "Match_from_bool value = (if value then Yes else No)"

fun Match_and :: "Match \<Rightarrow> Match \<Rightarrow> Match" where
  "Match_and (Unevaluable why) _ = Unevaluable why"
| "Match_and No _ = No"
| "Match_and Yes other = other"

text \<open>\<^verbatim>\<open>Option::is_none_or\<close>.\<close>

definition is_none_or :: "'a option \<Rightarrow> ('a \<Rightarrow> bool) \<Rightarrow> bool" where
  "is_none_or m f = (case m of None \<Rightarrow> True | Some x \<Rightarrow> f x)"

definition note_name :: "bool \<Rightarrow> PredicateName \<Rightarrow> PredicateName list" where
  "note_name present name = (if present then [name] else [])"

definition When_present :: "When \<Rightarrow> PredicateName list" where
  "When_present self =
     note_name (when_verb self \<noteq> None) PVerb @
     note_name (when_path_under self \<noteq> None) PPathUnder @
     note_name (when_max_bytes self \<noteq> None) PMaxBytes @
     note_name (when_executable_in self \<noteq> None) PExecutableIn @
     note_name (when_argv_safe self \<noteq> None) PArgvSafe @
     note_name (when_host_matches self \<noteq> None) PHostMatches @
     note_name (when_ip_in self \<noteq> None) PIpIn @
     note_name (when_destination_novel self \<noteq> None) PDestinationNovel @
     note_name (when_environment self \<noteq> None) PEnvironment @
     note_name (when_origin self \<noteq> None) POrigin @
     note_name (when_taint_level self \<noteq> None) PTaintLevel @
     note_name (when_privacy_class self \<noteq> None) PPrivacyClass @
     note_name (when_provisional_effect self \<noteq> None) PProvisionalEffect"

definition When_is_empty :: "When \<Rightarrow> bool" where
  "When_is_empty self \<longleftrightarrow> When_present self = []"

definition path_under ::
  "RulePath MatchValue \<Rightarrow> PolicyContext \<Rightarrow> Scope \<Rightarrow> (bool, PathAnchor) result" where
  "path_under named context scope =
     (case scope of
        ScopePath candidate \<Rightarrow>
          MatchValue_try_any (\<lambda>path. RulePath_contains path (ctx_anchors context) candidate) named
      | _ \<Rightarrow> Ok False)"

definition executable_in ::
  "ExecutableSpec MatchValue \<Rightarrow> PolicyContext \<Rightarrow> Scope \<Rightarrow> (bool, PathAnchor) result" where
  "executable_in named context scope =
     (case scope of
        ScopeExecutable candidate \<Rightarrow>
          MatchValue_try_any (\<lambda>spec. ExecutableSpec_matches spec (ctx_anchors context) candidate) named
      | _ \<Rightarrow> Ok False)"

definition host_matches :: "HostPattern MatchValue \<Rightarrow> Scope \<Rightarrow> bool" where
  "host_matches named scope =
     (case scope of
        Syntactic (SEndpoint endpoint) \<Rightarrow>
          MatchValue_any (\<lambda>pattern. HostPattern_contains pattern (ep_host endpoint)) named
      | Syntactic (SDomain host) \<Rightarrow> MatchValue_any (\<lambda>pattern. HostPattern_contains pattern host) named
      | _ \<Rightarrow> False)"

definition address_in :: "Cidr MatchValue \<Rightarrow> CanonicalAction \<Rightarrow> (bool, Unevaluable) result" where
  "address_in named action =
     and_then (ok_or (act_destination_ip action) ResolvedAddress) (\<lambda>address.
       Ok (MatchValue_any (\<lambda>range. Cidr_contains range address) named))"

definition When_matches_plain :: "When \<Rightarrow> CanonicalAction \<Rightarrow> PolicyContext \<Rightarrow> Match" where
  "When_matches_plain self action context =
     (let verb = cap_verb (act_capability action);
          scope = cap_scope (act_capability action);
          result = Match_from_bool (is_none_or (when_verb self) (\<lambda>named. MatchValue_matches named verb));
          result = Match_and result (Match_from_bool
            (is_none_or (when_environment self) (\<lambda>named. MatchValue_matches named (act_environment action))));
          result = Match_and result (Match_from_bool
            (is_none_or (when_origin self) (\<lambda>named. MatchValue_matches named (ctx_origin context))));
          result = Match_and result (Match_from_bool
            (is_none_or (when_taint_level self) (\<lambda>named. MatchValue_matches named (ctx_taint context))));
          result = Match_and result (Match_from_bool
            (is_none_or (when_privacy_class self) (\<lambda>named. MatchValue_matches named (ctx_privacy context))));
          result = Match_and result (Match_from_bool
            (is_none_or (when_max_bytes self) (\<lambda>limit.
               case act_byte_count action of None \<Rightarrow> False | Some bytes \<Rightarrow> bytes \<le> limit)));
          result = Match_and result (Match_from_bool
            (is_none_or (when_argv_safe self) (\<lambda>wanted. act_argv_safety action = Some wanted)));
          result = Match_and result (Match_from_bool
            (is_none_or (when_destination_novel self) (\<lambda>wanted. act_destination_novelty action = Some wanted)))
      in Match_and result (Match_from_bool
            (is_none_or (when_host_matches self) (\<lambda>named. host_matches named scope))))"

definition match_executable :: "When \<Rightarrow> CanonicalAction \<Rightarrow> PolicyContext \<Rightarrow> Match \<Rightarrow> Match" where
  "match_executable self action context result =
     (case when_executable_in self of
        None \<Rightarrow> result
      | Some specs \<Rightarrow>
          (case executable_in specs context (cap_scope (act_capability action)) of
             Inr matched \<Rightarrow> Match_and result (Match_from_bool matched)
           | Inl anchor \<Rightarrow> Unevaluable (UnresolvedAnchor anchor)))"

definition match_path :: "When \<Rightarrow> CanonicalAction \<Rightarrow> PolicyContext \<Rightarrow> Match \<Rightarrow> Match" where
  "match_path self action context result =
     (case when_path_under self of
        None \<Rightarrow> match_executable self action context result
      | Some paths \<Rightarrow>
          (case path_under paths context (cap_scope (act_capability action)) of
             Inr matched \<Rightarrow> match_executable self action context (Match_and result (Match_from_bool matched))
           | Inl anchor \<Rightarrow> Unevaluable (UnresolvedAnchor anchor)))"

definition match_address :: "When \<Rightarrow> CanonicalAction \<Rightarrow> PolicyContext \<Rightarrow> Match \<Rightarrow> Match" where
  "match_address self action context result =
     (case when_ip_in self of
        None \<Rightarrow> match_path self action context result
      | Some ranges \<Rightarrow>
          (case address_in ranges action of
             Inr matched \<Rightarrow> match_path self action context (Match_and result (Match_from_bool matched))
           | Inl why \<Rightarrow> Unevaluable why))"

definition When_matches :: "When \<Rightarrow> CanonicalAction \<Rightarrow> PolicyContext \<Rightarrow> Match" where
  "When_matches self action context =
     (let result = When_matches_plain self action context in
      if result = No then result else match_address self action context result)"

definition Unless_present :: "Unless \<Rightarrow> PredicateName list" where
  "Unless_present self =
     note_name (unless_config self \<noteq> None) PUnlessConfig @
     note_name (unless_standing_grant self \<noteq> None) PUnlessStandingGrant"

definition Unless_is_empty :: "Unless \<Rightarrow> bool" where
  "Unless_is_empty self \<longleftrightarrow> unless_config self = None \<and> unless_standing_grant self = None"

definition Unless_suppresses :: "Unless \<Rightarrow> PolicyContext \<Rightarrow> bool" where
  "Unless_suppresses self context =
     (let by_config = (case unless_config self of None \<Rightarrow> False
            | Some key \<Rightarrow> ConfigFlags_is_set (ctx_config context) key);
          by_grant = (case unless_standing_grant self of None \<Rightarrow> False
            | Some wanted \<Rightarrow> StandingGrantState_is_held (ctx_standing_grant context) = wanted)
      in by_config \<or> by_grant)"

section \<open>Rules\<close>

record Rule =
  rule_id :: RuleId
  rule_source :: SourceLocation
  rule_effect :: Effect
  rule_reason :: Reason
  rule_when :: When
  rule_unless :: Unless
  rule_obligations :: Obligations
  rule_approval :: "ApprovalSpec option"

definition Rule_is_default :: "Rule \<Rightarrow> bool" where
  "Rule_is_default r \<longleftrightarrow> RuleId_is_default (rule_id r)"

record Postcondition =
  post_id :: RuleId
  post_source :: SourceLocation
  post_effect :: Effect
  post_reason :: Reason
  post_when :: When
  post_unless :: Unless

definition Postcondition_selects :: "Postcondition \<Rightarrow> Effect list" where
  "Postcondition_selects self =
     (case when_provisional_effect (post_when self) of
        None \<Rightarrow> Effect_ALL
      | Some named \<Rightarrow> MatchValue_values named)"

definition Postcondition_narrows :: "Postcondition \<Rightarrow> bool" where
  "Postcondition_narrows self =
     list_all (\<lambda>provisional. Effect_narrower_or_equal (post_effect self) provisional) (Postcondition_selects self)"

record Profile =
  profile_name :: ProfileName
  profile_source :: SourceLocation
  profile_extends :: "ProfileName option"
  profile_rules :: "Rule list"
  profile_postconditions :: "Postcondition list"

record CompiledPolicy =
  policy_name :: ProfileName
  policy_chain :: "ProfileName list"
  policy_rules :: "Rule list"
  policy_postconditions :: "Postcondition list"

definition CompiledPolicy_default_rule :: "CompiledPolicy \<Rightarrow> Rule option" where
  "CompiledPolicy_default_rule self =
     (if policy_rules self = [] then None
      else if Rule_is_default (last (policy_rules self)) then Some (last (policy_rules self)) else None)"

section \<open>Decisions\<close>

record MatchedRule =
  matched_id :: RuleId
  matched_source :: SourceLocation
  matched_reason :: Reason

definition MatchedRule_new :: "RuleId \<Rightarrow> SourceLocation \<Rightarrow> Reason \<Rightarrow> MatchedRule" where
  "MatchedRule_new i s r = \<lparr>matched_id = i, matched_source = s, matched_reason = r\<rparr>"

record Decision =
  dec_effect :: Effect
  dec_deciding :: MatchedRule
  dec_primary :: MatchedRule
  dec_postconditions :: "MatchedRule list"
  dec_required_capability :: Capability
  dec_approval :: "ApprovalSpec option"
  dec_obligations :: Obligations
  dec_unevaluable :: "Unevaluable option"

definition Decision_new ::
  "Effect \<Rightarrow> MatchedRule \<Rightarrow> MatchedRule \<Rightarrow> MatchedRule list \<Rightarrow> Capability \<Rightarrow> ApprovalSpec option \<Rightarrow> Obligations \<Rightarrow> Decision" where
  "Decision_new effect deciding primary posts capability approval obligations =
     \<lparr>dec_effect = effect, dec_deciding = deciding, dec_primary = primary, dec_postconditions = posts,
      dec_required_capability = capability, dec_approval = approval, dec_obligations = obligations,
      dec_unevaluable = None\<rparr>"

definition Decision_not_evaluated ::
  "MatchedRule \<Rightarrow> MatchedRule \<Rightarrow> MatchedRule list \<Rightarrow> Capability \<Rightarrow> Unevaluable \<Rightarrow> Decision" where
  "Decision_not_evaluated deciding primary posts capability why =
     \<lparr>dec_effect = Deny, dec_deciding = deciding, dec_primary = primary, dec_postconditions = posts,
      dec_required_capability = capability, dec_approval = None, dec_obligations = Obligations_none,
      dec_unevaluable = Some why\<rparr>"

definition Decision_reason :: "Decision \<Rightarrow> Reason" where
  "Decision_reason d = matched_reason (dec_deciding d)"

section \<open>Evaluation\<close>

definition would_require_approval :: "Effect \<Rightarrow> bool" where
  "would_require_approval provisional \<longleftrightarrow> provisional = RequireApproval"

datatype Matched = MatchedRuleAt Rule | MatchedUnresolved Rule Unevaluable

fun first_match_rules :: "Rule list \<Rightarrow> CanonicalAction \<Rightarrow> PolicyContext \<Rightarrow> Matched option" where
  "first_match_rules [] action context = None"
| "first_match_rules (rule # rules) action context =
     (case When_matches (rule_when rule) action context of
        Unevaluable why \<Rightarrow> Some (MatchedUnresolved rule why)
      | No \<Rightarrow> first_match_rules rules action context
      | Yes \<Rightarrow>
          if Unless_suppresses (rule_unless rule) context then first_match_rules rules action context
          else Some (MatchedRuleAt rule))"

definition first_match :: "CompiledPolicy \<Rightarrow> CanonicalAction \<Rightarrow> PolicyContext \<Rightarrow> Matched option" where
  "first_match policy action context = first_match_rules (policy_rules policy) action context"

definition selects :: "Postcondition \<Rightarrow> Effect \<Rightarrow> bool" where
  "selects post effect =
     is_none_or (when_provisional_effect (post_when post)) (\<lambda>named. MatchValue_matches named effect)"

definition unmatched :: "CompiledPolicy \<Rightarrow> Capability \<Rightarrow> Decision" where
  "unmatched policy capability =
     (let at = MatchedRule_new RuleId_DEFAULT SourceLocation_synthetic NoMatchingRule
      in Decision_new Deny at at [] capability None Obligations_none)"

text \<open>
  The second phase threads the provisional effect, the deciding rule and the postconditions applied
  so far; \<open>Inl\<close> is the early return for a postcondition that cannot be evaluated.
\<close>

fun apply_postconditions ::
  "Postcondition list \<Rightarrow> CanonicalAction \<Rightarrow> PolicyContext \<Rightarrow> Effect \<Rightarrow> MatchedRule \<Rightarrow> MatchedRule list \<Rightarrow>
     (MatchedRule \<times> MatchedRule list \<times> Unevaluable) + (Effect \<times> MatchedRule \<times> MatchedRule list)" where
  "apply_postconditions [] action context effect deciding applied = Inr (effect, deciding, applied)"
| "apply_postconditions (post # posts) action context effect deciding applied =
     (if \<not> selects post effect then apply_postconditions posts action context effect deciding applied
      else case When_matches (post_when post) action context of
          Unevaluable why \<Rightarrow>
            let at = MatchedRule_new (post_id post) (post_source post) UnresolvedCanonicalInput
            in Inl (at, applied @ [at], why)
        | No \<Rightarrow> apply_postconditions posts action context effect deciding applied
        | Yes \<Rightarrow>
            if Unless_suppresses (post_unless post) context
            then apply_postconditions posts action context effect deciding applied
            else
              let narrowed = Effect_meet effect (post_effect post);
                  at = MatchedRule_new (post_id post) (post_source post) (post_reason post)
              in apply_postconditions posts action context narrowed
                   (if narrowed \<noteq> effect then at else deciding) (applied @ [at]))"

definition evaluate :: "CompiledPolicy \<Rightarrow> CanonicalAction \<Rightarrow> PolicyContext \<Rightarrow> Decision" where
  "evaluate policy action context =
     (let capability = act_capability action in
      case first_match policy action context of
        None \<Rightarrow> unmatched policy capability
      | Some (MatchedUnresolved rule why) \<Rightarrow>
          let at = MatchedRule_new (rule_id rule) (rule_source rule) UnresolvedCanonicalInput
          in Decision_not_evaluated at at [] capability why
      | Some (MatchedRuleAt rule) \<Rightarrow>
          let primary = MatchedRule_new (rule_id rule) (rule_source rule) (rule_reason rule) in
          (case apply_postconditions (policy_postconditions policy) action context (rule_effect rule) primary [] of
             Inl (at, applied, why) \<Rightarrow> Decision_not_evaluated at primary applied capability why
           | Inr (effect, deciding, applied) \<Rightarrow>
               let approval = (case effect of RequireApproval \<Rightarrow> rule_approval rule | _ \<Rightarrow> None);
                   obligations = (case effect of Deny \<Rightarrow> Obligations_none | _ \<Rightarrow> rule_obligations rule)
               in Decision_new effect deciding primary applied capability approval obligations))"

section \<open>The effect alone\<close>

text \<open>
  What the evaluator promises about the effect, without the record of how it got there: the effect of
  the first rule that matches, passed through the postconditions.
\<close>

fun narrow_effect :: "Postcondition list \<Rightarrow> CanonicalAction \<Rightarrow> PolicyContext \<Rightarrow> Effect \<Rightarrow> Effect" where
  "narrow_effect [] action context effect = effect"
| "narrow_effect (post # posts) action context effect =
     (if \<not> selects post effect then narrow_effect posts action context effect
      else case When_matches (post_when post) action context of
          Unevaluable why \<Rightarrow> Deny
        | No \<Rightarrow> narrow_effect posts action context effect
        | Yes \<Rightarrow>
            if Unless_suppresses (post_unless post) context then narrow_effect posts action context effect
            else narrow_effect posts action context (Effect_meet effect (post_effect post)))"

definition rules_effect :: "Rule list \<Rightarrow> Postcondition list \<Rightarrow> CanonicalAction \<Rightarrow> PolicyContext \<Rightarrow> Effect" where
  "rules_effect rules posts action context =
     (case first_match_rules rules action context of
        Some (MatchedRuleAt rule) \<Rightarrow> narrow_effect posts action context (rule_effect rule)
      | _ \<Rightarrow> Deny)"

lemma apply_postconditions_effect:
  "(case apply_postconditions posts action context effect deciding applied of
      Inl _ \<Rightarrow> Deny | Inr (e, _, _) \<Rightarrow> e) = narrow_effect posts action context effect"
proof (induction posts arbitrary: effect deciding applied)
  case (Cons post posts)
  then show ?case
    by (cases "When_matches (post_when post) action context") (simp_all add: Let_def)
qed simp

lemma evaluate_effect:
  "dec_effect (evaluate policy action context) =
     rules_effect (policy_rules policy) (policy_postconditions policy) action context"
proof (cases "first_match_rules (policy_rules policy) action context")
  case None
  then show ?thesis
    by (simp add: evaluate_def first_match_def rules_effect_def unmatched_def Decision_new_def Let_def)
next
  case (Some m)
  show ?thesis
  proof (cases m)
    case (MatchedRuleAt rule)
    let ?r = "apply_postconditions (policy_postconditions policy) action context (rule_effect rule)
        (MatchedRule_new (rule_id rule) (rule_source rule) (rule_reason rule)) []"
    show ?thesis
      using Some MatchedRuleAt apply_postconditions_effect [of "policy_postconditions policy" action "context"
          "rule_effect rule" "MatchedRule_new (rule_id rule) (rule_source rule) (rule_reason rule)" "[]"]
      by (cases ?r) (auto simp: evaluate_def first_match_def rules_effect_def Decision_new_def
          Decision_not_evaluated_def Let_def)
  qed (use Some in \<open>simp add: evaluate_def first_match_def rules_effect_def Decision_not_evaluated_def Let_def\<close>)
qed

lemma narrow_effect_lower: "Effect_narrower_or_equal (narrow_effect posts action context e) e"
proof (induction posts arbitrary: e)
  case (Cons post posts)
  have "Effect_narrower_or_equal (narrow_effect posts action context (Effect_meet e (post_effect post))) e"
    using Cons.IH Effect_meet_lower(1) Effect_narrower_trans by blast
  with Cons.IH show ?case
    by (cases "When_matches (post_when post) action context") simp_all
qed simp

lemma narrow_effect_Deny [simp]: "narrow_effect posts action context Deny = Deny"
  using narrow_effect_lower [of posts action "context" Deny] by simp

lemma narrow_effect_append:
  "narrow_effect (ps @ qs) action context e = narrow_effect qs action context (narrow_effect ps action context e)"
proof (induction ps arbitrary: e)
  case (Cons post ps)
  then show ?case by (cases "When_matches (post_when post) action context") simp_all
qed simp

lemma narrow_effect_denying:
  "\<forall>post \<in> set posts. post_effect post = Deny \<Longrightarrow>
   narrow_effect posts action context e = e \<or> narrow_effect posts action context e = Deny"
proof (induction posts)
  case (Cons post posts)
  then show ?case by (cases "When_matches (post_when post) action context") auto
qed simp

lemma first_match_append:
  "first_match_rules (rs @ ss) action context =
     (case first_match_rules rs action context of Some m \<Rightarrow> Some m | None \<Rightarrow> first_match_rules ss action context)"
proof (induction rs)
  case (Cons r rs)
  then show ?case by (cases "When_matches (rule_when r) action context") simp_all
qed simp

lemma first_match_in:
  "first_match_rules rs action context = Some (MatchedRuleAt r) \<Longrightarrow> r \<in> set rs"
  "first_match_rules rs action context = Some (MatchedUnresolved r why) \<Longrightarrow> r \<in> set rs"
  by (induction rs) (auto split: Match.splits if_splits)

text \<open>Rules and postconditions that only deny, in front of any others, can only lower the effect.\<close>

lemma denying_extension:
  assumes "\<forall>rule \<in> set rs. rule_effect rule = Deny" "\<forall>post \<in> set ps. post_effect post = Deny"
  shows "Effect_narrower_or_equal (rules_effect (rs @ ss) (ps @ qs) action context) (rules_effect ss qs action context)"
proof (cases "first_match_rules rs action context")
  case None
  then have eq: "first_match_rules (rs @ ss) action context = first_match_rules ss action context"
    by (simp add: first_match_append)
  show ?thesis
  proof (cases "first_match_rules ss action context")
    case (Some m)
    have "narrow_effect (ps @ qs) action context e = narrow_effect qs action context e \<or>
        narrow_effect (ps @ qs) action context e = Deny" for e
      using narrow_effect_denying [OF assms(2), of action "context" e]
      by (auto simp: narrow_effect_append)
    then show ?thesis
      unfolding rules_effect_def eq Some by (cases m) (auto, metis Effect_order(1,2))
  qed (simp add: rules_effect_def eq)
next
  case (Some m)
  have "rules_effect (rs @ ss) (ps @ qs) action context = Deny"
  proof (cases m)
    case (MatchedRuleAt rule)
    with Some assms(1) first_match_in have "rule_effect rule = Deny" by blast
    with Some MatchedRuleAt show ?thesis by (simp add: rules_effect_def first_match_append)
  qed (use Some in \<open>simp add: rules_effect_def first_match_append\<close>)
  then show ?thesis by simp
qed

section \<open>Missing inputs\<close>

text \<open>
  A context and an action that know less: some anchors are unresolved that were resolved, or the
  destination address is missing.
\<close>

definition knows_less :: "PathAnchors \<Rightarrow> PathAnchors \<Rightarrow> bool" where
  "knows_less lo hi \<longleftrightarrow> (\<forall>a. PathAnchors_get lo a = None \<or> PathAnchors_get lo a = PathAnchors_get hi a)"

definition forget ::
  "PathAnchors \<Rightarrow> bool \<Rightarrow> CanonicalAction \<times> PolicyContext \<Rightarrow> CanonicalAction \<times> PolicyContext" where
  "forget anchors drop_address = (\<lambda>(action, context).
     (if drop_address then action\<lparr>act_destination_ip := None\<rparr> else action, context\<lparr>ctx_anchors := anchors\<rparr>))"

lemma anchor_root_less:
  "knows_less lo hi \<Longrightarrow> anchor_root lo a = anchor_root hi a \<or> (\<exists>b. anchor_root lo a = Err b)"
proof -
  assume "knows_less lo hi"
  then have "PathAnchors_get lo a = None \<or> PathAnchors_get lo a = PathAnchors_get hi a"
    by (simp add: knows_less_def)
  then show ?thesis by (cases a) (auto simp: anchor_root_def)
qed

lemma RulePath_contains_less:
  "knows_less lo hi \<Longrightarrow>
   RulePath_contains p lo c = RulePath_contains p hi c \<or> (\<exists>b. RulePath_contains p lo c = Err b)"
  using anchor_root_less [of lo hi "rp_anchor p"] by (auto simp: RulePath_contains_exact)

lemma RulePath_is_exactly_less:
  "knows_less lo hi \<Longrightarrow>
   RulePath_is_exactly p lo c = RulePath_is_exactly p hi c \<or> (\<exists>b. RulePath_is_exactly p lo c = Err b)"
  using anchor_root_less [of lo hi "rp_anchor p"] by (auto simp: RulePath_is_exactly_exact)

lemma ExecutableSpec_matches_less:
  "knows_less lo hi \<Longrightarrow>
   ExecutableSpec_matches s lo c = ExecutableSpec_matches s hi c \<or> (\<exists>b. ExecutableSpec_matches s lo c = Err b)"
  by (cases s) (use RulePath_is_exactly_less in \<open>auto, metis and_then_simps\<close>)

lemma try_any_less:
  assumes "\<And>x. f x = g x \<or> (\<exists>b. f x = Err b)"
  shows "MatchValue_try_any f v = MatchValue_try_any g v \<or> (\<exists>b. MatchValue_try_any f v = Err b)"
proof (cases v)
  case (MatchIn xs)
  have "try_any_list f xs = try_any_list g xs \<or> (\<exists>b. try_any_list f xs = Err b)"
  proof (induction xs)
    case (Cons x xs)
    then show ?case using assms [of x] by (cases "g x") auto
  qed simp
  with MatchIn show ?thesis by simp
qed (use assms in simp)

lemma path_under_less:
  "knows_less anchors (ctx_anchors context) \<Longrightarrow>
   path_under ps (context\<lparr>ctx_anchors := anchors\<rparr>) sc = path_under ps context sc \<or>
   (\<exists>b. path_under ps (context\<lparr>ctx_anchors := anchors\<rparr>) sc = Err b)"
  by (cases sc) (auto simp: path_under_def intro!: try_any_less RulePath_contains_less)

lemma executable_in_less:
  "knows_less anchors (ctx_anchors context) \<Longrightarrow>
   executable_in es (context\<lparr>ctx_anchors := anchors\<rparr>) sc = executable_in es context sc \<or>
   (\<exists>b. executable_in es (context\<lparr>ctx_anchors := anchors\<rparr>) sc = Err b)"
  by (cases sc) (auto simp: executable_in_def intro!: try_any_less ExecutableSpec_matches_less)

lemma plain_forget:
  "forget anchors b (action, context) = (action', context') \<Longrightarrow>
   When_matches_plain w action' context' = When_matches_plain w action context"
  by (auto simp: forget_def When_matches_plain_def)

lemma match_executable_less:
  assumes "knows_less anchors (ctx_anchors context)" "forget anchors b (action, context) = (action', context')"
  shows "match_executable w action' context' r = match_executable w action context r \<or>
    (\<exists>why. match_executable w action' context' r = Unevaluable why)"
proof (cases "when_executable_in w")
  case (Some es)
  have ctx: "context' = context\<lparr>ctx_anchors := anchors\<rparr>" "act_capability action' = act_capability action"
    using assms(2) by (auto simp: forget_def split: if_splits)
  show ?thesis
    using executable_in_less [OF assms(1), of es "cap_scope (act_capability action)"] Some ctx
    by (auto simp: match_executable_def)
qed (simp add: match_executable_def)

lemma match_path_less:
  assumes "knows_less anchors (ctx_anchors context)" "forget anchors b (action, context) = (action', context')"
  shows "match_path w action' context' r = match_path w action context r \<or>
    (\<exists>why. match_path w action' context' r = Unevaluable why)"
proof (cases "when_path_under w")
  case None
  then show ?thesis using match_executable_less [OF assms] by (simp add: match_path_def)
next
  case (Some ps)
  have ctx: "context' = context\<lparr>ctx_anchors := anchors\<rparr>" "act_capability action' = act_capability action"
    using assms(2) by (auto simp: forget_def split: if_splits)
  show ?thesis
  proof (cases "path_under ps context' (cap_scope (act_capability action))")
    case (Inr m)
    with path_under_less [OF assms(1), of ps "cap_scope (act_capability action)"] ctx
    have "path_under ps context (cap_scope (act_capability action)) = Ok m" by auto
    with Inr Some ctx show ?thesis
      using match_executable_less [OF assms, of w "Match_and r (Match_from_bool m)"]
      by (simp add: match_path_def)
  qed (use Some ctx in \<open>simp add: match_path_def\<close>)
qed

lemma address_in_less:
  "forget anchors b (action, context) = (action', context') \<Longrightarrow>
   address_in rs action' = address_in rs action \<or> (\<exists>why. address_in rs action' = Err why)"
  by (auto simp: forget_def address_in_def split: if_splits)

lemma match_address_less:
  assumes "knows_less anchors (ctx_anchors context)" "forget anchors b (action, context) = (action', context')"
  shows "match_address w action' context' r = match_address w action context r \<or>
    (\<exists>why. match_address w action' context' r = Unevaluable why)"
proof (cases "when_ip_in w")
  case None
  then show ?thesis using match_path_less [OF assms] by (simp add: match_address_def)
next
  case (Some rs)
  show ?thesis
  proof (cases "address_in rs action'")
    case (Inr m)
    with address_in_less [OF assms(2), of rs] have "address_in rs action = Ok m" by auto
    with Inr Some show ?thesis
      using match_path_less [OF assms, of w "Match_and r (Match_from_bool m)"]
      by (simp add: match_address_def)
  qed (use Some in \<open>simp add: match_address_def\<close>)
qed

lemma When_matches_less:
  assumes "knows_less anchors (ctx_anchors context)" "forget anchors b (action, context) = (action', context')"
  shows "When_matches w action' context' = When_matches w action context \<or>
    (\<exists>why. When_matches w action' context' = Unevaluable why)"
  using match_address_less [OF assms] plain_forget [OF assms(2)] by (auto simp: When_matches_def Let_def)

lemma suppresses_forget:
  "forget anchors b (action, context) = (action', context') \<Longrightarrow>
   Unless_suppresses u context' = Unless_suppresses u context"
  by (auto simp: forget_def Unless_suppresses_def split: option.splits)

lemma narrow_effect_less:
  assumes "knows_less anchors (ctx_anchors context)" "forget anchors b (action, context) = (action', context')"
  shows "narrow_effect posts action' context' e = narrow_effect posts action context e \<or>
    narrow_effect posts action' context' e = Deny"
proof (induction posts arbitrary: e)
  case (Cons post posts)
  show ?case
    using When_matches_less [OF assms, of "post_when post"] suppresses_forget [OF assms(2), of "post_unless post"]
      Cons.IH [of e] Cons.IH [of "Effect_meet e (post_effect post)"]
    by (cases "When_matches (post_when post) action context") auto
qed simp

lemma first_match_less:
  assumes "knows_less anchors (ctx_anchors context)" "forget anchors b (action, context) = (action', context')"
  shows "first_match_rules rs action' context' = first_match_rules rs action context \<or>
    (\<exists>r why. first_match_rules rs action' context' = Some (MatchedUnresolved r why))"
proof (induction rs)
  case (Cons r rs)
  then show ?case
    using When_matches_less [OF assms, of "rule_when r"] suppresses_forget [OF assms(2), of "rule_unless r"]
    by (cases "When_matches (rule_when r) action context") auto
qed simp

lemma rules_effect_less:
  assumes "knows_less anchors (ctx_anchors context)" "forget anchors b (action, context) = (action', context')"
  shows "Effect_narrower_or_equal (rules_effect rs ps action' context') (rules_effect rs ps action context)"
proof (cases "first_match_rules rs action' context' = first_match_rules rs action context")
  case True
  show ?thesis
  proof (cases "first_match_rules rs action context")
    case (Some m)
    show ?thesis
      unfolding rules_effect_def True Some
      by (cases m) (use narrow_effect_less [OF assms] in \<open>auto, metis Effect_order(1,2)\<close>)
  qed (simp add: rules_effect_def True)
next
  case False
  then show ?thesis using first_match_less [OF assms, of rs] by (auto simp: rules_effect_def)
qed

section \<open>The default rule\<close>

lemma note_name_Nil [simp]: "note_name b n = [] \<longleftrightarrow> \<not> b"
  by (simp add: note_name_def)

lemma When_empty_default: "When_is_empty w \<longleftrightarrow> w = When_default"
proof
  assume "When_is_empty w"
  then show "w = When_default"
    by (intro When.equality) (simp_all add: When_is_empty_def When_present_def When_default_def)
qed (simp add: When_is_empty_def When_present_def When_default_def)

lemma When_default_matches [simp]: "When_matches When_default action context = Yes"
  by (simp add: When_matches_def When_matches_plain_def When_default_def is_none_or_def Match_from_bool_def
      match_address_def match_path_def match_executable_def)

lemma Unless_empty_never: "Unless_is_empty u \<Longrightarrow> \<not> Unless_suppresses u context"
  by (simp add: Unless_is_empty_def Unless_suppresses_def)

lemma first_match_default:
  assumes "When_is_empty (rule_when d)" "Unless_is_empty (rule_unless d)"
  shows "first_match_rules (rs @ [d]) action context \<noteq> None"
  using assms by (simp add: first_match_append When_empty_default Unless_empty_never split: option.splits)

end
