(* ===== verification/Pol_Compose.thy ===== *)
theory Pol_Compose
  imports Pol_Eval
begin

text \<open>
  Composition of a profile with what it extends (\<^verbatim>\<open>policy/compose.rs\<close>) and the loader's checks
  on compiled rules (\<^verbatim>\<open>policy/load.rs\<close>): the default rule, predicate applicability and unique
  ids. The loader's walk over the TOML document is not part of this theory.
\<close>

section \<open>Load errors\<close>

type_synonym FieldPath = string

definition FieldPath_root :: FieldPath where "FieldPath_root = []"

definition FieldPath_member :: "FieldPath \<Rightarrow> string \<Rightarrow> FieldPath" where
  "FieldPath_member self name = (if self = [] then name else self @ CHR ''.'' # name)"

definition FieldPath_index :: "FieldPath \<Rightarrow> nat \<Rightarrow> FieldPath" where
  "FieldPath_index self i = self @ CHR ''['' # show_nat i @ '']''"

datatype Expected =
  ExpectedString | ExpectedInteger | ExpectedBoolean | ExpectedTable | ExpectedArray | ExpectedStringOrArray

datatype PolicyLoadError =
  SourceTooLarge nat nat | SourceNameInvalid | TooManyProfiles nat nat | Syntax SourceLocation string
| SchemaVersionMissing SourceLocation | SchemaVersionUnsupported SourceLocation int nat
| UnknownField SourceLocation FieldPath | MissingField SourceLocation FieldPath
| TypeMismatch SourceLocation FieldPath Expected | BadValue SourceLocation FieldPath PolicyValueError
| DuplicateRuleId SourceLocation SourceLocation string | DuplicateProfileName string
| TooManyRules SourceLocation nat nat | DefaultRuleMissing SourceLocation
| DefaultRuleNotLast SourceLocation nat | DefaultRuleNotDeny SourceLocation
| DefaultRuleConditional SourceLocation | PredicateNotApplicable SourceLocation FieldPath string
| PredicateNeedsVerbs SourceLocation FieldPath | ApprovalSpecMismatch SourceLocation string
| ExtendsUnknownProfile SourceLocation string | ExtendsCycle "string list"
| ExtendsTooDeep "string list" nat | WideningExtension SourceLocation string string
| ExtendsShadowsRuleId SourceLocation string string | ExtendsRedeclaresDefault SourceLocation

section \<open>The loader's checks on compiled rules\<close>

definition check_default :: "SourceLocation \<Rightarrow> Rule list \<Rightarrow> bool \<Rightarrow> (unit, PolicyLoadError) result" where
  "check_default origin rules extending =
     (let defaults = filter (\<lambda>(_, rule). Rule_is_default rule) (enumerate 0 rules) in
      if extending then
        (case defaults of (_, rule) # _ \<Rightarrow> Err (ExtendsRedeclaresDefault (rule_source rule)) | [] \<Rightarrow> Ok ())
      else case defaults of
          [] \<Rightarrow> Err (DefaultRuleMissing origin)
        | (index, rule) # _ \<Rightarrow>
            if 1 < length defaults
            then Err (DuplicateRuleId (rule_source rule) (rule_source rule) RuleId_DEFAULT)
            else let following = length rules - index - 1 in
              if 0 < following then Err (DefaultRuleNotLast (rule_source rule) following)
              else if rule_effect rule \<noteq> Deny then Err (DefaultRuleNotDeny (rule_source rule))
              else if \<not> When_is_empty (rule_when rule) \<or> \<not> Unless_is_empty (rule_unless rule)
              then Err (DefaultRuleConditional (rule_source rule))
              else Ok ())"

definition PredicateName_requires :: "PredicateName \<Rightarrow> string" where
  "PredicateName_requires self =
     (case self of
        PPathUnder \<Rightarrow> ''it applies to fs verbs, whose scope is a path''
      | PMaxBytes \<Rightarrow> ''it applies to fs verbs, whose scope is a path''
      | PExecutableIn \<Rightarrow> ''it applies to process verbs, whose scope is an executable''
      | PArgvSafe \<Rightarrow> ''it applies to process verbs, whose scope is an executable''
      | PHostMatches \<Rightarrow> ''it applies to network and browser verbs''
      | PIpIn \<Rightarrow> ''it applies to network verbs, whose scope is an endpoint''
      | PDestinationNovel \<Rightarrow> ''it applies to verbs with a destination: network, browser, channel''
      | _ \<Rightarrow> ''it applies to every verb'')"

fun check_names ::
  "PredicateName list \<Rightarrow> When \<Rightarrow> FieldPath \<Rightarrow> SourceLocation \<Rightarrow> (unit, PolicyLoadError) result" where
  "check_names [] self field at = Ok ()"
| "check_names (name # names) self field at =
     (let universal = list_all (\<lambda>verb. PredicateName_applies_to name verb) Verb_ALL;
          where' = FieldPath_member (FieldPath_member field ''when'') (PredicateName_as_str name) in
      if universal then check_names names self field at
      else case when_verb self of
          None \<Rightarrow> Err (PredicateNeedsVerbs at where')
        | Some verbs \<Rightarrow>
            if \<not> MatchValue_any (\<lambda>verb. PredicateName_applies_to name verb) verbs
            then Err (PredicateNotApplicable at where' (PredicateName_requires name))
            else check_names names self field at)"

definition check_applicability ::
  "When \<Rightarrow> Unless \<Rightarrow> FieldPath \<Rightarrow> SourceLocation \<Rightarrow> (unit, PolicyLoadError) result" where
  "check_applicability w u field at = check_names (When_present w @ Unless_present u) w field at"

definition remember_id ::
  "(string \<times> SourceLocation) list \<Rightarrow> RuleId \<Rightarrow> SourceLocation \<Rightarrow> ((string \<times> SourceLocation) list, PolicyLoadError) result" where
  "remember_id seen i at =
     (case find (\<lambda>(name, _). name = i) seen of
        Some (_, first) \<Rightarrow> Err (DuplicateRuleId at first i)
      | None \<Rightarrow> Ok (seen @ [(i, at)]))"

definition load_parse_verb :: "string \<Rightarrow> Verb option" where
  "load_parse_verb text =
     (case split_once CHR ''.'' text of None \<Rightarrow> None
      | Some (namespace, action) \<Rightarrow>
          (case Namespace_parse namespace of None \<Rightarrow> None | Some n \<Rightarrow> Verb_parse_action n action))"

section \<open>Composition\<close>

definition find_profile :: "ProfileName \<Rightarrow> Profile list \<Rightarrow> Profile option" where
  "find_profile wanted profiles = find (\<lambda>p. profile_name p = wanted) profiles"

function resolve_loop ::
  "Profile list \<Rightarrow> Profile \<Rightarrow> Profile list \<Rightarrow> ProfileName list \<Rightarrow> (Profile list, PolicyLoadError) result" where
  "resolve_loop profiles current chain seen =
     (case profile_extends current of
        None \<Rightarrow> Ok chain
      | Some parent \<Rightarrow>
          if parent \<in> set seen then Err (ExtendsCycle (seen @ [parent]))
          else (case find_profile parent profiles of
              None \<Rightarrow> Err (ExtendsUnknownProfile (profile_source current) parent)
            | Some next' \<Rightarrow>
                if MAX_EXTENDS_DEPTH \<le> length chain
                then Err (ExtendsTooDeep (seen @ [parent]) MAX_EXTENDS_DEPTH)
                else resolve_loop profiles next' (chain @ [next']) (seen @ [parent])))"
  by pat_completeness auto
termination
  by (relation "measure (\<lambda>(_, _, chain, _). MAX_EXTENDS_DEPTH - length chain)") auto

declare resolve_loop.simps [simp del]

definition resolve_chain :: "ProfileName \<Rightarrow> Profile list \<Rightarrow> (Profile list, PolicyLoadError) result" where
  "resolve_chain name profiles =
     (case find_profile name profiles of
        None \<Rightarrow> Err (ExtendsUnknownProfile SourceLocation_synthetic name)
      | Some current \<Rightarrow> resolve_loop profiles current [current] [profile_name current])"

definition WIDENING_DETAIL :: string where
  "WIDENING_DETAIL = ''an extending profile may only add DENY rules, because DENY is the only effect '' @
     ''that is narrower than every result its parent could return''"

definition id_clashes :: "RuleId \<Rightarrow> Profile \<Rightarrow> bool" where
  "id_clashes i other \<longleftrightarrow> list_ex (\<lambda>r. rule_id r = i) (profile_rules other) \<or>
     list_ex (\<lambda>p. post_id p = i) (profile_postconditions other)"

definition check_id_is_fresh ::
  "RuleId \<Rightarrow> SourceLocation \<Rightarrow> Profile \<Rightarrow> Profile \<Rightarrow> Profile list \<Rightarrow> (unit, PolicyLoadError) result" where
  "check_id_is_fresh i at profile root extenders =
     (let others = filter (\<lambda>other. profile_name other \<noteq> profile_name profile) (extenders @ [root]) in
      case find (id_clashes i) others of
        Some other \<Rightarrow> Err (ExtendsShadowsRuleId at i (profile_name other))
      | None \<Rightarrow> Ok ())"

fun check_extender_rules ::
  "Rule list \<Rightarrow> Profile \<Rightarrow> Profile \<Rightarrow> Profile list \<Rightarrow> (unit, PolicyLoadError) result" where
  "check_extender_rules [] profile root extenders = Ok ()"
| "check_extender_rules (rule # rules) profile root extenders =
     (if Rule_is_default rule then Err (ExtendsRedeclaresDefault (rule_source rule))
      else if rule_effect rule \<noteq> Deny
      then Err (WideningExtension (rule_source rule) (rule_id rule) WIDENING_DETAIL)
      else and_then (check_id_is_fresh (rule_id rule) (rule_source rule) profile root extenders)
        (\<lambda>_. check_extender_rules rules profile root extenders))"

fun check_extender_posts ::
  "Postcondition list \<Rightarrow> Profile \<Rightarrow> Profile \<Rightarrow> Profile list \<Rightarrow> (unit, PolicyLoadError) result" where
  "check_extender_posts [] profile root extenders = Ok ()"
| "check_extender_posts (post # posts) profile root extenders =
     (if post_effect post \<noteq> Deny
      then Err (WideningExtension (post_source post) (post_id post) WIDENING_DETAIL)
      else and_then (check_id_is_fresh (post_id post) (post_source post) profile root extenders)
        (\<lambda>_. check_extender_posts posts profile root extenders))"

definition check_extender :: "Profile \<Rightarrow> Profile \<Rightarrow> Profile list \<Rightarrow> (unit, PolicyLoadError) result" where
  "check_extender profile root extenders =
     and_then (check_extender_rules (profile_rules profile) profile root extenders)
       (\<lambda>_. check_extender_posts (profile_postconditions profile) profile root extenders)"

fun check_extenders :: "Profile list \<Rightarrow> Profile \<Rightarrow> Profile list \<Rightarrow> (unit, PolicyLoadError) result" where
  "check_extenders [] root extenders = Ok ()"
| "check_extenders (profile # profiles) root extenders =
     and_then (check_extender profile root extenders) (\<lambda>_. check_extenders profiles root extenders)"

definition compose :: "ProfileName \<Rightarrow> Profile list \<Rightarrow> (CompiledPolicy, PolicyLoadError) result" where
  "compose name profiles =
     and_then (resolve_chain name profiles) (\<lambda>chain.
       let root = last chain; extenders = butlast chain in
       and_then (check_extenders extenders root extenders) (\<lambda>_.
         let rules = concat (map profile_rules chain);
             postconditions = concat (map profile_postconditions chain) in
         if \<not> (rules \<noteq> [] \<and> Rule_is_default (last rules))
         then Err (DefaultRuleMissing (profile_source root))
         else Ok \<lparr>policy_name = name, policy_chain = map profile_name chain, policy_rules = rules,
                 policy_postconditions = postconditions\<rparr>))"

section \<open>The chain\<close>

lemma find_profile_name: "find_profile n ps = Some p \<Longrightarrow> profile_name p = n \<and> p \<in> set ps"
  by (auto simp: find_profile_def dest: find_SomeD)

lemma resolve_loop_step:
  assumes "profile_extends current = Some parent" "resolve_loop ps current chain seen = Ok full"
  obtains next' where "parent \<notin> set seen" "find_profile parent ps = Some next'" "length chain < MAX_EXTENDS_DEPTH"
    "resolve_loop ps next' (chain @ [next']) (seen @ [parent]) = Ok full"
proof (cases "find_profile parent ps")
  case None
  with assms show ?thesis by (simp add: resolve_loop.simps [of ps current] split: if_splits)
next
  case (Some n)
  with assms show ?thesis
    by (intro that [of n]) (simp_all add: resolve_loop.simps [of ps current] split: if_splits)
qed

lemma resolve_loop_shape:
  "resolve_loop ps current chain seen = Ok full \<Longrightarrow> length chain \<le> MAX_EXTENDS_DEPTH \<Longrightarrow>
   distinct (map profile_name chain) \<Longrightarrow> set (map profile_name chain) \<subseteq> set seen \<Longrightarrow>
   \<exists>rest. full = chain @ rest \<and> length full \<le> MAX_EXTENDS_DEPTH \<and> distinct (map profile_name full)"
proof (induction ps current chain seen rule: resolve_loop.induct)
  case (1 ps current chain seen)
  show ?case
  proof (cases "profile_extends current")
    case None
    with 1 show ?thesis by (simp add: resolve_loop.simps [of ps current])
  next
    case (Some parent)
    from resolve_loop_step [OF Some "1.prems"(1)] obtain n where
      n: "parent \<notin> set seen" "find_profile parent ps = Some n" "length chain < MAX_EXTENDS_DEPTH"
        "resolve_loop ps n (chain @ [n]) (seen @ [parent]) = Ok full" .
    have "profile_name n = parent" using find_profile_name [OF n(2)] by blast
    with n "1.prems" have "\<exists>rest. full = (chain @ [n]) @ rest \<and> length full \<le> MAX_EXTENDS_DEPTH \<and>
        distinct (map profile_name full)"
      by (intro "1.IH" [OF Some n(1,2)]) auto
    then show ?thesis by auto
  qed
qed

lemma resolve_loop_prefix: "resolve_loop ps current chain seen = Ok full \<Longrightarrow> \<exists>rest. full = chain @ rest"
proof (induction ps current chain seen rule: resolve_loop.induct)
  case (1 ps current chain seen)
  show ?case
  proof (cases "profile_extends current")
    case None
    with 1 show ?thesis by (simp add: resolve_loop.simps [of ps current])
  next
    case (Some parent)
    from resolve_loop_step [OF Some "1.prems"] obtain n where
      n: "parent \<notin> set seen" "find_profile parent ps = Some n" "length chain < MAX_EXTENDS_DEPTH"
        "resolve_loop ps n (chain @ [n]) (seen @ [parent]) = Ok full" .
    then have "\<exists>rest. full = (chain @ [n]) @ rest" using "1.IH" [OF Some n(1,2)] by simp
    then show ?thesis by auto
  qed
qed

lemma resolve_loop_weaken:
  "resolve_loop ps current chain seen = Ok (chain @ rest) \<Longrightarrow> length chain' \<le> length chain \<Longrightarrow>
   set seen' \<subseteq> set seen \<Longrightarrow> resolve_loop ps current chain' seen' = Ok (chain' @ rest)"
proof (induction ps current chain seen arbitrary: chain' seen' rest rule: resolve_loop.induct)
  case (1 ps current chain seen)
  show ?case
  proof (cases "profile_extends current")
    case None
    with 1 show ?thesis by (simp add: resolve_loop.simps [of ps current])
  next
    case (Some parent)
    from resolve_loop_step [OF Some "1.prems"(1)] obtain n where
      n: "parent \<notin> set seen" "find_profile parent ps = Some n" "length chain < MAX_EXTENDS_DEPTH"
        "resolve_loop ps n (chain @ [n]) (seen @ [parent]) = Ok (chain @ rest)" .
    obtain rest' where rest: "chain @ rest = (chain @ [n]) @ rest'"
      using resolve_loop_prefix [OF n(4)] by blast
    have "resolve_loop ps n (chain' @ [n]) (seen' @ [parent]) = Ok ((chain' @ [n]) @ rest')"
    proof (rule "1.IH" [OF Some n(1,2)])
      show "\<not> MAX_EXTENDS_DEPTH \<le> length chain" using n(3) by simp
      show "resolve_loop ps n (chain @ [n]) (seen @ [parent]) = Ok ((chain @ [n]) @ rest')"
        using n(4) rest by simp
    qed (use "1.prems"(2,3) in auto)
    moreover have "parent \<notin> set seen'" "\<not> MAX_EXTENDS_DEPTH \<le> length chain'" using n "1.prems"(2,3) by auto
    moreover have "rest = n # rest'" using rest by simp
    ultimately show ?thesis by (simp add: resolve_loop.simps [of ps current chain' seen'] Some n(2))
  qed
qed

section \<open>What the checks give\<close>

lemma fresh_Ok:
  "check_id_is_fresh i at profile root extenders = Ok u \<longleftrightarrow>
     (\<forall>other \<in> set (extenders @ [root]). profile_name other \<noteq> profile_name profile \<longrightarrow> \<not> id_clashes i other)"
proof -
  have "find (id_clashes i) (filter (\<lambda>other. profile_name other \<noteq> profile_name profile) (extenders @ [root])) = None
      \<longleftrightarrow> (\<forall>other \<in> set (extenders @ [root]). profile_name other \<noteq> profile_name profile \<longrightarrow> \<not> id_clashes i other)"
    by (auto simp: find_None_iff)
  then show ?thesis by (auto simp: check_id_is_fresh_def Let_def split: option.splits)
qed

lemma check_extender_rules_Ok:
  "check_extender_rules rules profile root extenders = Ok u \<longleftrightarrow>
     (\<forall>r \<in> set rules. \<not> Rule_is_default r \<and> rule_effect r = Deny \<and>
        check_id_is_fresh (rule_id r) (rule_source r) profile root extenders = Ok ())"
  by (induction rules) (auto simp: and_then_Ok_iff)

lemma check_extender_posts_Ok:
  "check_extender_posts posts profile root extenders = Ok u \<longleftrightarrow>
     (\<forall>p \<in> set posts. post_effect p = Deny \<and>
        check_id_is_fresh (post_id p) (post_source p) profile root extenders = Ok ())"
  by (induction posts) (auto simp: and_then_Ok_iff)

lemma check_extender_Ok:
  "check_extender profile root extenders = Ok u \<longleftrightarrow>
     (\<forall>r \<in> set (profile_rules profile). \<not> Rule_is_default r \<and> rule_effect r = Deny \<and>
        check_id_is_fresh (rule_id r) (rule_source r) profile root extenders = Ok ()) \<and>
     (\<forall>p \<in> set (profile_postconditions profile). post_effect p = Deny \<and>
        check_id_is_fresh (post_id p) (post_source p) profile root extenders = Ok ())"
  by (simp add: check_extender_def and_then_Ok_iff check_extender_rules_Ok check_extender_posts_Ok)

lemma check_extenders_Ok:
  "check_extenders profiles root extenders = Ok u \<longleftrightarrow>
     (\<forall>p \<in> set profiles. check_extender p root extenders = Ok ())"
  by (induction profiles) (auto simp: and_then_Ok_iff)

lemma check_extender_subset:
  "check_extender p root extenders = Ok u \<Longrightarrow> set extenders' \<subseteq> set extenders \<Longrightarrow>
   check_extender p root extenders' = Ok ()"
  unfolding check_extender_Ok fresh_Ok by auto

lemma compose_Ok:
  "compose name profiles = Ok policy \<longleftrightarrow>
     (\<exists>chain. resolve_chain name profiles = Ok chain \<and>
        (\<forall>p \<in> set (butlast chain). check_extender p (last chain) (butlast chain) = Ok ()) \<and>
        concat (map profile_rules chain) \<noteq> [] \<and> Rule_is_default (last (concat (map profile_rules chain))) \<and>
        policy = \<lparr>policy_name = name, policy_chain = map profile_name chain,
          policy_rules = concat (map profile_rules chain),
          policy_postconditions = concat (map profile_postconditions chain)\<rparr>)"
  by (auto simp: compose_def and_then_Ok_iff Let_def check_extenders_Ok split: if_splits)

lemma resolve_chain_parent:
  assumes "resolve_chain name profiles = Ok chain" "find_profile name profiles = Some p" "profile_extends p = Some q"
  obtains rest where "chain = p # rest" "rest \<noteq> []" "resolve_chain q profiles = Ok rest"
proof -
  have loop: "resolve_loop profiles p [p] [profile_name p] = Ok chain"
    using assms(1,2) by (simp add: resolve_chain_def)
  from resolve_loop_step [OF assms(3) loop] obtain n where
    n: "find_profile q profiles = Some n" "resolve_loop profiles n ([p] @ [n]) ([profile_name p] @ [q]) = Ok chain"
    by blast
  obtain rest where rest: "chain = ([p] @ [n]) @ rest" using resolve_loop_prefix [OF n(2)] by blast
  have "resolve_loop profiles n [n] [profile_name n] = Ok ([n] @ rest)"
    by (rule resolve_loop_weaken [OF n(2) [unfolded rest]]) (use find_profile_name [OF n(1)] in auto)
  then have "resolve_chain q profiles = Ok (n # rest)" by (simp add: resolve_chain_def n(1))
  with rest show thesis by (intro that [of "n # rest"]) simp_all
qed

lemma compose_parent:
  assumes "compose name profiles = Ok policy" "find_profile name profiles = Some p" "profile_extends p = Some q"
  obtains parent where "compose q profiles = Ok parent" "policy_chain policy = name # policy_chain parent"
    "policy_rules policy = profile_rules p @ policy_rules parent"
    "policy_postconditions policy = profile_postconditions p @ policy_postconditions parent"
    "\<forall>r \<in> set (profile_rules p). rule_effect r = Deny \<and> \<not> Rule_is_default r"
    "\<forall>r \<in> set (profile_postconditions p). post_effect r = Deny"
proof -
  from assms(1) obtain chain where c: "resolve_chain name profiles = Ok chain"
    "\<forall>x \<in> set (butlast chain). check_extender x (last chain) (butlast chain) = Ok ()"
    "concat (map profile_rules chain) \<noteq> []" "Rule_is_default (last (concat (map profile_rules chain)))"
    "policy = \<lparr>policy_name = name, policy_chain = map profile_name chain,
          policy_rules = concat (map profile_rules chain),
          policy_postconditions = concat (map profile_postconditions chain)\<rparr>"
    unfolding compose_Ok by blast
  from resolve_chain_parent [OF c(1) assms(2,3)] obtain rest where
    rest: "chain = p # rest" "rest \<noteq> []" "resolve_chain q profiles = Ok rest" .
  have bl: "butlast chain = p # butlast rest" "last chain = last rest" using rest by simp_all
  have deny: "\<forall>r \<in> set (profile_rules p). rule_effect r = Deny \<and> \<not> Rule_is_default r"
    "\<forall>r \<in> set (profile_postconditions p). post_effect r = Deny"
    using c(2) bl by (auto simp: check_extender_Ok)
  have nonempty: "concat (map profile_rules rest) \<noteq> []"
  proof
    assume "concat (map profile_rules rest) = []"
    then have "concat (map profile_rules chain) = profile_rules p" using rest by simp
    with c(3,4) deny(1) show False by (metis last_in_set)
  qed
  then have "last (concat (map profile_rules chain)) = last (concat (map profile_rules rest))"
    using rest by simp
  moreover have "\<forall>x \<in> set (butlast rest). check_extender x (last rest) (butlast rest) = Ok ()"
    using c(2) bl check_extender_subset [of _ "last rest" "p # butlast rest" _ "butlast rest"] by auto
  ultimately have "compose q profiles = Ok \<lparr>policy_name = q, policy_chain = map profile_name rest,
      policy_rules = concat (map profile_rules rest),
      policy_postconditions = concat (map profile_postconditions rest)\<rparr>"
    unfolding compose_Ok using rest(3) nonempty c(4) by auto
  then show thesis
    by (rule that) (use c(5) rest(1) deny find_profile_name [OF assms(2)] in auto)
qed

lemma chain_bounds:
  assumes "resolve_chain name profiles = Ok chain"
  shows "chain \<noteq> []" "length chain \<le> MAX_EXTENDS_DEPTH" "distinct (map profile_name chain)"
    "profile_name (hd chain) = name"
proof -
  from assms obtain p where p: "find_profile name profiles = Some p"
    "resolve_loop profiles p [p] [profile_name p] = Ok chain"
    by (auto simp: resolve_chain_def split: option.splits)
  have "\<exists>rest. chain = [p] @ rest \<and> length chain \<le> MAX_EXTENDS_DEPTH \<and> distinct (map profile_name chain)"
    by (rule resolve_loop_shape [OF p(2)]) (simp_all add: MAX_EXTENDS_DEPTH_def)
  then show "chain \<noteq> []" "length chain \<le> MAX_EXTENDS_DEPTH" "distinct (map profile_name chain)"
    "profile_name (hd chain) = name"
    using find_profile_name [OF p(1)] by auto
qed

lemma check_default_Ok:
  assumes "check_default at rules False = Ok u"
  obtains front d where "rules = front @ [d]" "Rule_is_default d" "\<forall>r \<in> set front. \<not> Rule_is_default r"
    "rule_effect d = Deny" "When_is_empty (rule_when d)" "Unless_is_empty (rule_unless d)"
proof -
  let ?ds = "filter (\<lambda>(_, rule). Rule_is_default rule) (enumerate 0 rules)"
  obtain i d where ds: "?ds = [(i, d)]" and i: "length rules - i - 1 = 0"
    and d: "rule_effect d = Deny" "When_is_empty (rule_when d)" "Unless_is_empty (rule_unless d)"
    using assms by (auto simp: check_default_def Let_def split: list.splits if_splits)
  have "(i, d) \<in> set ?ds" using ds by simp
  then have in_rules: "i < length rules" "rules ! i = d" "Rule_is_default d"
    by (auto simp: in_set_enumerate_eq)
  with i have last: "i = length rules - 1" by simp
  have "rules = butlast rules @ [d]"
    using in_rules last by (metis append_butlast_last_id last_conv_nth length_0_conv not_less_zero)
  moreover have "\<not> Rule_is_default r" if r: "r \<in> set (butlast rules)" for r
  proof
    assume dr: "Rule_is_default r"
    from r obtain j where j: "j < length rules - 1" "rules ! j = r"
      by (auto simp: in_set_conv_nth nth_butlast)
    then have "(j, r) \<in> set ?ds" using dr by (auto simp: in_set_enumerate_eq)
    with ds j last show False by simp
  qed
  ultimately show thesis using that d in_rules(3) by blast
qed

end
