(* ===== verification/Pol_Text.thy ===== *)
theory Pol_Text
  imports Pol_Value "HOL-Library.Multiset"
begin

text \<open>
  Laws of the policy values that have a text: obligations and their canonical sets, approval
  lifetimes, and rule-side paths.
\<close>

section \<open>Obligations\<close>

fun wf_Obligation :: "Obligation \<Rightarrow> bool" where
  "wf_Obligation (ForceEnvironment p) = is_lower_kebab p MAX_PROFILE_REF_CHARS"
| "wf_Obligation (RedactProfile p) = is_lower_kebab p MAX_PROFILE_REF_CHARS"
| "wf_Obligation (MaxOutputBytes n) = (n \<noteq> 0)"
| "wf_Obligation _ = True"

lemma parse_byte_cap_show [simp]: "n \<noteq> 0 \<Longrightarrow> parse_byte_cap (show_nat (unat n)) = Ok n"
proof -
  assume "n \<noteq> 0"
  then have "unat n \<noteq> 0" by (simp add: unat_eq_zero)
  moreover have "unat n < 2 ^ 64" using unsigned_less [of n] by simp
  ultimately show ?thesis using show_nat_digits by (auto simp: parse_byte_cap_def list_all_iff)
qed

lemma split_once_eq_append:
  "CHR ''='' \<notin> set s \<Longrightarrow> split_once CHR ''='' (s @ CHR ''='' # t) = Some (s, t)"
  by (simp add: split_once_Some)

lemma split_once_eq_none: "CHR ''='' \<notin> set s \<Longrightarrow> split_once CHR ''='' s = None"
  by (simp add: split_once_None)

lemma AuditLevel_only [simp]: "AuditLevel_as_str level = ''full''" "Full = level"
  by (cases level, simp)+

lemma Obligation_parse_print: "wf_Obligation ob \<Longrightarrow> Obligation_parse (Obligation_to_string ob) = Ok ob"
  using split_once_eq_append [of "''force_environment''"] split_once_eq_append [of "''redact_profile''"]
    split_once_eq_append [of "''max_output_bytes''"] split_once_eq_append [of "''audit_level''"]
  by (cases ob rule: Obligation_to_string.cases)
    (simp_all add: Obligation_parse_def obligation_require_def obligation_flag_def ProfileRef_new_def
      split_once_eq_none Let_def)

lemma Obligation_parse_Ok: "Obligation_parse t = Ok ob \<Longrightarrow> wf_Obligation ob"
  by (auto simp: Obligation_parse_def obligation_require_def obligation_flag_def ProfileRef_new_def
      parse_byte_cap_def and_then_Ok_iff Let_def unat_eq_zero [symmetric] unat_of_nat
      split: option.splits if_splits prod.splits)

fun Obligation_index :: "Obligation \<Rightarrow> nat" where
  "Obligation_index (ForceEnvironment _) = 0"
| "Obligation_index (MaxOutputBytes _) = 1"
| "Obligation_index RequireArtifactCapture = 2"
| "Obligation_index (RedactProfile _) = 3"
| "Obligation_index NetworkDeny = 4"
| "Obligation_index ReadOnlyWorkspace = 5"
| "Obligation_index (ObligationAuditLevel _) = 6"
| "Obligation_index SingleUseOnly = 7"
| "Obligation_index ForceQuarantinedRead = 8"
| "Obligation_index WorkspaceExecHygiene = 9"

lemma Obligation_key_index: "\<exists>payload. Obligation_key ob = KL (KN (Obligation_index ob) # payload)"
  by (cases ob rule: Obligation_key.cases) simp_all

lemma Obligation_key_mono: "Obligation_key a \<le> Obligation_key b \<Longrightarrow> Obligation_index a \<le> Obligation_index b"
  using Obligation_key_index [of a] Obligation_key_index [of b] by (auto simp: less_eq_okey_def)

lemma Obligation_name_index: "Obligation_name a = Obligation_name b \<longleftrightarrow> Obligation_index a = Obligation_index b"
  by (cases a; cases b; simp)

lemma Obligation_key_inject: "Obligation_key a = Obligation_key b \<longleftrightarrow> a = b"
  by (cases a rule: Obligation_key.cases; cases b rule: Obligation_key.cases; simp)

lemma any_window_sorted:
  fixes f :: "'a \<Rightarrow> nat"
  shows "sorted (map f xs) \<Longrightarrow> any_window (\<lambda>a b. f a = f b) xs \<longleftrightarrow> \<not> distinct (map f xs)"
proof (induction "\<lambda>a b. f a = f b" xs rule: any_window.induct)
  case (1 a b rest)
  have "f a \<in> f ` set (b # rest) \<longleftrightarrow> f a = f b" using "1.prems" by force
  with 1 show ?case by auto
qed auto

lemma Obligations_new_Ok:
  "Obligations_new obs = Ok r \<longleftrightarrow>
     length obs \<le> MAX_OBLIGATIONS_PER_RULE \<and> distinct (map Obligation_name obs) \<and> r = sort_key Obligation_key obs"
proof -
  let ?s = "sort_key Obligation_key obs"
  have "sorted (map Obligation_index ?s)"
    using sorted_sort_key [of Obligation_key obs] Obligation_key_mono
    by (simp add: sorted_map) (metis (mono_tags, lifting) sorted_wrt_mono_rel)
  from any_window_sorted [OF this]
  have "any_window (\<lambda>a b. Obligation_name a = Obligation_name b) ?s \<longleftrightarrow> \<not> distinct (map Obligation_index ?s)"
    by (simp add: Obligation_name_index)
  moreover have "distinct (map Obligation_index ?s) \<longleftrightarrow> distinct (map Obligation_name ?s)"
    by (simp add: distinct_map inj_on_def Obligation_name_index)
  moreover have "distinct (map Obligation_name ?s) \<longleftrightarrow> distinct (map Obligation_name obs)"
    by (metis mset_map mset_sort mset_eq_imp_distinct_iff)
  ultimately show ?thesis by (auto simp: Obligations_new_def Let_def)
qed

lemma Obligations_new_perm:
  assumes "mset xs = mset ys"
  shows "Obligations_new xs = Obligations_new ys"
proof -
  have "inj_on Obligation_key (set xs)" by (simp add: inj_on_def Obligation_key_inject)
  then have "sort_key Obligation_key xs = sort_key Obligation_key ys"
    using assms sorted_sort_key [of Obligation_key ys]
    by (intro sort_key_inj_key_eq) (simp_all)
  moreover have "length xs = length ys" using assms by (rule mset_eq_length)
  ultimately show ?thesis by (simp add: Obligations_new_def)
qed

section \<open>Lifetimes\<close>

lemma Ttl_parse_print_unit:
  assumes "Ttl_unit [u] = Some m" "\<not> is_continuation u" "0 < k * m" "k * m \<le> MAX_APPROVAL_TTL_SECONDS"
  shows "Ttl_parse (show_nat k @ [u]) = Ok (of_nat (k * m))"
proof -
  have "m \<noteq> 0" using assms(3) by (intro notI) simp
  then have "k \<le> k * m" by (cases m) simp_all
  then have "k \<le> MAX_APPROVAL_TTL_SECONDS" using assms(4) by (rule order.trans)
  then have "k < 2 ^ 32" "k * m < 2 ^ 32" using assms(4) by (simp_all add: MAX_APPROVAL_TTL_SECONDS_def)
  then show ?thesis
    using assms show_nat_digits by (auto simp: Ttl_parse_def Let_def list_all_iff simp del: of_nat_mult)
qed

lemma Ttl_parse_print:
  assumes "t \<noteq> 0" "unat t \<le> MAX_APPROVAL_TTL_SECONDS"
  shows "Ttl_parse (Ttl_to_string t) = Ok t"
proof -
  have pos: "0 < unat t" using assms(1) by (simp add: unat_gt_0)
  have "\<not> is_continuation CHR ''h''" "\<not> is_continuation CHR ''m''" "\<not> is_continuation CHR ''s''"
    by (simp_all add: is_continuation_def)
  note print = Ttl_parse_print_unit [of "CHR ''h''" 3600 "unat t div 3600"]
    Ttl_parse_print_unit [of "CHR ''m''" 60 "unat t div 60"] Ttl_parse_print_unit [of "CHR ''s''" 1 "unat t"]
  have "unat t div 3600 * 3600 = unat t" if "unat t mod 3600 = 0" using that by (metis div_mult_mod_eq add_0_right)
  moreover have "unat t div 60 * 60 = unat t" if "unat t mod 60 = 0" using that by (metis div_mult_mod_eq add_0_right)
  ultimately show ?thesis
    using print pos assms(2) \<open>\<not> is_continuation CHR ''h''\<close> \<open>\<not> is_continuation CHR ''m''\<close>
      \<open>\<not> is_continuation CHR ''s''\<close>
    by (cases "unat t mod 3600 = 0"; cases "unat t mod 60 = 0")
      (simp_all add: Ttl_to_string_def Let_def Ttl_unit_def del: of_nat_mult)
qed

lemma Ttl_parse_Ok:
  assumes "Ttl_parse text = Ok t"
  shows "t \<noteq> 0 \<and> unat t \<le> MAX_APPROVAL_TTL_SECONDS"
proof -
  obtain s where s: "t = of_nat s" "s < 2 ^ 32" "s \<noteq> 0" "s \<le> MAX_APPROVAL_TTL_SECONDS"
    using assms
    by (auto simp: Ttl_parse_def Let_def and_then_Ok_iff not_less simp del: of_nat_mult split: if_splits)
  then have "unat t = s" by (simp add: unat_of_nat)
  with s show ?thesis by auto
qed

section \<open>Rule-side paths\<close>

definition wf_RulePath :: "RulePath \<Rightarrow> bool" where
  "wf_RulePath p \<longleftrightarrow> list_all is_path_segment (rp_segments p) \<and> length (rp_segments p) \<le> MAX_PATH_SEGMENTS"

lemma parse_segments_Ok:
  "parse_segments parts segments = Ok r \<longleftrightarrow> r = segments @ parts \<and> list_all is_path_segment parts"
  by (induction parts arbitrary: segments) auto

lemma segment_excludes:
  "is_path_segment s \<Longrightarrow> CHR ''/'' \<notin> set s" "is_path_segment s \<Longrightarrow> char_of (0::nat) \<notin> set s"
  by (simp_all add: is_path_segment_def)

lemma slash_concat: "ss \<noteq> [] \<Longrightarrow> concat (map (\<lambda>s. CHR ''/'' # s) ss) = CHR ''/'' # join_on CHR ''/'' ss"
proof (induction "CHR ''/''" ss rule: join_on.induct)
  case (3 s t ss)
  then show ?case by simp
qed simp_all

lemma split_segments:
  "ss \<noteq> [] \<Longrightarrow> list_all is_path_segment ss \<Longrightarrow> split_on CHR ''/'' (join_on CHR ''/'' ss) = ss"
  using segment_excludes(1) by (intro split_on_join_on) (auto simp: list_all_iff)

lemma joined_nonempty: "ss \<noteq> [] \<Longrightarrow> list_all is_path_segment ss \<Longrightarrow> join_on CHR ''/'' ss \<noteq> []"
  using split_segments [of ss] by (auto simp: is_path_segment_def)

lemma split_anchor_print:
  "split_anchor ((case PathAnchor_as_str a of Some t \<Rightarrow> t | None \<Rightarrow> []) @ CHR ''/'' # body) = Ok (a, body)"
  by (cases a) (simp_all add: split_anchor_def strip_prefix_def starts_with_def strip_separator_def
      PathAnchor_SYMBOLIC_def)

lemma split_anchor_bare: "PathAnchor_as_str a = Some t \<Longrightarrow> split_anchor t = Ok (a, [])"
  by (cases a) (auto simp: split_anchor_def strip_prefix_def starts_with_def strip_separator_def
      PathAnchor_SYMBOLIC_def)

lemma NUL_char: "char_of (0::nat) = CHR 0x00"
  by (simp add: char_of_def)

lemma anchor_text: "PathAnchor_as_str a = Some t \<Longrightarrow> t \<noteq> [] \<and> char_of (0::nat) \<notin> set t"
  by (cases a) (auto simp: NUL_char)

lemma RulePath_parse_print:
  assumes "wf_RulePath p"
  shows "RulePath_parse (RulePath_to_string p) = Ok p"
proof -
  let ?a = "case PathAnchor_as_str (rp_anchor p) of Some t \<Rightarrow> t | None \<Rightarrow> []" and ?ss = "rp_segments p"
  have ss: "list_all is_path_segment ?ss" "length ?ss \<le> MAX_PATH_SEGMENTS"
    using assms by (simp_all add: wf_RulePath_def)
  have nul_a: "char_of (0::nat) \<notin> set ?a"
    using anchor_text [of "rp_anchor p"] by (cases "PathAnchor_as_str (rp_anchor p)") auto
  show ?thesis
  proof (cases "?ss = []")
    case True
    show ?thesis
    proof (cases "PathAnchor_as_str (rp_anchor p)")
      case None
      then have "rp_anchor p = Absolute" by (cases "rp_anchor p") auto
      then show ?thesis using True
        by (simp add: RulePath_to_string_def RulePath_parse_def split_anchor_def strip_prefix_def
            starts_with_def NUL_char)
    next
      case (Some t)
      then have "rp_anchor p \<noteq> Absolute" by auto
      then show ?thesis using True Some anchor_text [OF Some] split_anchor_bare [OF Some]
        by (simp add: RulePath_to_string_def RulePath_parse_def)
    qed
  next
    case False
    have nul: "char_of (0::nat) \<notin> set (join_on CHR ''/'' ?ss)"
      using ss(1) segment_excludes(2) by (auto simp: list_all_iff NUL_char dest!: set_join_on)
    have "RulePath_to_string p = ?a @ CHR ''/'' # join_on CHR ''/'' ?ss"
      using False by (simp add: RulePath_to_string_def slash_concat)
    then show ?thesis
      using False nul nul_a ss split_anchor_print [of "rp_anchor p" "join_on CHR ''/'' ?ss"]
        split_segments [OF False ss(1)] joined_nonempty [OF False ss(1)]
      by (simp add: RulePath_parse_def parse_segments_Ok NUL_char and_then_Ok_iff)
  qed
qed

end
