(* ===== verification/Pol_Properties.thy ===== *)
theory Pol_Properties
  imports Pol_Compose Pol_Text
begin

text \<open>
  What the policy engine promises, with concrete runs. The running example is a root profile that
  allows reading and asks for approval of deletions, a site profile that extends it with one denial
  below \<^verbatim>\<open>${WORKSPACE}/secret\<close>, and a read of a file there.
\<close>

section \<open>The running example\<close>

definition ex_at :: SourceLocation where
  "ex_at = \<lparr>loc_source = ''site.toml'', loc_line = 1\<rparr>"

definition ex_rule :: "RuleId \<Rightarrow> Effect \<Rightarrow> Reason \<Rightarrow> When \<Rightarrow> Rule" where
  "ex_rule i e r w = \<lparr>rule_id = i, rule_source = ex_at, rule_effect = e, rule_reason = r, rule_when = w,
     rule_unless = Unless_default, rule_obligations = [NetworkDeny], rule_approval = None\<rparr>"

definition ex_secret :: RulePath where
  "ex_secret = \<lparr>rp_anchor = Workspace, rp_segments = [''secret'']\<rparr>"

definition ex_unattended :: Postcondition where
  "ex_unattended = \<lparr>post_id = ''deny-unattended'', post_source = ex_at, post_effect = Deny,
     post_reason = NoHumanAvailable,
     post_when = When_default\<lparr>when_origin := Some (MatchEq Scheduled),
       when_provisional_effect := Some (MatchEq RequireApproval)\<rparr>,
     post_unless = Unless_default\<rparr>"

definition ex_root_profile :: Profile where
  "ex_root_profile = \<lparr>profile_name = ''root'', profile_source = ex_at, profile_extends = None,
     profile_rules =
       [ex_rule ''allow-read'' Allow PermittedByRule (When_default\<lparr>when_verb := Some (MatchEq (Verb_of Fs Read))\<rparr>),
        ex_rule ''ask-delete'' RequireApproval DestructiveInWorkspace
          (When_default\<lparr>when_verb := Some (MatchEq (Verb_of Fs Delete))\<rparr>),
        ex_rule ''default'' Deny NoMatchingRule When_default],
     profile_postconditions = [ex_unattended]\<rparr>"

definition ex_site_profile :: Profile where
  "ex_site_profile = \<lparr>profile_name = ''site'', profile_source = ex_at, profile_extends = Some ''root'',
     profile_rules =
       [ex_rule ''deny-secret'' Deny SensitivePath (When_default\<lparr>when_verb := Some (MatchEq (Verb_of Fs Read)),
          when_path_under := Some (MatchEq ex_secret)\<rparr>)],
     profile_postconditions = []\<rparr>"

definition ex_profiles :: "Profile list" where
  "ex_profiles = [ex_root_profile, ex_site_profile]"

definition ex_action :: "Action \<Rightarrow> CanonicalAction" where
  "ex_action a = CanonicalAction_new \<lparr>cap_verb = Verb_of Fs a,
     cap_scope = ScopePath \<lparr>components = [''ws'', ''secret'', ''key'']\<rparr>,
     cap_constraints = ConstraintSet_unconstrained\<rparr> Sandbox"

definition ex_context :: "Origin \<Rightarrow> PolicyContext" where
  "ex_context x = PolicyContext_with_anchors
     (PathAnchors_empty\<lparr>anchor_workspace := Some \<lparr>components = [''ws'']\<rparr>\<rparr>) (PolicyContext_new x TaintNone)"

definition ex_policy :: "ProfileName \<Rightarrow> CompiledPolicy" where
  "ex_policy n = projr (compose n ex_profiles)"

lemma ex_compose: "compose ''site'' ex_profiles = Ok (ex_policy ''site'')"
  "compose ''root'' ex_profiles = Ok (ex_policy ''root'')"
proof -
  have ok: "is_ok (compose ''site'' ex_profiles)" "is_ok (compose ''root'' ex_profiles)" by code_simp+
  show "compose ''site'' ex_profiles = Ok (ex_policy ''site'')"
    using ok(1) by (cases "compose ''site'' ex_profiles") (simp_all add: ex_policy_def)
  show "compose ''root'' ex_profiles = Ok (ex_policy ''root'')"
    using ok(2) by (cases "compose ''root'' ex_profiles") (simp_all add: ex_policy_def)
qed

section \<open>Composition\<close>

text \<open>
  C2. An extending profile never widens the one it extends: when a profile composes, the profile it
  extends composes too, and for every action and context the composed policy's effect is at most
  that of the parent's under DENY, REQUIRE_APPROVAL, ALLOW.
\<close>

theorem extension_never_widens:
  assumes "compose name profiles = Ok policy" "find_profile name profiles = Some p" "profile_extends p = Some q"
  shows "\<exists>parent. compose q profiles = Ok parent \<and> policy_chain policy = name # policy_chain parent \<and>
    (\<forall>action ctx. Effect_narrower_or_equal (dec_effect (evaluate policy action ctx))
       (dec_effect (evaluate parent action ctx)))"
proof -
  from compose_parent [OF assms] obtain parent where
    p: "compose q profiles = Ok parent" "policy_chain policy = name # policy_chain parent"
      "policy_rules policy = profile_rules p @ policy_rules parent"
      "policy_postconditions policy = profile_postconditions p @ policy_postconditions parent"
      "\<forall>r \<in> set (profile_rules p). rule_effect r = Deny \<and> \<not> Rule_is_default r"
      "\<forall>r \<in> set (profile_postconditions p). post_effect r = Deny" .
  have "Effect_narrower_or_equal (dec_effect (evaluate policy action ctx)) (dec_effect (evaluate parent action ctx))"
    for action ctx
    unfolding evaluate_effect p(3,4) by (rule denying_extension) (use p(5,6) in auto)
  with p(1,2) show ?thesis by blast
qed

theorem extension_never_widens_witness:
  "Effect_narrower_or_equal (dec_effect (evaluate (ex_policy ''site'') (ex_action Read) (ex_context Api)))
     (dec_effect (evaluate (ex_policy ''root'') (ex_action Read) (ex_context Api))) \<and>
   dec_effect (evaluate (ex_policy ''site'') (ex_action Read) (ex_context Api)) = Deny \<and>
   dec_effect (evaluate (ex_policy ''root'') (ex_action Read) (ex_context Api)) = Allow"
proof -
  have "find_profile ''site'' ex_profiles = Some ex_site_profile" "profile_extends ex_site_profile = Some ''root''"
    by code_simp+
  from extension_never_widens [OF ex_compose(1) this] obtain parent where
    "compose ''root'' ex_profiles = Ok parent"
    "Effect_narrower_or_equal (dec_effect (evaluate (ex_policy ''site'') (ex_action Read) (ex_context Api)))
       (dec_effect (evaluate parent (ex_action Read) (ex_context Api)))" by blast
  moreover from this ex_compose(2) have "parent = ex_policy ''root''" by simp
  moreover have "dec_effect (evaluate (ex_policy ''site'') (ex_action Read) (ex_context Api)) = Deny"
    "dec_effect (evaluate (ex_policy ''root'') (ex_action Read) (ex_context Api)) = Allow"
    by code_simp+
  ultimately show ?thesis by blast
qed

text \<open>
  C20. What composition accepts is bounded and well formed: the chain has between one and four profiles with
  pairwise different names, starts with the requested one, its rules are the chain's in order, and
  the last of them is the default rule.
\<close>

theorem composed_chain_bounded:
  assumes "compose name profiles = Ok policy"
  shows "0 < length (policy_chain policy) \<and> length (policy_chain policy) \<le> MAX_EXTENDS_DEPTH \<and>
    distinct (policy_chain policy) \<and> hd (policy_chain policy) = name \<and> policy_name policy = name \<and>
    CompiledPolicy_default_rule policy = Some (last (policy_rules policy))"
proof -
  from assms obtain chain where c: "resolve_chain name profiles = Ok chain"
    "concat (map profile_rules chain) \<noteq> []" "Rule_is_default (last (concat (map profile_rules chain)))"
    "policy = \<lparr>policy_name = name, policy_chain = map profile_name chain,
          policy_rules = concat (map profile_rules chain),
          policy_postconditions = concat (map profile_postconditions chain)\<rparr>"
    unfolding compose_Ok by blast
  then show ?thesis
    using chain_bounds [OF c(1)] by (auto simp: CompiledPolicy_default_rule_def hd_map)
qed

theorem composed_chain_bounded_witness:
  "policy_chain (ex_policy ''site'') = [''site'', ''root''] \<and> distinct (policy_chain (ex_policy ''site''))"
proof -
  have "policy_chain (ex_policy ''site'') = [''site'', ''root'']" by code_simp
  then show ?thesis using composed_chain_bounded [OF ex_compose(1)] by blast
qed

section \<open>Evaluation\<close>

text \<open>
  C8. Postconditions narrow and never widen, and a decision carries only what its effect can use: the
  effect is at most that of the first matching rule, and DENY when none matches or one cannot be
  evaluated; a denial has no obligations and no approval shape, an approval shape appears only with
  REQUIRE_APPROVAL, and a decision that was not evaluated is a denial for the unresolved input.
\<close>

theorem decision_never_widens:
  fixes policy action ctx
  defines "d \<equiv> evaluate policy action ctx"
  shows "(case first_match policy action ctx of
            Some (MatchedRuleAt rule) \<Rightarrow> Effect_narrower_or_equal (dec_effect d) (rule_effect rule)
          | _ \<Rightarrow> dec_effect d = Deny) \<and>
    (dec_effect d = Deny \<longrightarrow> dec_obligations d = Obligations_none) \<and>
    (dec_approval d \<noteq> None \<longrightarrow> dec_effect d = RequireApproval) \<and>
    (dec_unevaluable d \<noteq> None \<longrightarrow> dec_effect d = Deny \<and> Decision_reason d = UnresolvedCanonicalInput) \<and>
    dec_required_capability d = act_capability action"
proof -
  have eff: "case first_match policy action ctx of
      Some (MatchedRuleAt rule) \<Rightarrow> Effect_narrower_or_equal (dec_effect d) (rule_effect rule)
    | _ \<Rightarrow> dec_effect d = Deny"
    unfolding d_def evaluate_effect rules_effect_def first_match_def
    by (auto split: option.splits Matched.splits intro: narrow_effect_lower)
  note defs = d_def evaluate_def first_match_def unmatched_def Decision_new_def Decision_not_evaluated_def
    Decision_reason_def MatchedRule_new_def Let_def
  have "(dec_effect d = Deny \<longrightarrow> dec_obligations d = Obligations_none) \<and>
    (dec_approval d \<noteq> None \<longrightarrow> dec_effect d = RequireApproval) \<and>
    (dec_unevaluable d \<noteq> None \<longrightarrow> dec_effect d = Deny \<and> Decision_reason d = UnresolvedCanonicalInput) \<and>
    dec_required_capability d = act_capability action"
  proof (cases "first_match_rules (policy_rules policy) action ctx")
    case (Some m)
    show ?thesis
    proof (cases m)
      case (MatchedRuleAt rule)
      have reason: "matched_reason at = UnresolvedCanonicalInput"
        if "apply_postconditions ps action ctx e dec ap = Inl (at, applied, why)" for ps e dec ap at applied why
        using that
        by (induction ps arbitrary: e dec ap) (auto simp: MatchedRule_new_def Let_def split: if_splits Match.splits)
      show ?thesis
      proof (cases "apply_postconditions (policy_postconditions policy) action ctx (rule_effect rule)
          (MatchedRule_new (rule_id rule) (rule_source rule) (rule_reason rule)) []")
        case (Inl x)
        then show ?thesis using Some MatchedRuleAt reason by (cases x) (auto simp: defs)
      next
        case (Inr x)
        then show ?thesis using Some MatchedRuleAt by (cases x) (auto simp: defs split: Effect.splits)
      qed
    qed (use Some in \<open>simp add: defs\<close>)
  qed (simp add: defs)
  with eff show ?thesis by blast
qed

theorem decision_never_widens_witness:
  "dec_effect (evaluate (ex_policy ''root'') (ex_action Delete) (ex_context Scheduled)) = Deny \<and>
   dec_obligations (evaluate (ex_policy ''root'') (ex_action Delete) (ex_context Scheduled)) = Obligations_none \<and>
   dec_effect (evaluate (ex_policy ''root'') (ex_action Delete) (ex_context Interactive)) = RequireApproval"
proof -
  have "dec_effect (evaluate (ex_policy ''root'') (ex_action Delete) (ex_context Scheduled)) = Deny"
    "dec_effect (evaluate (ex_policy ''root'') (ex_action Delete) (ex_context Interactive)) = RequireApproval"
    by code_simp+
  then show ?thesis using decision_never_widens [of "ex_policy ''root''" "ex_action Delete" "ex_context Scheduled"]
    by blast
qed

text \<open>
  C7. Missing inputs fail closed: evaluating with some path anchors unresolved, or without the destination
  address, never gives a wider effect than evaluating the same policy with them.
\<close>

theorem missing_input_never_widens:
  assumes "knows_less anchors (ctx_anchors ctx)" "forget anchors drop_address (action, ctx) = (action', ctx')"
  shows "Effect_narrower_or_equal (dec_effect (evaluate policy action' ctx')) (dec_effect (evaluate policy action ctx))"
  unfolding evaluate_effect by (rule rules_effect_less [OF assms])

theorem missing_input_never_widens_witness:
  "dec_effect (evaluate (ex_policy ''site'') (ex_action Read) (PolicyContext_new Api TaintNone)) = Deny \<and>
   Effect_narrower_or_equal
     (dec_effect (evaluate (ex_policy ''site'') (ex_action Read) (PolicyContext_new Api TaintNone)))
     (dec_effect (evaluate (ex_policy ''site'') (ex_action Read) (ex_context Api)))"
proof -
  have "PathAnchors_get PathAnchors_empty a = None" for a
    by (cases a) (simp_all add: PathAnchors_empty_def)
  then have "knows_less PathAnchors_empty (ctx_anchors (ex_context Api))" by (simp add: knows_less_def)
  moreover have "forget PathAnchors_empty False (ex_action Read, ex_context Api) =
      (ex_action Read, PolicyContext_new Api TaintNone)" by code_simp
  moreover have "dec_effect (evaluate (ex_policy ''site'') (ex_action Read) (PolicyContext_new Api TaintNone)) = Deny"
    by code_simp
  ultimately show ?thesis using missing_input_never_widens by blast
qed

text \<open>
  C11. The default denies: when the root profile's rules pass the loader's check, every evaluation of a
  policy composed of it finds a rule, and when no earlier rule applies the decision is the default's
  denial.
\<close>

theorem default_denies:
  assumes "compose name profiles = Ok policy" "resolve_chain name profiles = Ok chain"
    and "check_default at (profile_rules (last chain)) False = Ok ()"
  shows "first_match policy action ctx \<noteq> None \<and>
    (first_match_rules (butlast (policy_rules policy)) action ctx = None \<longrightarrow>
       dec_effect (evaluate policy action ctx) = Deny \<and>
       dec_primary (evaluate policy action ctx) = MatchedRule_new RuleId_DEFAULT
         (rule_source (last (policy_rules policy))) (rule_reason (last (policy_rules policy))))"
proof -
  from check_default_Ok [OF assms(3)] obtain front d where
    d: "profile_rules (last chain) = front @ [d]" "Rule_is_default d" "rule_effect d = Deny"
      "When_is_empty (rule_when d)" "Unless_is_empty (rule_unless d)" by blast
  have "chain \<noteq> []" by (rule chain_bounds [OF assms(2)])
  then obtain before where before: "chain = before @ [last chain]" by (metis append_butlast_last_id)
  have "policy_rules policy = concat (map profile_rules chain)"
    using assms(1,2) by (auto simp: compose_Ok)
  also have "\<dots> = concat (map profile_rules before) @ profile_rules (last chain)" by (subst before) simp
  finally obtain rs where rules: "policy_rules policy = rs @ [d]" using d(1) by (metis append.assoc)
  have found: "first_match policy action ctx \<noteq> None"
    unfolding first_match_def rules by (rule first_match_default [OF d(4,5)])
  moreover have "dec_effect (evaluate policy action ctx) = Deny \<and> dec_primary (evaluate policy action ctx) =
      MatchedRule_new RuleId_DEFAULT (rule_source (last (policy_rules policy))) (rule_reason (last (policy_rules policy)))"
    if none: "first_match_rules (butlast (policy_rules policy)) action ctx = None"
  proof -
    have m: "first_match_rules (policy_rules policy) action ctx = Some (MatchedRuleAt d)"
      using none d(4,5) unfolding rules by (simp add: first_match_append When_empty_default Unless_empty_never)
    moreover have "rule_id d = RuleId_DEFAULT" using d(2) by (simp add: Rule_is_default_def RuleId_is_default_def)
    ultimately show ?thesis
      unfolding evaluate_effect
      by (auto simp: rules_effect_def evaluate_def first_match_def d(3) rules Let_def Decision_new_def
          Decision_not_evaluated_def split: sum.splits)
  qed
  ultimately show ?thesis by blast
qed

theorem default_denies_witness:
  "first_match (ex_policy ''site'') (ex_action Write) (ex_context Api) \<noteq> None \<and>
   dec_effect (evaluate (ex_policy ''site'') (ex_action Write) (ex_context Api)) = Deny"
proof -
  have c: "resolve_chain ''site'' ex_profiles = Ok [ex_site_profile, ex_root_profile]" by code_simp
  have "check_default ex_at (profile_rules (last [ex_site_profile, ex_root_profile])) False = Ok ()" by code_simp
  note run = default_denies [OF ex_compose(1) c this, of "ex_action Write" "ex_context Api"]
  have "first_match_rules (butlast (policy_rules (ex_policy ''site''))) (ex_action Write) (ex_context Api) = None"
    by code_simp
  with run show ?thesis by blast
qed

section \<open>Predicate values\<close>

text \<open>
  C13. Path predicates compare components: a rule path covers exactly the paths that begin with its
  anchor's components followed by its own, names exactly one path, and cannot be evaluated
  precisely when its anchor is unresolved.
\<close>

theorem rule_path_is_component_prefix:
  "RulePath_contains p anchors c =
     (case rp_anchor p of
        Absolute \<Rightarrow> Ok (prefix (rp_segments p) (components c))
      | anchor \<Rightarrow> (case PathAnchors_get anchors anchor of
          None \<Rightarrow> Err anchor
        | Some root \<Rightarrow> Ok (prefix (components root @ rp_segments p) (components c)))) \<and>
   RulePath_is_exactly p anchors c =
     (case rp_anchor p of
        Absolute \<Rightarrow> Ok (components c = rp_segments p)
      | anchor \<Rightarrow> (case PathAnchors_get anchors anchor of
          None \<Rightarrow> Err anchor
        | Some root \<Rightarrow> Ok (components c = components root @ rp_segments p)))"
  unfolding RulePath_contains_exact RulePath_is_exactly_exact anchor_root_def
  by (cases "rp_anchor p") (auto split: option.splits)

text \<open>
  C12. An address range contains exactly the addresses of the network's width whose leading bits, as many
  as the prefix length, are the network's.
\<close>

theorem cidr_is_leading_bits:
  "Cidr_contains c a \<longleftrightarrow>
     length (address_bits (cidr_network c)) = length (address_bits a) \<and>
     take (cidr_prefix c) (address_bits (cidr_network c)) = take (cidr_prefix c) (address_bits a)"
  by (rule Cidr_contains_bits)

text \<open>
  C19. A range the parser accepts has an address of its family's width, a prefix within it and no bit set
  past the prefix, and its printed form parses back to it.
\<close>

theorem cidr_roundtrip:
  assumes "Cidr_parse t = Ok c"
  shows "wf_Cidr c \<and> Cidr_parse (Cidr_to_string c) = Ok c"
  using Cidr_parse_Ok [OF assms] Cidr_parse_print by blast

theorem cidr_roundtrip_witness:
  "\<exists>c. Cidr_parse ''fe80:0:0:0:0:0:0:0/10'' = Ok c \<and>
     Cidr_to_string c = ''fe80:0000:0000:0000:0000:0000:0000:0000/10'' \<and> Cidr_parse (Cidr_to_string c) = Ok c"
proof -
  define c where "c = projr (Cidr_parse ''fe80:0:0:0:0:0:0:0/10'')"
  have "is_ok (Cidr_parse ''fe80:0:0:0:0:0:0:0/10'')" by code_simp
  then have ok: "Cidr_parse ''fe80:0:0:0:0:0:0:0/10'' = Ok c"
    by (cases "Cidr_parse ''fe80:0:0:0:0:0:0:0/10''") (simp_all add: c_def)
  have "Cidr_to_string (projr (Cidr_parse ''fe80:0:0:0:0:0:0:0/10'')) =
      ''fe80:0000:0000:0000:0000:0000:0000:0000/10''" by code_simp
  then have "Cidr_to_string c = ''fe80:0000:0000:0000:0000:0000:0000:0000/10''" unfolding c_def .
  moreover have "Cidr_parse (Cidr_to_string c) = Ok c" using cidr_roundtrip [OF ok] by blast
  ultimately show ?thesis using ok by blast
qed

text \<open>
  A range has more than one accepted spelling: the prefix length may carry leading zeros, and an IPv6 group
  fewer than four digits.
\<close>

lemma cidr_spellings_not_unique:
  "Cidr_parse ''10.0.0.0/08'' = Cidr_parse ''10.0.0.0/8'' \<and> is_ok (Cidr_parse ''10.0.0.0/8'') \<and>
   Cidr_parse ''fe80:0:0:0:0:0:0:0/10'' = Cidr_parse ''fe80:0000:0000:0000:0000:0000:0000:0000/10''"
  by code_simp

text \<open>
  C21. A set of obligations has one representation: the result depends only on which obligations were
  written and not on their order, an accepted set is sorted with no obligation twice under any
  parameter, and every obligation the parser accepts prints to a text that parses back to it.
\<close>

theorem obligations_canonical:
  "(mset xs = mset ys \<longrightarrow> Obligations_new xs = Obligations_new ys) \<and>
   (Obligations_new xs = Ok r \<longrightarrow> mset r = mset xs \<and> sorted (map Obligation_key r) \<and>
      distinct (map Obligation_name r) \<and> length r \<le> MAX_OBLIGATIONS_PER_RULE) \<and>
   (Obligation_parse t = Ok ob \<longrightarrow> Obligation_parse (Obligation_to_string ob) = Ok ob)"
proof (intro conjI impI)
  show "mset xs = mset ys \<Longrightarrow> Obligations_new xs = Obligations_new ys" by (rule Obligations_new_perm)
  assume "Obligations_new xs = Ok r"
  then have r: "length xs \<le> MAX_OBLIGATIONS_PER_RULE" "distinct (map Obligation_name xs)"
    "r = sort_key Obligation_key xs" by (simp_all add: Obligations_new_Ok)
  show "mset r = mset xs" "sorted (map Obligation_key r)" "length r \<le> MAX_OBLIGATIONS_PER_RULE"
    using r by simp_all
  show "distinct (map Obligation_name r)"
    using r(2,3) by (metis mset_map mset_sort mset_eq_imp_distinct_iff)
next
  show "Obligation_parse t = Ok ob \<Longrightarrow> Obligation_parse (Obligation_to_string ob) = Ok ob"
    by (intro Obligation_parse_print Obligation_parse_Ok)
qed

theorem obligations_canonical_witness:
  "Obligations_new [ReadOnlyWorkspace, NetworkDeny] = Obligations_new [NetworkDeny, ReadOnlyWorkspace] \<and>
   Obligation_parse (Obligation_to_string (MaxOutputBytes 1024)) = Ok (MaxOutputBytes 1024)"
proof -
  have "mset [ReadOnlyWorkspace, NetworkDeny] = mset [NetworkDeny, ReadOnlyWorkspace]" by simp
  moreover have "Obligation_parse ''max_output_bytes=01024'' = Ok (MaxOutputBytes 1024)" by code_simp
  ultimately show ?thesis using obligations_canonical by blast
qed

text \<open>
  C22. Rule paths and approval lifetimes survive their text: every rule path with well-formed segments
  parses from its printed form to itself, an accepted lifetime is between one second and a day, and
  prints to a text that parses back to it.
\<close>

theorem policy_values_roundtrip:
  "(wf_RulePath p \<longrightarrow> RulePath_parse (RulePath_to_string p) = Ok p) \<and>
   (Ttl_parse t = Ok ttl \<longrightarrow> 0 < unat ttl \<and> unat ttl \<le> MAX_APPROVAL_TTL_SECONDS \<and>
      Ttl_parse (Ttl_to_string ttl) = Ok ttl)"
  using RulePath_parse_print [of p] Ttl_parse_Ok [of t ttl] Ttl_parse_print [of ttl]
  by (auto simp: unat_gt_0)

theorem policy_values_roundtrip_witness:
  "RulePath_parse ''${WORKSPACE}/secret'' = Ok ex_secret \<and> Ttl_to_string 3600 = ''1h'' \<and>
   Ttl_parse ''1h'' = Ok 3600"
proof -
  have "wf_RulePath ex_secret" "RulePath_to_string ex_secret = ''${WORKSPACE}/secret''" by code_simp+
  moreover have "Ttl_parse ''60m'' = Ok 3600" "Ttl_to_string 3600 = ''1h''" by code_simp+
  ultimately show ?thesis
    using policy_values_roundtrip [of ex_secret "''60m''" 3600] by auto
qed

end
