(* ===== verification/Proto_Base.thy ===== *)
theory Proto_Base
  imports Rust_Prelude
begin

text \<open>
  The common ground of the wire protocol (\<^verbatim>\<open>dwk-proto/src/error.rs\<close>, \<^verbatim>\<open>version.rs\<close>, \<^verbatim>\<open>limits.rs\<close>):
  error codes and violations with their wire spellings, the structured protocol error, and version
  negotiation. The English \<^verbatim>\<open>detail\<close> of an error is not modelled; every other field is.
\<close>

section \<open>Limits\<close>

definition MAX_FRAME_BODY :: nat where "MAX_FRAME_BODY = 2 ^ 20"
definition MAX_DEPTH :: nat where "MAX_DEPTH = 32"
definition MAX_SAFE_INTEGER :: int where "MAX_SAFE_INTEGER = 2 ^ 53 - 1"
definition MAX_ERROR_PATH_CHARS :: nat where "MAX_ERROR_PATH_CHARS = 256"

section \<open>Versions\<close>

record VersionRange =
  vr_min :: nat
  vr_max :: nat

definition VersionRange_new :: "nat \<Rightarrow> nat \<Rightarrow> VersionRange option" where
  "VersionRange_new mn mx = (if mn = 0 \<or> mx < mn then None else Some \<lparr>vr_min = mn, vr_max = mx\<rparr>)"

definition VersionRange_contains :: "VersionRange \<Rightarrow> nat \<Rightarrow> bool" where
  "VersionRange_contains self v \<longleftrightarrow> vr_min self \<le> v \<and> v \<le> vr_max self"

definition SUPPORTED_ENVELOPE :: VersionRange where
  "SUPPORTED_ENVELOPE = \<lparr>vr_min = 1, vr_max = 1\<rparr>"

section \<open>Errors\<close>

datatype ErrorCode = FrameEmpty | FrameTooLarge | FrameTruncated | ContentTypeUnsupported | InvalidUtf8
  | InvalidJson | DuplicateKey | MaxDepthExceeded | NumberOutOfDomain | VersionUnsupported
  | UnknownOperation | SchemaViolation

definition ErrorCode_ALL :: "ErrorCode list" where
  "ErrorCode_ALL = [FrameEmpty, FrameTooLarge, FrameTruncated, ContentTypeUnsupported, InvalidUtf8,
     InvalidJson, DuplicateKey, MaxDepthExceeded, NumberOutOfDomain, VersionUnsupported,
     UnknownOperation, SchemaViolation]"

fun ErrorCode_as_str :: "ErrorCode \<Rightarrow> string" where
  "ErrorCode_as_str FrameEmpty = ''PROTOCOL_FRAME_EMPTY''"
| "ErrorCode_as_str FrameTooLarge = ''PROTOCOL_FRAME_TOO_LARGE''"
| "ErrorCode_as_str FrameTruncated = ''PROTOCOL_FRAME_TRUNCATED''"
| "ErrorCode_as_str ContentTypeUnsupported = ''PROTOCOL_CONTENT_TYPE_UNSUPPORTED''"
| "ErrorCode_as_str InvalidUtf8 = ''PROTOCOL_INVALID_UTF8''"
| "ErrorCode_as_str InvalidJson = ''PROTOCOL_INVALID_JSON''"
| "ErrorCode_as_str DuplicateKey = ''PROTOCOL_DUPLICATE_KEY''"
| "ErrorCode_as_str MaxDepthExceeded = ''PROTOCOL_MAX_DEPTH_EXCEEDED''"
| "ErrorCode_as_str NumberOutOfDomain = ''PROTOCOL_NUMBER_OUT_OF_DOMAIN''"
| "ErrorCode_as_str VersionUnsupported = ''PROTOCOL_VERSION_UNSUPPORTED''"
| "ErrorCode_as_str UnknownOperation = ''PROTOCOL_UNKNOWN_OPERATION''"
| "ErrorCode_as_str SchemaViolation = ''PROTOCOL_SCHEMA_VIOLATION''"

definition ErrorCode_from_wire :: "string \<Rightarrow> ErrorCode option" where
  "ErrorCode_from_wire s = find (\<lambda>c. ErrorCode_as_str c = s) ErrorCode_ALL"

datatype Violation = UnknownField | MissingField | ForbiddenField | WrongType | NullNotAllowed
  | OutOfRange | ValueTooLong | InvalidFormat | UnknownVariant | TooManyItems | Inconsistent

definition Violation_ALL :: "Violation list" where
  "Violation_ALL = [UnknownField, MissingField, ForbiddenField, WrongType, NullNotAllowed, OutOfRange,
     ValueTooLong, InvalidFormat, UnknownVariant, TooManyItems, Inconsistent]"

fun Violation_as_str :: "Violation \<Rightarrow> string" where
  "Violation_as_str UnknownField = ''UNKNOWN_FIELD''"
| "Violation_as_str MissingField = ''MISSING_FIELD''"
| "Violation_as_str ForbiddenField = ''FORBIDDEN_FIELD''"
| "Violation_as_str WrongType = ''WRONG_TYPE''"
| "Violation_as_str NullNotAllowed = ''NULL_NOT_ALLOWED''"
| "Violation_as_str OutOfRange = ''OUT_OF_RANGE''"
| "Violation_as_str ValueTooLong = ''TOO_LONG''"
| "Violation_as_str InvalidFormat = ''INVALID_FORMAT''"
| "Violation_as_str UnknownVariant = ''UNKNOWN_VARIANT''"
| "Violation_as_str TooManyItems = ''TOO_MANY_ITEMS''"
| "Violation_as_str Inconsistent = ''INCONSISTENT''"

definition Violation_from_wire :: "string \<Rightarrow> Violation option" where
  "Violation_from_wire s = find (\<lambda>v. Violation_as_str v = s) Violation_ALL"

record ProtocolError =
  pe_code :: ErrorCode
  pe_violation :: "Violation option"
  pe_path :: string
  pe_offset :: "nat option"
  pe_supported :: "VersionRange option"

text \<open>The bytes of the first \<open>k\<close> scalar values: the text is cut before the byte that begins another.\<close>

fun truncate_chars :: "string \<Rightarrow> nat \<Rightarrow> string" where
  "truncate_chars [] k = []"
| "truncate_chars (c # s) k =
     (if is_continuation c then c # truncate_chars s k
      else case k of 0 \<Rightarrow> [] | Suc k' \<Rightarrow> c # truncate_chars s k')"

definition ProtocolError_new :: "ErrorCode \<Rightarrow> ProtocolError" where
  "ProtocolError_new code =
     \<lparr>pe_code = code, pe_violation = None, pe_path = [], pe_offset = None, pe_supported = None\<rparr>"

definition at_offset :: "nat \<Rightarrow> ProtocolError \<Rightarrow> ProtocolError" where
  "at_offset offset self = self\<lparr>pe_offset := Some offset\<rparr>"

definition with_violation :: "Violation \<Rightarrow> ProtocolError \<Rightarrow> ProtocolError" where
  "with_violation v self = self\<lparr>pe_violation := Some v\<rparr>"

definition with_path :: "string \<Rightarrow> ProtocolError \<Rightarrow> ProtocolError" where
  "with_path path self = self\<lparr>pe_path := truncate_chars path MAX_ERROR_PATH_CHARS\<rparr>"

definition with_supported :: "VersionRange \<Rightarrow> ProtocolError \<Rightarrow> ProtocolError" where
  "with_supported supported self = self\<lparr>pe_supported := Some supported\<rparr>"

definition ProtocolError_schema :: "Violation \<Rightarrow> string \<Rightarrow> ProtocolError" where
  "ProtocolError_schema violation path =
     with_path path (with_violation violation (ProtocolError_new SchemaViolation))"

definition negotiate :: "VersionRange \<Rightarrow> VersionRange \<Rightarrow> nat \<Rightarrow> (nat, ProtocolError) result" where
  "negotiate offered supported minimum =
     (let low = max (max (vr_min offered) (vr_min supported)) minimum;
          high = min (vr_max offered) (vr_max supported)
      in if low \<le> high then Ok high
         else let floor' = max (vr_min supported) minimum;
                  advertised = (case VersionRange_new floor' (vr_max supported) of
                                  Some r \<Rightarrow> r | None \<Rightarrow> supported)
              in Err (with_supported advertised (with_path ''/payload''
                   (with_violation OutOfRange (ProtocolError_new VersionUnsupported)))))"

section \<open>Laws\<close>

lemma ErrorCode_from_wire_as_str: "ErrorCode_from_wire (ErrorCode_as_str c) = Some c"
  by (cases c) (simp_all add: ErrorCode_from_wire_def ErrorCode_ALL_def)

lemma Violation_from_wire_as_str: "Violation_from_wire (Violation_as_str v) = Some v"
  by (cases v) (simp_all add: Violation_from_wire_def Violation_ALL_def)

lemma truncate_chars_prefix: "prefix (truncate_chars s k) s"
  by (induction s k rule: truncate_chars.induct) (auto split: nat.split)

lemma truncate_chars_count: "chars_count (truncate_chars s k) \<le> k"
  by (induction s k rule: truncate_chars.induct) (auto simp: chars_count_def split: nat.split)

lemma truncate_chars_id: "chars_count s \<le> k \<Longrightarrow> truncate_chars s k = s"
  by (induction s k rule: truncate_chars.induct)
    (auto simp: chars_count_def split: nat.split if_splits)

lemma negotiate_exact:
  "negotiate offered supported minimum = Ok v \<longleftrightarrow>
     VersionRange_contains offered v \<and> VersionRange_contains supported v \<and> minimum \<le> v \<and>
     (\<forall>w. VersionRange_contains offered w \<longrightarrow> VersionRange_contains supported w \<longrightarrow> minimum \<le> w \<longrightarrow> w \<le> v)"
proof -
  have "min (vr_max offered) (vr_max supported) = v"
    if "vr_min offered \<le> v" "v \<le> vr_max offered" "vr_min supported \<le> v" "v \<le> vr_max supported"
      "minimum \<le> v"
      "\<forall>w. vr_min offered \<le> w \<and> w \<le> vr_max offered \<longrightarrow> vr_min supported \<le> w \<and> w \<le> vr_max supported \<longrightarrow>
         minimum \<le> w \<longrightarrow> w \<le> v"
    using that(1-5) that(6) [rule_format, of "min (vr_max offered) (vr_max supported)"] by simp
  then show ?thesis
    by (auto simp: negotiate_def VersionRange_contains_def Let_def)
qed

end
