(* ===== verification/Proto_Frame.thy ===== *)
theory Proto_Frame
  imports Proto_Base
begin

text \<open>
  The length-prefixed framing of the wire (\<^verbatim>\<open>dwk-proto/src/frame.rs\<close>): the encoder, the incremental
  decoder with its buffers and its poison, and \<^verbatim>\<open>decode_all\<close>. The decoder is related to a
  specification that cuts the whole stream at once, which makes it independent of how the transport
  splits the stream.
\<close>

section \<open>The decoder\<close>

definition HEADER_LEN :: nat where "HEADER_LEN = 5"

datatype ContentType = Json

fun ContentType_byte :: "ContentType \<Rightarrow> char" where
  "ContentType_byte Json = CHR 0x01"

definition ContentType_from_byte :: "char \<Rightarrow> ContentType option" where
  "ContentType_from_byte b = (if b = CHR 0x01 then Some Json else None)"

record Frame =
  frame_content_type :: ContentType
  frame_body :: string

definition u32_to_be_bytes :: "nat \<Rightarrow> string" where
  "u32_to_be_bytes n = [char_of (n div 2 ^ 24), char_of (n div 2 ^ 16), char_of (n div 2 ^ 8), char_of n]"

definition u32_from_be_bytes :: "char \<Rightarrow> char \<Rightarrow> char \<Rightarrow> char \<Rightarrow> nat" where
  "u32_from_be_bytes a b c d =
     of_char a * 2 ^ 24 + of_char b * 2 ^ 16 + of_char c * 2 ^ 8 + of_char d"

definition encode :: "ContentType \<Rightarrow> string \<Rightarrow> (string, ProtocolError) result" where
  "encode content_type body =
     (if body = [] then Err (ProtocolError_new FrameEmpty)
      else if MAX_FRAME_BODY < length body then Err (ProtocolError_new FrameTooLarge)
      else Ok (u32_to_be_bytes (length body) @ ContentType_byte content_type # body))"

record FrameDecoder =
  header :: string
  header_filled :: nat
  pending :: "(ContentType \<times> nat) option"
  body :: string
  poisoned :: "ProtocolError option"

definition FrameDecoder_new :: FrameDecoder where
  "FrameDecoder_new =
     \<lparr>header = replicate HEADER_LEN (CHR 0x00), header_filled = 0, pending = None, body = [], poisoned = None\<rparr>"

fun parse_header :: "string \<Rightarrow> (ContentType \<times> nat, ProtocolError) result" where
  "parse_header [a, b, c, d, content] =
     (let len = u32_from_be_bytes a b c d
      in if len = 0 then Err (ProtocolError_new FrameEmpty)
         else if MAX_FRAME_BODY < len then Err (ProtocolError_new FrameTooLarge)
         else and_then (ok_or (ContentType_from_byte content) (ProtocolError_new ContentTypeUnsupported))
           (\<lambda>content_type. Ok (content_type, len)))"
| "parse_header _ = Err (ProtocolError_new FrameTruncated)"

text \<open>
  \<^verbatim>\<open>feed\<close> in its two halves. \<open>feed_body\<close> is what follows a complete header: \<open>consumed\<close> bytes of
  \<open>input\<close> are already taken. The array type of the header makes the last equation of
  \<open>parse_header\<close> unreachable; the invariant below says so.
\<close>

definition feed_body :: "FrameDecoder \<Rightarrow> string \<Rightarrow> nat \<Rightarrow>
    FrameDecoder \<times> (nat \<times> Frame option, ProtocolError) result" where
  "feed_body self input consumed =
     (case pending self of
        None \<Rightarrow> (self, Ok (consumed, None))
      | Some (content_type, len) \<Rightarrow>
          let remaining_input = drop consumed input;
              still_needed = len - length (body self);
              take_n = min still_needed (length remaining_input);
              self = self\<lparr>body := body self @ take take_n remaining_input\<rparr>;
              consumed = consumed + take_n
          in if length (body self) < len then (self, Ok (consumed, None))
             else (self\<lparr>body := [], header_filled := 0, pending := None\<rparr>,
                   Ok (consumed, Some \<lparr>frame_content_type = content_type, frame_body = body self\<rparr>)))"

definition feed :: "FrameDecoder \<Rightarrow> string \<Rightarrow>
    FrameDecoder \<times> (nat \<times> Frame option, ProtocolError) result" where
  "feed self input =
     (case poisoned self of
        Some err \<Rightarrow> (self, Err err)
      | None \<Rightarrow>
          if pending self = None then
            (let need = HEADER_LEN - header_filled self;
                 take_n = min need (length input);
                 self = self\<lparr>header := take (header_filled self) (header self) @ take take_n input @
                                drop (header_filled self + take_n) (header self),
                             header_filled := header_filled self + take_n\<rparr>
             in if header_filled self < HEADER_LEN then (self, Ok (take_n, None))
                else case parse_header (header self) of
                       Inr p \<Rightarrow> feed_body (self\<lparr>pending := Some p\<rparr>) input take_n
                     | Inl err \<Rightarrow> (self\<lparr>poisoned := Some err\<rparr>, Err err))
          else feed_body self input 0)"

definition is_idle :: "FrameDecoder \<Rightarrow> bool" where
  "is_idle self \<longleftrightarrow> header_filled self = 0 \<and> pending self = None \<and> poisoned self = None"

definition finish :: "FrameDecoder \<Rightarrow> (unit, ProtocolError) result" where
  "finish self =
     (case poisoned self of
        Some err \<Rightarrow> Err err
      | None \<Rightarrow> if header_filled self = 0 \<and> pending self = None then Ok ()
                else Err (ProtocolError_new FrameTruncated))"

text \<open>
  The loop of \<^verbatim>\<open>decode_all\<close>, which is also what a reader does with each chunk it receives. The frames
  completed before an error are part of the loop's result; \<^verbatim>\<open>decode_all\<close> drops them.
\<close>

function decode_loop :: "FrameDecoder \<Rightarrow> string \<Rightarrow> FrameDecoder \<times> Frame list \<times> ProtocolError option" where
  "decode_loop decoder input =
     (if input = [] then (decoder, [], None)
      else case feed decoder input of
        (decoder, Inl e) \<Rightarrow> (decoder, [], Some e)
      | (decoder, Inr (consumed, frame)) \<Rightarrow>
          let fs = (case frame of Some f \<Rightarrow> [f] | None \<Rightarrow> [])
          in if consumed = 0 then (decoder, fs, None)
             else case decode_loop decoder (drop consumed input) of
               (decoder, frames, e) \<Rightarrow> (decoder, fs @ frames, e))"
  by auto
termination
  by (relation "measure (\<lambda>(decoder, input). length input)") auto

declare decode_loop.simps [simp del]

definition decode_all :: "string \<Rightarrow> (Frame list, ProtocolError) result" where
  "decode_all input =
     (case decode_loop FrameDecoder_new input of
        (decoder, frames, Some e) \<Rightarrow> Err e
      | (decoder, frames, None) \<Rightarrow> and_then (finish decoder) (\<lambda>_. Ok frames))"

section \<open>The stream as a whole\<close>

text \<open>
  What a stream means: its complete frames, and then either the bytes of an unfinished frame or the
  error of the first header that is refused.
\<close>

datatype tail_state = Rest string | Broken ProtocolError

function cut_frames :: "string \<Rightarrow> Frame list \<times> tail_state" where
  "cut_frames s =
     (if length s < 5 then ([], Rest s)
      else case parse_header (take 5 s) of
        Inl e \<Rightarrow> ([], Broken e)
      | Inr (content_type, n) \<Rightarrow>
          if length s < 5 + n then ([], Rest s)
          else case cut_frames (drop (5 + n) s) of
            (frames, t) \<Rightarrow> (\<lparr>frame_content_type = content_type, frame_body = take n (drop 5 s)\<rparr> # frames, t))"
  by auto
termination
  by (relation "measure length") auto

declare cut_frames.simps [simp del]

text \<open>The invariant of the decoder: its buffers hold a proper part of one frame, within the bounds.\<close>

definition buffered :: "FrameDecoder \<Rightarrow> string" where
  "buffered d = take (header_filled d) (header d) @ body d"

definition frame_inv :: "FrameDecoder \<Rightarrow> bool" where
  "frame_inv d \<longleftrightarrow> length (header d) = HEADER_LEN \<and>
     (case poisoned d of
        Some e \<Rightarrow> pending d = None \<and> body d = [] \<and> header_filled d = HEADER_LEN \<and> parse_header (header d) = Err e
      | None \<Rightarrow>
          (case pending d of
             None \<Rightarrow> header_filled d < HEADER_LEN \<and> body d = []
           | Some p \<Rightarrow> header_filled d = HEADER_LEN \<and> parse_header (header d) = Ok p \<and> length (body d) < snd p))"

lemma parse_header_bounds:
  "parse_header h = Ok (ct, n) \<Longrightarrow> 0 < n \<and> n \<le> MAX_FRAME_BODY"
  by (cases h rule: parse_header.cases) (auto simp: Let_def and_then_Ok_iff split: if_splits)

lemma take_of_append: "length xs = n \<Longrightarrow> take n (xs @ ys) = xs"
  by simp

lemma cut_frames_short: "length s < 5 \<Longrightarrow> cut_frames s = ([], Rest s)"
  by (subst cut_frames.simps) simp

lemma cut_frames_broken: "5 \<le> length s \<Longrightarrow> parse_header (take 5 s) = Err e \<Longrightarrow> cut_frames s = ([], Broken e)"
  by (subst cut_frames.simps) simp

lemma cut_frames_partial:
  "5 \<le> length s \<Longrightarrow> parse_header (take 5 s) = Ok (ct, n) \<Longrightarrow> length s < 5 + n \<Longrightarrow> cut_frames s = ([], Rest s)"
  by (subst cut_frames.simps) simp

lemma cut_frames_frame:
  "5 \<le> length s \<Longrightarrow> parse_header (take 5 s) = Ok (ct, n) \<Longrightarrow> 5 + n \<le> length s \<Longrightarrow>
   cut_frames s = (\<lparr>frame_content_type = ct, frame_body = take n (drop 5 s)\<rparr> # fst (cut_frames (drop (5 + n) s)),
            snd (cut_frames (drop (5 + n) s)))"
  by (subst cut_frames.simps) (simp add: split_beta)

text \<open>One call of \<open>feed\<close> on a decoder that is not poisoned, against the specification.\<close>

definition feed_meets_spec ::
  "string \<Rightarrow> string \<Rightarrow> FrameDecoder \<times> (nat \<times> Frame option, ProtocolError) result \<Rightarrow> bool" where
  "feed_meets_spec before input r =
     (case r of
        (d', Inl e) \<Rightarrow> frame_inv d' \<and> poisoned d' = Some e \<and> cut_frames (before @ input) = ([], Broken e)
      | (d', Inr (n, None)) \<Rightarrow> frame_inv d' \<and> poisoned d' = None \<and> n = length input \<and>
          buffered d' = before @ input \<and> cut_frames (before @ input) = ([], Rest (before @ input))
      | (d', Inr (n, Some f)) \<Rightarrow> frame_inv d' \<and> is_idle d' \<and> 0 < n \<and> n \<le> length input \<and>
          cut_frames (before @ input) = (f # fst (cut_frames (drop n input)), snd (cut_frames (drop n input))))"

lemma feed_body_spec:
  assumes "length (header d) = 5" "header_filled d = 5" "poisoned d = None"
    and "pending d = Some (ct, n)" "parse_header (header d) = Ok (ct, n)"
    and "length (body d) < n" "k \<le> length input" "input \<noteq> []"
  shows "case feed_body d input k of (d', r) \<Rightarrow>
     (case r of Inl e \<Rightarrow> False
      | Inr (m, None) \<Rightarrow> frame_inv d' \<and> poisoned d' = None \<and> m = length input \<and>
          buffered d' = header d @ body d @ drop k input \<and>
          cut_frames (header d @ body d @ drop k input) = ([], Rest (header d @ body d @ drop k input))
      | Inr (m, Some f) \<Rightarrow> frame_inv d' \<and> is_idle d' \<and> 0 < m \<and> m \<le> length input \<and>
          cut_frames (header d @ body d @ drop k input) = (f # fst (cut_frames (drop m input)), snd (cut_frames (drop m input))))"
proof (cases "length (body d) + length (drop k input) < n")
  case True
  with assms show ?thesis
    by (auto simp: feed_body_def Let_def frame_inv_def HEADER_LEN_def buffered_def
        intro!: cut_frames_partial [of _ ct n])
next
  case False
  let ?m = "k + (n - length (body d))"
  have m: "min (n - length (body d)) (length input - k) = n - length (body d)" using False by simp
  have "feed_body d input k =
      (d\<lparr>body := [], header_filled := 0, pending := None\<rparr>, Ok (?m,
        Some \<lparr>frame_content_type = ct, frame_body = body d @ take (n - length (body d)) (drop k input)\<rparr>))"
    using assms by (simp add: feed_body_def Let_def m)
  moreover have "cut_frames (header d @ body d @ drop k input) =
      (\<lparr>frame_content_type = ct, frame_body = body d @ take (n - length (body d)) (drop k input)\<rparr> #
        fst (cut_frames (drop ?m input)), snd (cut_frames (drop ?m input)))"
    using cut_frames_frame [of "header d @ body d @ drop k input" ct n] assms False by (simp add: add.commute)
  ultimately show ?thesis
    using assms False by (auto simp: frame_inv_def is_idle_def HEADER_LEN_def)
qed

lemma feed_spec:
  assumes "frame_inv d" "poisoned d = None" "input \<noteq> []"
  shows "feed_meets_spec (buffered d) input (feed d input)"
proof (cases "pending d")
  case (Some p)
  then obtain ct n where p: "pending d = Some (ct, n)" by (cases p) auto
  with assms have *: "length (header d) = 5" "header_filled d = 5" "parse_header (header d) = Ok (ct, n)"
      "length (body d) < n"
    by (auto simp: frame_inv_def HEADER_LEN_def)
  moreover have "buffered d = header d @ body d" using * by (simp add: buffered_def)
  ultimately show ?thesis
    using feed_body_spec [of d ct n 0 input] p assms
    by (auto simp: feed_def feed_meets_spec_def split: prod.splits sum.splits option.splits)
next
  case None
  with assms have *: "length (header d) = 5" "header_filled d < 5" "body d = []"
    by (auto simp: frame_inv_def HEADER_LEN_def)
  show ?thesis
  proof (cases "header_filled d + length input < 5")
    case True
    with * None assms show ?thesis
      by (auto simp: feed_def feed_meets_spec_def Let_def HEADER_LEN_def frame_inv_def buffered_def min_def
          cut_frames_short)
  next
    case False
    let ?k = "5 - header_filled d"
    let ?h = "take (header_filled d) (header d) @ take ?k input"
    let ?d = "d\<lparr>header := ?h, header_filled := 5\<rparr>"
    have b: "buffered d @ input = ?h @ drop ?k input" using * by (simp add: buffered_def)
    have h: "length ?h = 5" using * False by simp
    then have h': "5 \<le> length (?h @ drop ?k input)" "take 5 (?h @ drop ?k input) = ?h"
      using length_append [of ?h "drop ?k input"] take_of_append [of ?h 5 "drop ?k input"] by (simp_all only: le_add1)
    have m: "min ?k (length input) = ?k" "header_filled d + ?k = 5" using * False by simp_all
    have f: "feed d input = (case parse_header ?h of
        Inr p \<Rightarrow> feed_body (?d\<lparr>pending := Some p\<rparr>) input ?k
      | Inl e \<Rightarrow> (?d\<lparr>poisoned := Some e\<rparr>, Err e))"
      using * None assms(2) by (simp add: feed_def Let_def HEADER_LEN_def m cong: sum.case_cong)
    show ?thesis
    proof (cases "parse_header ?h")
      case (Inl e)
      then have "cut_frames (buffered d @ input) = ([], Broken e)"
        unfolding b using h' by (intro cut_frames_broken) (simp_all only:)
      with Inl f h * None show ?thesis
        by (simp add: feed_meets_spec_def frame_inv_def HEADER_LEN_def)
    next
      case (Inr p)
      then obtain ct n where p: "p = (ct, n)" by (cases p)
      have "0 < n" using Inr p parse_header_bounds by blast
      moreover have "?k \<le> length input" using False by simp
      ultimately have "case feed_body (?d\<lparr>pending := Some (ct, n)\<rparr>) input ?k of (d', r) \<Rightarrow>
     (case r of Inl e \<Rightarrow> False
      | Inr (m, None) \<Rightarrow> frame_inv d' \<and> poisoned d' = None \<and> m = length input \<and>
          buffered d' = ?h @ drop ?k input \<and> cut_frames (?h @ drop ?k input) = ([], Rest (?h @ drop ?k input))
      | Inr (m, Some f) \<Rightarrow> frame_inv d' \<and> is_idle d' \<and> 0 < m \<and> m \<le> length input \<and>
          cut_frames (?h @ drop ?k input) = (f # fst (cut_frames (drop m input)), snd (cut_frames (drop m input))))"
        using feed_body_spec [of "?d\<lparr>pending := Some (ct, n)\<rparr>" ct n ?k input] Inr p h * assms by simp
      with f Inr p show ?thesis
        unfolding feed_meets_spec_def b by (auto split: prod.splits sum.splits option.splits)
    qed
  qed
qed

text \<open>The whole loop on one chunk: it delivers the frames of what was buffered and the chunk together.\<close>

lemma idle_buffered: "is_idle d \<Longrightarrow> frame_inv d \<Longrightarrow> buffered d = []"
  by (auto simp: is_idle_def frame_inv_def buffered_def)

lemma decode_loop_spec:
  assumes "frame_inv d" "poisoned d = None"
  shows "case decode_loop d input of (d', frames, e) \<Rightarrow>
     frame_inv d' \<and> poisoned d' = e \<and> frames = fst (cut_frames (buffered d @ input)) \<and>
     snd (cut_frames (buffered d @ input)) = (case e of Some err \<Rightarrow> Broken err | None \<Rightarrow> Rest (buffered d'))"
  using assms
proof (induction d input rule: decode_loop.induct)
  case (1 d input)
  show ?case
  proof (cases "input = []")
    case True
    have "cut_frames (buffered d) = ([], Rest (buffered d))"
    proof (cases "pending d")
      case None
      with 1(2,3) show ?thesis
        by (intro cut_frames_short) (auto simp: frame_inv_def buffered_def HEADER_LEN_def)
    next
      case (Some p)
      with 1(2,3) show ?thesis
        by (intro cut_frames_partial [of _ "fst p" "snd p"])
          (auto simp: frame_inv_def buffered_def HEADER_LEN_def)
    qed
    with True 1(2,3) show ?thesis by (simp add: decode_loop.simps)
  next
    case False
    note spec = feed_spec [OF 1(2,3) False]
    obtain d' r where f: "feed d input = (d', r)" by (cases "feed d input")
    show ?thesis
    proof (cases r)
      case (Inl e)
      with f spec False show ?thesis by (simp add: decode_loop.simps feed_meets_spec_def)
    next
      case (Inr nf)
      obtain n fr where nf: "nf = (n, fr)" by (cases nf)
      show ?thesis
      proof (cases fr)
        case None
        with f spec False Inr nf show ?thesis
          by (auto simp: decode_loop.simps feed_meets_spec_def)
      next
        case (Some frm)
        with f spec Inr nf have *: "frame_inv d'" "is_idle d'" "n \<noteq> 0"
            "cut_frames (buffered d @ input) = (frm # fst (cut_frames (drop n input)), snd (cut_frames (drop n input)))"
          by (auto simp: feed_meets_spec_def)
        moreover have "buffered d' = []" using * idle_buffered by blast
        moreover have "poisoned d' = None" using * by (simp add: is_idle_def)
        moreover obtain d2 fs2 e2 where "decode_loop d' (drop n input) = (d2, fs2, e2)"
          by (cases "decode_loop d' (drop n input)") auto
        ultimately show ?thesis
          using 1(1) [OF False f [symmetric] Inr nf [symmetric] refl] f Inr nf Some False
          by (subst decode_loop.simps) simp
      qed
    qed
  qed
qed

section \<open>Chunks and round trips\<close>

text \<open>A reader that hands the decoder one chunk after another and stops at the first error.\<close>

fun feed_chunks :: "FrameDecoder \<Rightarrow> string list \<Rightarrow> FrameDecoder \<times> Frame list \<times> ProtocolError option" where
  "feed_chunks d [] = (d, [], None)"
| "feed_chunks d (c # cs) =
     (case decode_loop d c of
        (d', frames, Some e) \<Rightarrow> (d', frames, Some e)
      | (d', frames, None) \<Rightarrow>
          (case feed_chunks d' cs of (d'', frames', e) \<Rightarrow> (d'', frames @ frames', e)))"

lemma cut_frames_append:
  "cut_frames (s @ u) = (case cut_frames s of
     (frames, Broken e) \<Rightarrow> (frames, Broken e)
   | (frames, Rest t) \<Rightarrow> (frames @ fst (cut_frames (t @ u)), snd (cut_frames (t @ u))))"
proof (induction s rule: cut_frames.induct)
  case (1 s)
  show ?case
  proof (cases "length s < 5")
    case True
    then show ?thesis by (simp add: cut_frames_short)
  next
    case ge: False
    show ?thesis
    proof (cases "parse_header (take 5 s)")
      case (Inl e)
      with ge show ?thesis by (simp add: cut_frames_broken)
    next
      case (Inr p)
      obtain ct n where p: "p = (ct, n)" by (cases p)
      show ?thesis
      proof (cases "length s < 5 + n")
        case True
        with ge Inr p show ?thesis by (simp add: cut_frames_partial)
      next
        case False
        have "cut_frames (s @ u) = (\<lparr>frame_content_type = ct, frame_body = take n (drop 5 s)\<rparr> #
            fst (cut_frames (drop (5 + n) s @ u)), snd (cut_frames (drop (5 + n) s @ u)))"
          using cut_frames_frame [of "s @ u" ct n] ge Inr p False by simp
        moreover have "cut_frames s = (\<lparr>frame_content_type = ct, frame_body = take n (drop 5 s)\<rparr> #
            fst (cut_frames (drop (5 + n) s)), snd (cut_frames (drop (5 + n) s)))"
          using cut_frames_frame [of s ct n] ge Inr p False by simp
        ultimately show ?thesis
          using 1 [OF ge Inr p [symmetric] False]
          by (auto split: prod.splits tail_state.splits)
      qed
    qed
  qed
qed

lemma feed_chunks_spec:
  assumes "frame_inv d" "poisoned d = None"
  shows "case feed_chunks d cs of (d', frames, e) \<Rightarrow>
     frame_inv d' \<and> poisoned d' = e \<and> frames = fst (cut_frames (buffered d @ concat cs)) \<and>
     snd (cut_frames (buffered d @ concat cs)) = (case e of Some err \<Rightarrow> Broken err | None \<Rightarrow> Rest (buffered d'))"
  using assms
proof (induction cs arbitrary: d)
  case Nil
  then show ?case using decode_loop_spec [of d "[]"] by (simp add: decode_loop.simps)
next
  case (Cons c cs)
  obtain d' frames e where l: "decode_loop d c = (d', frames, e)" by (cases "decode_loop d c") auto
  have *: "cut_frames (buffered d @ concat (c # cs)) = (case cut_frames (buffered d @ c) of
      (frames, Broken e) \<Rightarrow> (frames, Broken e)
    | (frames, Rest t) \<Rightarrow> (frames @ fst (cut_frames (t @ concat cs)), snd (cut_frames (t @ concat cs))))"
    using cut_frames_append [of "buffered d @ c" "concat cs"] by simp
  show ?case
    using decode_loop_spec [OF Cons.prems, of c] Cons.IH [of d'] * l
    by (cases "cut_frames (buffered d @ c)") (auto split: option.splits prod.splits)
qed

lemma frame_inv_new: "frame_inv FrameDecoder_new" "poisoned FrameDecoder_new = None" "buffered FrameDecoder_new = []"
  by (simp_all add: frame_inv_def FrameDecoder_new_def buffered_def HEADER_LEN_def)

lemma of_char_of_byte: "of_char (char_of (n::nat)) = n mod 256"
  by (simp add: of_char_of)

lemma big_endian_sum:
  fixes n :: nat
  assumes "c = d" "n = b * 256 + r" "b = a * 256 + e" "a = d * 256 + f"
  shows "c * 2 ^ 24 + f * 2 ^ 16 + e * 2 ^ 8 + r = n"
  using assms by simp

lemma u32_be_bytes_roundtrip:
  assumes "n < 2 ^ 32"
  shows "u32_from_be_bytes (char_of (n div 2 ^ 24)) (char_of (n div 2 ^ 16)) (char_of (n div 2 ^ 8)) (char_of n) = n"
proof -
  have d: "n div 2 ^ 16 = n div 2 ^ 8 div 2 ^ 8" "n div 2 ^ 24 = n div 2 ^ 16 div 2 ^ 8"
    by (simp_all flip: div_mult2_eq)
  have m: "n = n div 2 ^ 8 * 256 + n mod 256"
    "n div 2 ^ 8 = n div 2 ^ 16 * 256 + n div 2 ^ 8 mod 256"
    "n div 2 ^ 16 = n div 2 ^ 24 * 256 + n div 2 ^ 16 mod 256"
    unfolding d by simp_all
  have "n div 2 ^ 24 mod 256 = n div 2 ^ 24" using assms by (simp add: less_mult_imp_div_less)
  then show ?thesis
    unfolding u32_from_be_bytes_def of_char_of_byte by (rule big_endian_sum [OF _ m])
qed

lemma cut_frames_encode:
  assumes "encode ct b = Ok e"
  shows "cut_frames (e @ s) = (\<lparr>frame_content_type = ct, frame_body = b\<rparr> # fst (cut_frames s), snd (cut_frames s))"
proof -
  from assms have b: "b \<noteq> []" "length b \<le> MAX_FRAME_BODY"
      and e: "e = u32_to_be_bytes (length b) @ ContentType_byte ct # b"
    by (auto simp: encode_def split: if_splits)
  have u: "length b < 2 ^ 32" using b by (simp add: MAX_FRAME_BODY_def)
  have t: "take 5 (e @ s) = u32_to_be_bytes (length b) @ [ContentType_byte ct]" "drop 5 (e @ s) = b @ s"
      "length (e @ s) = 5 + length b + length s"
    by (simp_all add: e u32_to_be_bytes_def)
  have t': "drop (5 + length b) (e @ s) = s"
    using t(2) by (metis add.commute append_eq_conv_conj drop_drop)
  have "parse_header (take 5 (e @ s)) = Ok (ct, length b)"
    using b u32_be_bytes_roundtrip [OF u]
    unfolding t(1) by (cases ct) (simp add: u32_to_be_bytes_def Let_def ContentType_from_byte_def)
  then show ?thesis
    using cut_frames_frame [of "e @ s" ct "length b"] by (simp only: t t') simp
qed

end
