(* ===== verification/Rust_F64.thy ===== *)
theory Rust_F64
  imports Rust_Prelude
begin

text \<open>
  What the JSON layer uses of Rust's \<^verbatim>\<open>f64\<close>: a double is its 64 bits (\<^verbatim>\<open>to_bits\<close>), a finite one is
  an integer times a power of two; \<^verbatim>\<open>str::parse\<close> is the nearest double with ties to even,
  \<^verbatim>\<open>format!("{:e}")\<close> the shortest digits that read back and \<^verbatim>\<open>format!("{:.Ne}")\<close> the correctly rounded
  digits at a precision, ties to even. Everything is exact arithmetic on natural numbers.
\<close>

type_synonym f64 = "64 word"

definition f64_negative :: "f64 \<Rightarrow> bool" where
  "f64_negative x \<longleftrightarrow> 2 ^ 63 \<le> unat x"

definition f64_exp_bits :: "f64 \<Rightarrow> nat" where
  "f64_exp_bits x = unat x div 2 ^ 52 mod 2 ^ 11"

definition f64_frac_bits :: "f64 \<Rightarrow> nat" where
  "f64_frac_bits x = unat x mod 2 ^ 52"

definition f64_is_finite :: "f64 \<Rightarrow> bool" where
  "f64_is_finite x \<longleftrightarrow> f64_exp_bits x \<noteq> 2047"

text \<open>The magnitude of a finite double as a quotient of natural numbers.\<close>

definition f64_mant :: "f64 \<Rightarrow> nat" where
  "f64_mant x = (if f64_exp_bits x = 0 then f64_frac_bits x else f64_frac_bits x + 2 ^ 52)"

definition f64_exp :: "f64 \<Rightarrow> int" where
  "f64_exp x = (if f64_exp_bits x = 0 then -1074 else int (f64_exp_bits x) - 1075)"

definition f64_num :: "f64 \<Rightarrow> nat" where
  "f64_num x = f64_mant x * 2 ^ nat (f64_exp x)"

definition f64_den :: "f64 \<Rightarrow> nat" where
  "f64_den x = 2 ^ nat (- f64_exp x)"

definition f64_of_bits :: "bool \<Rightarrow> nat \<Rightarrow> f64" where
  "f64_of_bits neg magnitude = word_of_nat (if neg then magnitude + 2 ^ 63 else magnitude)"

definition f64_abs :: "f64 \<Rightarrow> f64" where
  "f64_abs x = f64_of_bits False (unat x mod 2 ^ 63)"

text \<open>Rounding a quotient to an integer, halves to even.\<close>

definition div_even :: "nat \<Rightarrow> nat \<Rightarrow> nat" where
  "div_even num den =
     (let q = num div den; r = num mod den
      in if 2 * r < den \<or> 2 * r = den \<and> even q then q else q + 1)"

fun bit_length :: "nat \<Rightarrow> nat" where
  "bit_length n = (if n = 0 then 0 else bit_length (n div 2) + 1)"

declare bit_length.simps [simp del]

text \<open>
  The nearest double to \<open>num / den\<close>, as the bits below the sign; \<open>2047 * 2 ^ 52\<close> is infinity. The
  scale \<open>e\<close> is the exponent of the last place; a significand that rounds up to \<open>2 ^ 53\<close> carries into
  the exponent by itself.
\<close>

definition f64_scale :: "nat \<Rightarrow> nat \<Rightarrow> int" where
  "f64_scale num den =
     (let e = int (bit_length num) - int (bit_length den) - 53;
          wide = (if e < 0 then num * 2 ^ nat (- e) \<ge> 2 ^ 53 * den else num \<ge> 2 ^ 53 * den * 2 ^ nat e)
      in max (-1074) (if wide then e + 1 else e))"

definition f64_round :: "nat \<Rightarrow> nat \<Rightarrow> nat" where
  "f64_round num den =
     (if num = 0 then 0
      else let e = f64_scale num den;
               q = div_even (num * 2 ^ nat (- e)) (den * 2 ^ nat e);
               bits = (if q < 2 ^ 52 then q else nat (e + 1075) * 2 ^ 52 + (q - 2 ^ 52))
           in min bits (2047 * 2 ^ 52))"

text \<open>
  \<^verbatim>\<open>str::parse::<f64>\<close> on the texts it is given here, which match the number grammar of JSON: an
  optional sign, digits, an optional fraction and an optional exponent.
\<close>

definition f64_parse :: "string \<Rightarrow> f64" where
  "f64_parse lexeme =
     (let neg = starts_with lexeme ''-'';
          body = (if neg then tl lexeme else lexeme);
          mantissa = takeWhile (\<lambda>c. c \<noteq> CHR ''e'' \<and> c \<noteq> CHR ''E'') body;
          exponent = drop (length mantissa + 1) body;
          exp_digits = filter is_ascii_digit exponent;
          e = (if starts_with exponent ''-'' then - int (nat_of_digits exp_digits)
               else int (nat_of_digits exp_digits));
          whole = takeWhile (\<lambda>c. c \<noteq> CHR ''.'') mantissa;
          fraction = drop (length whole + 1) mantissa;
          scale = e - int (length fraction);
          n = nat_of_digits (whole @ fraction)
      in f64_of_bits neg (f64_round (n * 10 ^ nat scale) (10 ^ nat (- scale))))"

text \<open>The decimal exponent of a positive quotient: \<open>10 ^ n \<le> num / den < 10 ^ (n + 1)\<close>.\<close>

definition decimal_exponent :: "nat \<Rightarrow> nat \<Rightarrow> int" where
  "decimal_exponent num den =
     (if den \<le> num then int (length (show_nat (num div den))) - 1
      else let j = length (show_nat (den div num)) - 1
           in if den \<le> num * 10 ^ j then - int j else - int j - 1)"

definition sci_text :: "string \<Rightarrow> int \<Rightarrow> string" where
  "sci_text digits n =
     take 1 digits @ (if length digits \<le> 1 then [] else CHR ''.'' # drop 1 digits) @ ''e'' @
     (if n < 0 then ''-'' else []) @ show_nat (nat \<bar>n\<bar>)"

definition format_sci_prec :: "nat \<Rightarrow> f64 \<Rightarrow> string" where
  "format_sci_prec precision x =
     (let num = f64_num x; den = f64_den x; n = decimal_exponent num den;
          s = int precision - n;
          q = div_even (num * 10 ^ nat s) (den * 10 ^ nat (- s))
      in if q = 10 ^ (precision + 1) then sci_text (show_nat (10 ^ precision)) (n + 1)
         else sci_text (show_nat q) n)"

text \<open>
  The shortest form: the first number of digits for which the \<open>k\<close>-digit decimal below or above reads
  back as the same double; the nearer of the two, the upper one on a tie.
\<close>

definition shortest_at :: "f64 \<Rightarrow> nat \<Rightarrow> string option" where
  "shortest_at x k =
     (let num = f64_num x; den = f64_den x; n = decimal_exponent num den;
          s = int k - 1 - n;
          a = num * 10 ^ nat s; b = den * 10 ^ nat (- s);
          lower = a div b; upper = lower + 1;
          text = (\<lambda>q. if q = 10 ^ k then sci_text (show_nat (10 ^ (k - 1))) (n + 1)
                      else sci_text (show_nat q) n);
          low = f64_parse (text lower) = x;
          up = f64_parse (text upper) = x
      in if low \<and> (\<not> up \<or> 2 * (a mod b) < b) then Some (text lower)
         else if up then Some (text upper) else None)"

definition format_sci :: "f64 \<Rightarrow> string" where
  "format_sci x =
     (case List.map_filter (shortest_at x) [1..<18] of
        t # _ \<Rightarrow> t
      | [] \<Rightarrow> format_sci_prec 16 x)"

end
