(* ===== verification/Rust_Utf8.thy ===== *)
theory Rust_Utf8
  imports Rust_Prelude
begin

text \<open>
  UTF-8 as the standard library defines it: the well-formed sequences of \<^verbatim>\<open>str::from_utf8\<close>, the
  scalar values of \<^verbatim>\<open>chars\<close>, the bytes of \<^verbatim>\<open>String::push\<close>, and the code units of
  \<^verbatim>\<open>encode_utf16\<close>. A text cut at an ASCII byte leaves two texts, which is what lets the parsers of
  the sources work on bytes.
\<close>

definition lead_width :: "char \<Rightarrow> nat" where
  "lead_width a =
     (if byte_of a < 0x80 then 1
      else if 0xC2 \<le> byte_of a \<and> byte_of a \<le> 0xDF then 2
      else if 0xE0 \<le> byte_of a \<and> byte_of a \<le> 0xEF then 3
      else if 0xF0 \<le> byte_of a \<and> byte_of a \<le> 0xF4 then 4
      else 0)"

text \<open>The narrower ranges of the second byte: no overlong form, no surrogate, nothing past U+10FFFF.\<close>

definition second_ok :: "char \<Rightarrow> char \<Rightarrow> bool" where
  "second_ok a b \<longleftrightarrow>
     (byte_of a = 0xE0 \<longrightarrow> 0xA0 \<le> byte_of b) \<and> (byte_of a = 0xED \<longrightarrow> byte_of b \<le> 0x9F) \<and>
     (byte_of a = 0xF0 \<longrightarrow> 0x90 \<le> byte_of b) \<and> (byte_of a = 0xF4 \<longrightarrow> byte_of b \<le> 0x8F)"

fun utf8_width :: "string \<Rightarrow> nat" where
  "utf8_width [] = 0"
| "utf8_width (a # s) =
     (let more = take (lead_width a - 1) s
      in if lead_width a \<noteq> 0 \<and> length more = lead_width a - 1 \<and> list_all is_continuation more \<and>
            (more \<noteq> [] \<longrightarrow> second_ok a (hd more))
         then lead_width a else 0)"

declare utf8_width.simps [simp del]

lemma utf8_width_Nil [simp]: "utf8_width [] = 0"
  by (simp add: utf8_width.simps)

lemma utf8_width_le: "utf8_width s \<le> length s"
  by (cases s) (auto simp: utf8_width.simps Let_def)

lemma utf8_width_pos: "0 < utf8_width s \<Longrightarrow> s \<noteq> []"
  by auto

text \<open>The length of the longest well-formed prefix (\<^verbatim>\<open>Utf8Error::valid_up_to\<close>).\<close>

function utf8_valid_up_to :: "string \<Rightarrow> nat" where
  "utf8_valid_up_to s =
     (if utf8_width s = 0 then 0 else utf8_width s + utf8_valid_up_to (drop (utf8_width s) s))"
  by auto
termination
  by (relation "measure length") (simp_all add: utf8_width_pos)

declare utf8_valid_up_to.simps [simp del]

definition utf8_ok :: "string \<Rightarrow> bool" where
  "utf8_ok s \<longleftrightarrow> utf8_valid_up_to s = length s"

fun utf8_scalar :: "string \<Rightarrow> nat" where
  "utf8_scalar [a] = byte_of a"
| "utf8_scalar [a, b] = (byte_of a - 0xC0) * 64 + (byte_of b - 0x80)"
| "utf8_scalar [a, b, c] = (byte_of a - 0xE0) * 4096 + (byte_of b - 0x80) * 64 + (byte_of c - 0x80)"
| "utf8_scalar [a, b, c, d] =
     (byte_of a - 0xF0) * 262144 + (byte_of b - 0x80) * 4096 + (byte_of c - 0x80) * 64 + (byte_of d - 0x80)"
| "utf8_scalar _ = 0"

function utf8_chars :: "string \<Rightarrow> nat list" where
  "utf8_chars s =
     (if utf8_width s = 0 then []
      else utf8_scalar (take (utf8_width s) s) # utf8_chars (drop (utf8_width s) s))"
  by auto
termination
  by (relation "measure length") (simp_all add: utf8_width_pos)

declare utf8_chars.simps [simp del]

definition utf8_encode :: "nat \<Rightarrow> string" where
  "utf8_encode v =
     (if v < 0x80 then [char_of v]
      else if v < 0x800 then [char_of (0xC0 + v div 64), char_of (0x80 + v mod 64)]
      else if v < 0x10000 then
        [char_of (0xE0 + v div 4096), char_of (0x80 + v div 64 mod 64), char_of (0x80 + v mod 64)]
      else [char_of (0xF0 + v div 262144), char_of (0x80 + v div 4096 mod 64),
            char_of (0x80 + v div 64 mod 64), char_of (0x80 + v mod 64)])"

definition char_from_u32 :: "nat \<Rightarrow> nat option" where
  "char_from_u32 v = (if v < 0xD800 \<or> 0xDFFF < v \<and> v \<le> 0x10FFFF then Some v else None)"

definition utf16_units :: "nat \<Rightarrow> nat list" where
  "utf16_units v =
     (if v < 0x10000 then [v] else [0xD800 + (v - 0x10000) div 1024, 0xDC00 + (v - 0x10000) mod 1024])"

definition encode_utf16 :: "string \<Rightarrow> nat list" where
  "encode_utf16 s = concat (map utf16_units (utf8_chars s))"

section \<open>Laws\<close>

lemma utf8_width_append:
  assumes "utf8_width s \<noteq> 0"
  shows "utf8_width (s @ t) = utf8_width s"
proof (cases s)
  case (Cons a s')
  with assms have "lead_width a - 1 \<le> length s'"
    by (auto simp: utf8_width.simps Let_def split: if_splits)
  with Cons show ?thesis by (simp add: utf8_width.simps)
qed (use assms in simp)

lemma utf8_valid_le: "utf8_valid_up_to s \<le> length s"
proof (induction s rule: utf8_valid_up_to.induct)
  case (1 s)
  then show ?case
    using utf8_width_le [of s] by (subst utf8_valid_up_to.simps) auto
qed

lemma utf8_ok_Nil [simp]: "utf8_ok []"
  by (simp add: utf8_ok_def utf8_valid_up_to.simps)

lemma utf8_ok_step: "utf8_width s \<noteq> 0 \<Longrightarrow> utf8_ok s \<longleftrightarrow> utf8_ok (drop (utf8_width s) s)"
  using utf8_width_le [of s] unfolding utf8_ok_def
  by (subst utf8_valid_up_to.simps) auto

lemma utf8_ok_width: "utf8_ok s \<Longrightarrow> s \<noteq> [] \<Longrightarrow> utf8_width s \<noteq> 0"
  unfolding utf8_ok_def by (subst (asm) utf8_valid_up_to.simps) (auto split: if_splits)

lemma utf8_ok_induct [consumes 1, case_names Nil Step]:
  assumes "utf8_ok s" and "P []"
    and "\<And>s. utf8_width s \<noteq> 0 \<Longrightarrow> utf8_ok (drop (utf8_width s) s) \<Longrightarrow> P (drop (utf8_width s) s) \<Longrightarrow> P s"
  shows "P s"
  using assms(1)
proof (induction s rule: utf8_valid_up_to.induct)
  case (1 s)
  show ?case
  proof (cases "s = []")
    case False
    with 1 show ?thesis
      using assms(3) [of s] utf8_ok_width utf8_ok_step by blast
  qed (use assms(2) in simp)
qed

lemma utf8_ok_append: "utf8_ok s \<Longrightarrow> utf8_ok (s @ t) \<longleftrightarrow> utf8_ok t"
proof (induction s rule: utf8_ok_induct)
  case (Step s)
  then show ?case
    using utf8_ok_step [of "s @ t"] utf8_width_append [of s t] utf8_width_le [of s] by simp
qed simp

lemma utf8_width_ascii [simp]: "byte_of c < 128 \<Longrightarrow> utf8_width (c # s) = 1"
  by (simp add: utf8_width.simps lead_width_def)

lemma utf8_ok_ascii [simp]: "byte_of c < 128 \<Longrightarrow> utf8_ok (c # s) \<longleftrightarrow> utf8_ok s"
  using utf8_ok_step [of "c # s"] by simp

lemma utf8_ok_all_ascii: "(\<And>c. c \<in> set s \<Longrightarrow> byte_of c < 128) \<Longrightarrow> utf8_ok s"
  by (induction s) auto

lemma utf8_ok_concat: "(\<And>x. x \<in> set xs \<Longrightarrow> utf8_ok x) \<Longrightarrow> utf8_ok (concat xs)"
  by (induction xs) (simp_all add: utf8_ok_append)

text \<open>A sequence of more than one byte has no ASCII byte, so it does not reach across one.\<close>

lemma utf8_width_not_ascii:
  assumes "byte_of c < 128" "s \<noteq> []"
  shows "utf8_width (s @ c # t) \<le> length s"
proof (rule ccontr)
  assume *: "\<not> ?thesis"
  obtain a s' where s: "s = a # s'" using assms(2) by (cases s) auto
  let ?more = "take (lead_width a - 1) (s' @ c # t)"
  have "utf8_width (s @ c # t) = lead_width a" "list_all is_continuation ?more" "length s < lead_width a"
    using * by (auto simp: s utf8_width.simps Let_def split: if_splits)
  moreover from this have "c \<in> set ?more"
    by (simp add: s take_Cons' )
  ultimately have "is_continuation c" by (auto simp: list_all_iff)
  then show False using assms(1) by (simp add: is_continuation_def)
qed

lemma utf8_width_short:
  assumes "utf8_width (s @ t) \<le> length s" "utf8_width (s @ t) \<noteq> 0"
  shows "utf8_width s = utf8_width (s @ t)"
proof (cases s)
  case (Cons a s')
  with assms have "lead_width a - 1 \<le> length s'"
    by (auto simp: utf8_width.simps Let_def split: if_splits)
  with Cons show ?thesis by (simp add: utf8_width.simps)
qed (use assms in simp)

lemma utf8_ok_split_ascii:
  assumes "utf8_ok (s @ c # t)" "byte_of c < 128"
  shows "utf8_ok s \<and> utf8_ok t"
  using assms(1)
proof (induction s rule: length_induct)
  case (1 s)
  show ?case
  proof (cases "s = []")
    case True
    with 1 assms(2) show ?thesis by simp
  next
    case False
    let ?w = "utf8_width (s @ c # t)"
    have w: "?w \<noteq> 0" "?w \<le> length s"
      using utf8_ok_width 1(2) utf8_width_not_ascii [OF assms(2) False] by auto
    moreover have "utf8_ok (drop ?w s @ c # t)" using utf8_ok_step [OF w(1)] 1(2) w(2) by simp
    moreover have "length (drop ?w s) < length s" using w by simp
    ultimately have "utf8_ok (drop ?w s) \<and> utf8_ok t" using 1(1) by blast
    with w show ?thesis using utf8_width_short [OF w(2,1)] utf8_ok_step [of s] by simp
  qed
qed

section \<open>Scalars and code units\<close>

lemma byte_of_char_of [simp]: "byte_of (char_of (n::nat)) = n mod 256"
  by (simp add: of_char_of)

lemma is_continuation_char_of: "is_continuation (char_of (0x80 + n mod 64 :: nat))"
  by (simp add: is_continuation_def)

text \<open>What one well-formed sequence looks like, by its width.\<close>

lemma utf8_width_cases [consumes 1, case_names One Two Three Four]:
  assumes "utf8_width s \<noteq> 0"
  obtains a r where "s = a # r" "utf8_width s = 1" "byte_of a < 0x80"
  | a b r where "s = a # b # r" "utf8_width s = 2" "0xC2 \<le> byte_of a" "byte_of a \<le> 0xDF" "is_continuation b"
  | a b c r where "s = a # b # c # r" "utf8_width s = 3" "0xE0 \<le> byte_of a" "byte_of a \<le> 0xEF"
      "is_continuation b" "is_continuation c" "second_ok a b"
  | a b c d r where "s = a # b # c # d # r" "utf8_width s = 4" "0xF0 \<le> byte_of a" "byte_of a \<le> 0xF4"
      "is_continuation b" "is_continuation c" "is_continuation d" "second_ok a b"
proof -
  from assms obtain a t where s: "s = a # t" by (cases s) auto
  let ?n = "lead_width a - 1"
  from assms s have w: "utf8_width s = lead_width a" "lead_width a \<noteq> 0" "length (take ?n t) = ?n"
      "list_all is_continuation (take ?n t)" "take ?n t \<noteq> [] \<longrightarrow> second_ok a (hd (take ?n t))"
    by (auto simp: utf8_width.simps Let_def split: if_splits)
  have "lead_width a = 1 \<and> byte_of a < 0x80 \<or> lead_width a = 2 \<and> 0xC2 \<le> byte_of a \<and> byte_of a \<le> 0xDF \<or>
      lead_width a = 3 \<and> 0xE0 \<le> byte_of a \<and> byte_of a \<le> 0xEF \<or>
      lead_width a = 4 \<and> 0xF0 \<le> byte_of a \<and> byte_of a \<le> 0xF4"
    using w(2) by (auto simp: lead_width_def split: if_splits)
  then show thesis
  proof (elim disjE conjE)
    assume "lead_width a = 1" "byte_of a < 0x80"
    with s w show thesis by (intro that(1)) auto
  next
    assume l: "lead_width a = 2" "0xC2 \<le> byte_of a" "byte_of a \<le> 0xDF"
    then obtain b r where "t = b # r" using w(3) by (cases t) auto
    with l s w show thesis by (intro that(2)) auto
  next
    assume l: "lead_width a = 3" "0xE0 \<le> byte_of a" "byte_of a \<le> 0xEF"
    then obtain b c r where "t = b # c # r" using w(3) by (cases t; cases "tl t") auto
    with l s w show thesis by (intro that(3)) (auto simp: numeral_eq_Suc)
  next
    assume l: "lead_width a = 4" "0xF0 \<le> byte_of a" "byte_of a \<le> 0xF4"
    then obtain b c d r where "t = b # c # d # r" using w(3) by (cases t; cases "tl t"; cases "tl (tl t)") auto
    with l s w show thesis by (intro that(4)) (auto simp: numeral_eq_Suc)
  qed
qed

lemma base64_digits:
  fixes x y z u :: nat
  assumes "z < 64" "y < 64" "u < 64"
  shows "(x * 4096 + y * 64 + z) div 4096 = x" "(x * 4096 + y * 64 + z) div 64 = x * 64 + y"
    "(x * 64 + y) mod 64 = y" "(x * 4096 + y * 64 + z) mod 64 = z"
    "(x * 262144 + y * 4096 + z * 64 + u) div 262144 = x"
    "(x * 262144 + y * 4096 + z * 64 + u) div 4096 = x * 64 + y"
    "(x * 262144 + y * 4096 + z * 64 + u) div 64 = (x * 64 + y) * 64 + z"
    "(x * 262144 + y * 4096 + z * 64 + u) mod 64 = u"
proof -
  have a: "x * 4096 + y * 64 + z = (x * 64 + y) * 64 + z"
    "x * 262144 + y * 4096 + z * 64 + u = ((x * 64 + y) * 64 + z) * 64 + u" by simp_all
  show "(x * 4096 + y * 64 + z) mod 64 = z" "(x * 262144 + y * 4096 + z * 64 + u) mod 64 = u"
    using assms unfolding a by (simp_all only: mod_mult_self3 mod_less)
qed (use assms in \<open>auto intro!: div_nat_eqI simp: algebra_simps\<close>)

lemma take_small:
  "take 2 (a # b # r) = [a, b]" "take 3 (a # b # c # r) = [a, b, c]" "take 4 (a # b # c # d # r) = [a, b, c, d]"
  by (simp_all add: numeral_eq_Suc)

definition is_scalar :: "nat \<Rightarrow> bool" where
  "is_scalar v \<longleftrightarrow> v < 0xD800 \<or> 0xDFFF < v \<and> v \<le> 0x10FFFF"

lemma utf8_encode_scalar:
  assumes "utf8_width s \<noteq> 0"
  shows "utf8_encode (utf8_scalar (take (utf8_width s) s)) = take (utf8_width s) s \<and>
    is_scalar (utf8_scalar (take (utf8_width s) s))"
  using assms
proof (cases rule: utf8_width_cases)
  case (One a r)
  then show ?thesis by (simp add: utf8_encode_def is_scalar_def)
next
  case (Two a b r)
  define x y where "x = byte_of a - 0xC0" and "y = byte_of b - 0x80"
  have "byte_of a = x + 0xC0" "byte_of b = y + 0x80" "2 \<le> x" "x < 32" "y < 64"
    using Two by (auto simp: x_def y_def is_continuation_def)
  moreover from this have "char_of (0xC0 + x) = a" "char_of (0x80 + y) = b"
    by (metis add.commute char_of_char)+
  ultimately show ?thesis
    using Two by (simp add: utf8_encode_def is_scalar_def take_small)
next
  case (Three a b c r)
  define x y z where "x = byte_of a - 0xE0" and "y = byte_of b - 0x80" and "z = byte_of c - 0x80"
  have *: "byte_of a = x + 0xE0" "byte_of b = y + 0x80" "byte_of c = z + 0x80" "x < 16" "y < 64" "z < 64"
      "x = 0 \<longrightarrow> 32 \<le> y" "x = 13 \<longrightarrow> y < 32"
    using Three by (auto simp: x_def y_def z_def is_continuation_def second_ok_def)
  moreover from * have "char_of (0xE0 + x) = a" "char_of (0x80 + y) = b" "char_of (0x80 + z) = c"
    by (metis add.commute char_of_char)+
  moreover have "0x800 \<le> x * 4096 + y * 64 + z" "x * 4096 + y * 64 + z < 0x10000"
    using * by linarith+
  moreover have "(x * 4096 + y * 64 + z) div 4096 = x" "(x * 4096 + y * 64 + z) div 64 mod 64 = y"
      "(x * 4096 + y * 64 + z) mod 64 = z"
    using * by (simp_all only: base64_digits)
  moreover have "is_scalar (x * 4096 + y * 64 + z)"
    using * unfolding is_scalar_def by (cases "x < 13"; cases "x = 13") linarith+
  ultimately show ?thesis
    using Three by (simp add: utf8_encode_def take_small)
next
  case (Four a b c d r)
  define x y z u where "x = byte_of a - 0xF0" and "y = byte_of b - 0x80" and "z = byte_of c - 0x80"
    and "u = byte_of d - 0x80"
  have *: "byte_of a = x + 0xF0" "byte_of b = y + 0x80" "byte_of c = z + 0x80" "byte_of d = u + 0x80"
      "x < 5" "y < 64" "z < 64" "u < 64" "x = 0 \<longrightarrow> 16 \<le> y" "x = 4 \<longrightarrow> y < 16"
    using Four by (auto simp: x_def y_def z_def u_def is_continuation_def second_ok_def)
  let ?v = "x * 262144 + y * 4096 + z * 64 + u"
  from * have "char_of (0xF0 + x) = a" "char_of (0x80 + y) = b" "char_of (0x80 + z) = c" "char_of (0x80 + u) = d"
    by (metis add.commute char_of_char)+
  moreover have "0x10000 \<le> ?v" "?v \<le> 0x10FFFF"
    using * by linarith+
  moreover have "?v div 262144 = x" "?v div 4096 mod 64 = y" "?v div 64 mod 64 = z" "?v mod 64 = u"
    using * by (simp_all only: base64_digits)
  ultimately show ?thesis
    using Four * by (simp add: utf8_encode_def is_scalar_def take_small)
qed

lemma utf8_chars_sound:
  "utf8_ok s \<Longrightarrow> concat (map utf8_encode (utf8_chars s)) = s \<and> list_all is_scalar (utf8_chars s)"
proof (induction s rule: utf8_ok_induct)
  case (Step s)
  then show ?case
    using utf8_encode_scalar [OF Step.hyps(1)] by (subst (1 2) utf8_chars.simps) simp
qed (simp add: utf8_chars.simps)

lemma utf16_units_inject:
  assumes "is_scalar v" "is_scalar w" "utf16_units v @ xs = utf16_units w @ ys"
  shows "v = w \<and> xs = ys"
proof -
  have "(v - 0x10000) div 1024 = (w - 0x10000) div 1024 \<Longrightarrow> (v - 0x10000) mod 1024 = (w - 0x10000) mod 1024 \<Longrightarrow>
      v - 0x10000 = w - 0x10000"
    by (metis div_mult_mod_eq)
  moreover have "(v - 0x10000) div 1024 < 1024" "(w - 0x10000) div 1024 < 1024"
    using assms(1,2) by (auto simp: is_scalar_def less_mult_imp_div_less)
  ultimately show ?thesis
    using assms unfolding utf16_units_def is_scalar_def by (auto split: if_splits)
qed

lemma utf16_concat_inject:
  "list_all is_scalar vs \<Longrightarrow> list_all is_scalar ws \<Longrightarrow>
   concat (map utf16_units vs) = concat (map utf16_units ws) \<Longrightarrow> vs = ws"
proof (induction vs arbitrary: ws)
  case Nil
  then show ?case by (cases ws) (auto simp: utf16_units_def split: if_splits)
next
  case (Cons v vs)
  show ?case
  proof (cases ws)
    case Nil
    with Cons.prems show ?thesis by (auto simp: utf16_units_def split: if_splits)
  next
    case (Cons w ws')
    with Cons.prems have "v = w \<and> concat (map utf16_units vs) = concat (map utf16_units ws')"
      by (intro utf16_units_inject) simp_all
    with Cons.IH Cons.prems Cons show ?thesis by simp
  qed
qed

lemma encode_utf16_inject:
  "utf8_ok s \<Longrightarrow> utf8_ok t \<Longrightarrow> encode_utf16 s = encode_utf16 t \<Longrightarrow> s = t"
  unfolding encode_utf16_def using utf8_chars_sound utf16_concat_inject by metis

lemma base64_split:
  "(v::nat) = v div 4096 * 4096 + v div 64 mod 64 * 64 + v mod 64"
  "v = v div 262144 * 262144 + v div 4096 mod 64 * 4096 + v div 64 mod 64 * 64 + v mod 64"
proof -
  have "v div 4096 = v div 64 div 64" "v div 262144 = v div 4096 div 64" by (simp_all flip: div_mult2_eq)
  moreover have "v = v div 64 * 64 + v mod 64" "v div 64 = v div 64 div 64 * 64 + v div 64 mod 64"
    "v div 4096 = v div 4096 div 64 * 64 + v div 4096 mod 64" by simp_all
  ultimately show "v = v div 4096 * 4096 + v div 64 mod 64 * 64 + v mod 64"
    "v = v div 262144 * 262144 + v div 4096 mod 64 * 4096 + v div 64 mod 64 * 64 + v mod 64"
    by linarith+
qed

text \<open>\<^verbatim>\<open>String::push\<close> of a scalar value appends well-formed bytes.\<close>

lemma utf8_ok_encode:
  assumes "is_scalar v"
  shows "utf8_ok (utf8_encode v)"
proof -
  have k: "utf8_width s = length s \<Longrightarrow> s \<noteq> [] \<Longrightarrow> utf8_ok s" for s
    using utf8_ok_step [of s] by simp
  consider "v < 0x80" | "0x80 \<le> v" "v < 0x800" | "0x800 \<le> v" "v < 0x10000" | "0x10000 \<le> v" by linarith
  then show ?thesis
  proof cases
    case 1
    then show ?thesis by (simp add: utf8_encode_def)
  next
    case 2
    then have "2 \<le> v div 64" "v div 64 < 32" by (auto simp: less_mult_imp_div_less)
    with 2 show ?thesis
      by (intro k) (simp_all add: utf8_encode_def utf8_width.simps lead_width_def second_ok_def
          is_continuation_char_of)
  next
    case 3
    define x y z where "x = v div 4096" and "y = v div 64 mod 64" and "z = v mod 64"
    have v: "v = x * 4096 + y * 64 + z"
      using base64_split [of v] by (simp add: x_def y_def z_def)
    have "y < 64" "z < 64" "x < 16" using 3 by (simp_all add: x_def y_def z_def less_mult_imp_div_less)
    moreover have "x = 0 \<Longrightarrow> 32 \<le> y" "x = 13 \<Longrightarrow> y \<le> 31"
      using 3 assms v \<open>z < 64\<close> \<open>y < 64\<close> unfolding is_scalar_def by linarith+
    ultimately have "utf8_width [char_of (0xE0 + x), char_of (0x80 + y), char_of (0x80 + z)] = 3"
      by (simp add: utf8_width.simps lead_width_def second_ok_def is_continuation_def)
    then show ?thesis
      using 3 by (intro k) (simp_all add: utf8_encode_def x_def y_def z_def)
  next
    case 4
    define x y z u where "x = v div 262144" and "y = v div 4096 mod 64" and "z = v div 64 mod 64" and "u = v mod 64"
    have v: "v = x * 262144 + y * 4096 + z * 64 + u"
      using base64_split [of v] by (simp add: x_def y_def z_def u_def)
    have "y < 64" "z < 64" "u < 64" by (simp_all add: y_def z_def u_def)
    moreover have "x < 5" "x = 0 \<Longrightarrow> 16 \<le> y" "x = 4 \<Longrightarrow> y \<le> 15"
      using 4 assms v \<open>z < 64\<close> \<open>y < 64\<close> \<open>u < 64\<close> unfolding is_scalar_def by linarith+
    ultimately have "utf8_width [char_of (0xF0 + x), char_of (0x80 + y), char_of (0x80 + z), char_of (0x80 + u)] = 4"
      by (simp add: utf8_width.simps lead_width_def second_ok_def is_continuation_def)
    then show ?thesis
      using 4 by (intro k) (simp_all add: utf8_encode_def x_def y_def z_def u_def)
  qed
qed

end
