(* ===== verification/Json_Value.thy ===== *)
theory Json_Value
  imports Proto_Base Rust_F64 Rust_Utf8
begin

text \<open>
  The JSON values of \<^verbatim>\<open>dwk-proto/src/json/value.rs\<close> and the canonical writer of \<^verbatim>\<open>json/jcs.rs\<close> with the
  number layout of \<^verbatim>\<open>json/number.rs\<close>. A \<^verbatim>\<open>String\<close> is its UTF-8 bytes; the characters the writer
  treats specially are ASCII, so it escapes byte by byte.
\<close>

section \<open>Values\<close>

datatype Number = NInt int | NFloat f64

datatype Value = JNull | JBool bool | JNumber Number | JString string | JArray "Value list"
  | JObject "(string \<times> Value) list"

type_synonym Object = "(string \<times> Value) list"

fun type_name :: "Value \<Rightarrow> string" where
  "type_name JNull = ''null''"
| "type_name (JBool _) = ''boolean''"
| "type_name (JNumber (NInt _)) = ''integer''"
| "type_name (JNumber (NFloat _)) = ''number''"
| "type_name (JString _) = ''string''"
| "type_name (JArray _) = ''array''"
| "type_name (JObject _) = ''object''"

definition Number_from_f64 :: "f64 \<Rightarrow> Number option" where
  "Number_from_f64 x =
     (if \<not> f64_is_finite x then None
      else if f64_num x mod f64_den x = 0 \<and> f64_num x div f64_den x \<le> 9007199254740991
      then Some (NInt (if f64_negative x then - int (f64_num x div f64_den x) else int (f64_num x div f64_den x)))
      else Some (NFloat x))"

definition Number_from_i64 :: "int \<Rightarrow> Number option" where
  "Number_from_i64 i = (if \<bar>i\<bar> \<le> MAX_SAFE_INTEGER then Some (NInt i) else None)"

definition Object_new :: Object where "Object_new = []"

definition Object_get :: "string \<Rightarrow> Object \<Rightarrow> Value option" where
  "Object_get key self = map_option snd (find (\<lambda>(k, _). k = key) self)"

definition Object_insert :: "string \<Rightarrow> Value \<Rightarrow> Object \<Rightarrow> (Object, ProtocolError) result" where
  "Object_insert key v self =
     (if list_ex (\<lambda>(existing, _). existing = key) self then Err (ProtocolError_new DuplicateKey)
      else Ok (self @ [(key, v)]))"

fun Object_remove :: "string \<Rightarrow> Object \<Rightarrow> Value option \<times> Object" where
  "Object_remove key [] = (None, [])"
| "Object_remove key ((k, v) # self) =
     (if k = key then (Some v, self)
      else case Object_remove key self of (r, rest) \<Rightarrow> (r, (k, v) # rest))"

text \<open>
  \<^verbatim>\<open>PartialEq\<close>: structural, except that objects are compared without regard to member order. Two
  floats are equal as IEEE numbers; the values here are never NaN, and \<^verbatim>\<open>-0\<close> is \<^verbatim>\<open>Int(0)\<close>.
\<close>

fun Value_eq :: "Value \<Rightarrow> Value \<Rightarrow> bool" where
  "Value_eq JNull JNull = True"
| "Value_eq (JBool a) (JBool b) = (a = b)"
| "Value_eq (JNumber a) (JNumber b) = (a = b)"
| "Value_eq (JString a) (JString b) = (a = b)"
| "Value_eq (JArray xs) (JArray ys) = list_all2 Value_eq xs ys"
| "Value_eq (JObject xs) (JObject ys) =
     (length xs = length ys \<and>
      list_all (\<lambda>(k, v). case Object_get k ys of None \<Rightarrow> False | Some w \<Rightarrow> Value_eq v w) xs)"
| "Value_eq _ _ = False"

section \<open>Numbers\<close>

fun strip_zeros :: "nat \<Rightarrow> string \<Rightarrow> string" where
  "strip_zeros 0 digits = digits"
| "strip_zeros (Suc n) digits =
     (if 1 < length digits \<and> last digits = CHR ''0'' then strip_zeros n (butlast digits) else digits)"

definition split_scientific :: "string \<Rightarrow> (string \<times> int) option" where
  "split_scientific sci =
     (case split_once CHR ''e'' sci of
        None \<Rightarrow> None
      | Some (mantissa, exponent) \<Rightarrow>
          let neg = starts_with exponent ''-'';
              magnitude = int (nat_of_digits (if neg then tl exponent else exponent));
              digits = filter is_ascii_digit mantissa
          in Some (strip_zeros (length digits) digits, if neg then - magnitude else magnitude))"

definition es_layout :: "bool \<Rightarrow> string \<Rightarrow> int \<Rightarrow> string" where
  "es_layout neg digits exponent =
     (let k = int (length digits); n = exponent + 1
      in (if neg then ''-'' else []) @
         (if k \<le> n \<and> n \<le> 21 then digits @ replicate (nat (n - k)) (CHR ''0'')
          else if 0 < n \<and> n \<le> 21 then take (nat n) digits @ ''.'' @ drop (nat n) digits
          else if -6 < n \<and> n \<le> 0 then ''0.'' @ replicate (nat (- n)) (CHR ''0'') @ digits
          else take 1 digits @ (if drop 1 digits = [] then [] else CHR ''.'' # drop 1 digits) @ ''e'' @
               (if n - 1 < 0 then ''-'' else ''+'') @ show_nat (nat \<bar>n - 1\<bar>)))"

definition format_es :: "f64 \<Rightarrow> string option" where
  "format_es x =
     (if \<not> f64_is_finite x then None
      else if f64_mant x = 0 then Some ''0''
      else let magnitude = f64_abs x in
        (case split_scientific (format_sci magnitude) of
           None \<Rightarrow> None
         | Some (shortest_digits, shortest_exponent) \<Rightarrow>
             let precision = length shortest_digits - 1;
                 tie_even = format_sci_prec precision magnitude
             in if f64_parse tie_even = magnitude
                then map_option (\<lambda>(digits, exponent). es_layout (f64_negative x) digits exponent)
                       (split_scientific tie_even)
                else Some (es_layout (f64_negative x) shortest_digits shortest_exponent)))"

section \<open>The canonical writer\<close>

definition show_i64 :: "int \<Rightarrow> string" where
  "show_i64 i = (if i < 0 then CHR ''-'' # show_nat (nat (- i)) else show_nat (nat i))"

definition hex_digit :: "nat \<Rightarrow> char" where
  "hex_digit d = (if d < 10 then char_of (48 + d) else char_of (87 + d))"

definition write_char :: "char \<Rightarrow> string" where
  "write_char c =
     (if c = CHR 0x22 then [CHR 0x5C, CHR 0x22]
      else if c = CHR 0x5C then [CHR 0x5C, CHR 0x5C]
      else if byte_of c = 8 then [CHR 0x5C, CHR ''b'']
      else if byte_of c = 9 then [CHR 0x5C, CHR ''t'']
      else if byte_of c = 10 then [CHR 0x5C, CHR ''n'']
      else if byte_of c = 12 then [CHR 0x5C, CHR ''f'']
      else if byte_of c = 13 then [CHR 0x5C, CHR ''r'']
      else if byte_of c < 0x20 then
        [CHR 0x5C, CHR ''u'', CHR ''0'', CHR ''0'', hex_digit (byte_of c div 16), hex_digit (byte_of c mod 16)]
      else [c])"

definition write_string :: "string \<Rightarrow> string" where
  "write_string s = CHR 0x22 # concat (map write_char s) @ [CHR 0x22]"

definition utf16_key :: "string \<Rightarrow> okey" where
  "utf16_key s = key_vec KN (encode_utf16 s)"

definition utf16_cmp_le :: "string \<Rightarrow> string \<Rightarrow> bool" where
  "utf16_cmp_le a b \<longleftrightarrow> utf16_key a \<le> utf16_key b"

fun write_value :: "Value \<Rightarrow> string" where
  "write_value JNull = ''null''"
| "write_value (JBool b) = (if b then ''true'' else ''false'')"
| "write_value (JNumber (NInt i)) = show_i64 i"
| "write_value (JNumber (NFloat f)) = (case format_es f of Some t \<Rightarrow> t | None \<Rightarrow> [])"
| "write_value (JString s) = write_string s"
| "write_value (JArray items) = ''['' @ join_on CHR '','' (map write_value items) @ '']''"
| "write_value (JObject members) =
     ''{'' @ join_on CHR '',''
       (map (\<lambda>(key, v). write_string key @ '':'' @ write_value v)
         (sort_key (\<lambda>(key, _). utf16_key key) members)) @ ''}''"

definition to_canonical_bytes :: "Value \<Rightarrow> string" where
  "to_canonical_bytes v = write_value v"

end
