(* ===== verification/Json_Lex.thy ===== *)
theory Json_Lex
  imports Json_Value
begin

text \<open>
  The strict JSON reader of \<^verbatim>\<open>dwk-proto/src/json/lex.rs\<close>. The parser's state is the offset, the bytes
  from it on (\<^verbatim>\<open>bytes[pos..]\<close>), the number profile and the path of keys and indices that errors
  report. The loops over members and items take the reader of a nested value as an argument; the
  nesting limit is the measure of the recursion through it. A loop goes on only when the nested value
  consumed input: \<^emph>\<open>Json_Laws\<close> shows that it always does.
\<close>

datatype NumberDomain = SafeInteger | IJson

datatype Segment = Key string | Index nat

record Parser =
  p_pos :: nat
  p_rest :: string
  p_numbers :: NumberDomain
  p_path :: "Segment list"

type_synonym 'a parsed = "('a \<times> Parser, ProtocolError) result"

definition peek :: "Parser \<Rightarrow> char option" where
  "peek self = (case p_rest self of [] \<Rightarrow> None | c # _ \<Rightarrow> Some c)"

definition advance :: "nat \<Rightarrow> Parser \<Rightarrow> Parser" where
  "advance n self = self\<lparr>p_pos := p_pos self + n, p_rest := drop n (p_rest self)\<rparr>"

abbreviation bump :: "Parser \<Rightarrow> Parser" where
  "bump \<equiv> advance 1"

definition is_ws :: "char \<Rightarrow> bool" where
  "is_ws c \<longleftrightarrow> byte_of c \<in> {32, 9, 10, 13}"

definition skip_ws :: "Parser \<Rightarrow> Parser" where
  "skip_ws self = advance (length (takeWhile is_ws (p_rest self))) self"

definition pointer_escape :: "char \<Rightarrow> string" where
  "pointer_escape c = (if c = CHR ''~'' then ''~0'' else if c = CHR ''/'' then ''~1'' else [c])"

definition segment_text :: "Segment \<Rightarrow> string" where
  "segment_text s = (case s of Key k \<Rightarrow> concat (map pointer_escape k) | Index i \<Rightarrow> show_nat i)"

definition pointer :: "Parser \<Rightarrow> string" where
  "pointer self = concat (map (\<lambda>s. CHR ''/'' # segment_text s) (p_path self))"

definition error_at :: "Parser \<Rightarrow> ErrorCode \<Rightarrow> ProtocolError" where
  "error_at self code = with_path (pointer self) (at_offset (p_pos self) (ProtocolError_new code))"

abbreviation invalid :: "Parser \<Rightarrow> ProtocolError" where
  "invalid self \<equiv> error_at self InvalidJson"

definition push_path :: "Segment \<Rightarrow> Parser \<Rightarrow> Parser" where
  "push_path s self = self\<lparr>p_path := p_path self @ [s]\<rparr>"

definition pop_path :: "Parser \<Rightarrow> Parser" where
  "pop_path self = self\<lparr>p_path := butlast (p_path self)\<rparr>"

definition expect :: "char \<Rightarrow> Parser \<Rightarrow> unit parsed" where
  "expect byte self = (if peek self = Some byte then Ok ((), bump self) else Err (invalid self))"

definition literal :: "string \<Rightarrow> Value \<Rightarrow> Parser \<Rightarrow> Value parsed" where
  "literal word v self =
     (if take (length word) (p_rest self) = word then Ok (v, advance (length word) self)
      else Err (invalid self))"

section \<open>Strings\<close>

definition hex_value :: "char \<Rightarrow> nat option" where
  "hex_value c =
     (if is_ascii_digit c then Some (byte_of c - 48)
      else if 97 \<le> byte_of c \<and> byte_of c \<le> 102 then Some (byte_of c - 87)
      else if 65 \<le> byte_of c \<and> byte_of c \<le> 70 then Some (byte_of c - 55)
      else None)"

fun hex_loop :: "nat \<Rightarrow> nat \<Rightarrow> Parser \<Rightarrow> nat parsed" where
  "hex_loop 0 v self = Ok (v, self)"
| "hex_loop (Suc n) v self =
     (case Option.bind (peek self) hex_value of
        None \<Rightarrow> Err (invalid self)
      | Some digit \<Rightarrow> hex_loop n (v * 16 + digit) (bump self))"

abbreviation hex4 :: "Parser \<Rightarrow> nat parsed" where
  "hex4 \<equiv> hex_loop 4 0"

definition unicode_escape :: "Parser \<Rightarrow> nat parsed" where
  "unicode_escape self =
     and_then (hex4 self) (\<lambda>(first, self).
       if 0xD800 \<le> first \<and> first \<le> 0xDBFF then
         if peek self \<noteq> Some (CHR 0x5C) then Err (invalid self)
         else let self = bump self in
           if peek self \<noteq> Some (CHR ''u'') then Err (invalid self)
           else and_then (hex4 (bump self)) (\<lambda>(second, self).
             if \<not> (0xDC00 \<le> second \<and> second \<le> 0xDFFF) then Err (invalid self)
             else let scalar = 0x10000 + (first - 0xD800) * 1024 + (second - 0xDC00)
                  in and_then (ok_or (char_from_u32 scalar) (invalid self)) (\<lambda>c. Ok (c, self)))
       else if 0xDC00 \<le> first \<and> first \<le> 0xDFFF then Err (invalid self)
       else and_then (ok_or (char_from_u32 first) (invalid self)) (\<lambda>c. Ok (c, self)))"

definition escape :: "Parser \<Rightarrow> string \<Rightarrow> string parsed" where
  "escape self out =
     (case peek self of
        None \<Rightarrow> Err (invalid self)
      | Some b \<Rightarrow>
          let self = bump self in
          and_then
            (if b = CHR 0x22 then Ok (0x22, self)
             else if b = CHR 0x5C then Ok (0x5C, self)
             else if b = CHR ''/'' then Ok (0x2F, self)
             else if b = CHR ''b'' then Ok (8, self)
             else if b = CHR ''f'' then Ok (12, self)
             else if b = CHR ''n'' then Ok (10, self)
             else if b = CHR ''r'' then Ok (13, self)
             else if b = CHR ''t'' then Ok (9, self)
             else if b = CHR ''u'' then unicode_escape self
             else Err (invalid self))
            (\<lambda>(c, self). Ok (out @ utf8_encode c, self)))"

definition is_plain :: "char \<Rightarrow> bool" where
  "is_plain b \<longleftrightarrow> b \<noteq> CHR 0x22 \<and> b \<noteq> CHR 0x5C \<and> \<not> byte_of b < 0x20"

lemma hex_loop_shorter: "hex_loop n v self = Ok (r, self') \<Longrightarrow> length (p_rest self') \<le> length (p_rest self)"
proof (induction n arbitrary: v self)
  case (Suc n)
  then have "length (p_rest self') \<le> length (p_rest (bump self))"
    by (auto split: option.splits)
  then show ?case by (simp add: advance_def)
qed simp

lemma unicode_escape_shorter:
  "unicode_escape self = Ok (r, self') \<Longrightarrow> length (p_rest self') \<le> length (p_rest self)"
  unfolding unicode_escape_def
  by (auto simp: and_then_Ok_iff Let_def advance_def split: if_splits dest!: hex_loop_shorter)

lemma escape_shorter:
  "escape self out = Ok (r, self') \<Longrightarrow> length (p_rest self') < length (p_rest self)"
  unfolding escape_def
  by (auto simp: and_then_Ok_iff Let_def advance_def peek_def
      split: option.splits if_splits list.splits dest!: unicode_escape_shorter)

function string_loop :: "Parser \<Rightarrow> string \<Rightarrow> string parsed" where
  "string_loop self out =
     (let run = takeWhile is_plain (p_rest self);
          self1 = advance (length run) self;
          out = out @ run
      in case peek self1 of
           Some b \<Rightarrow>
             if b = CHR 0x22 then Ok (out, bump self1)
             else if b = CHR 0x5C then
               (case escape (bump self1) out of Inl e \<Rightarrow> Inl e | Inr (out, self2) \<Rightarrow> string_loop self2 out)
             else Err (invalid self1)
         | None \<Rightarrow> Err (invalid self1))"
  by auto
termination
  by (relation "measure (\<lambda>(self, out). length (p_rest self))") (auto simp: advance_def dest!: escape_shorter)

declare string_loop.simps [simp del]

definition parse_string :: "Parser \<Rightarrow> string parsed" where
  "parse_string self = string_loop (bump self) []"

section \<open>Numbers\<close>

definition digits :: "Parser \<Rightarrow> nat \<times> Parser" where
  "digits self = (let n = length (takeWhile is_ascii_digit (p_rest self)) in (n, advance n self))"

fun safe_integer_loop :: "string \<Rightarrow> int \<Rightarrow> int option" where
  "safe_integer_loop [] v = Some v"
| "safe_integer_loop (b # bs) v =
     (let v = v * 10 + int (digit_value b)
      in if MAX_SAFE_INTEGER < v then None else safe_integer_loop bs v)"

definition safe_integer :: "string \<Rightarrow> bool \<Rightarrow> int option" where
  "safe_integer ds negative = map_option (\<lambda>v. if negative then - v else v) (safe_integer_loop ds 0)"

definition fraction_part :: "Parser \<Rightarrow> bool parsed" where
  "fraction_part self =
     (if peek self = Some (CHR ''.'') then
        (case digits (bump self) of (n, self) \<Rightarrow> if n = 0 then Err (invalid self) else Ok (False, self))
      else Ok (True, self))"

definition exponent_part :: "bool \<Rightarrow> Parser \<Rightarrow> bool parsed" where
  "exponent_part integral self =
     (if peek self = Some (CHR ''e'') \<or> peek self = Some (CHR ''E'') then
        (let self = bump self;
             self = (if peek self = Some (CHR ''+'') \<or> peek self = Some (CHR ''-'') then bump self else self)
         in case digits self of (n, self) \<Rightarrow> if n = 0 then Err (invalid self) else Ok (False, self))
      else Ok (integral, self))"

definition integer_part :: "Parser \<Rightarrow> unit parsed" where
  "integer_part self =
     (case peek self of
        Some b \<Rightarrow>
          if b = CHR ''0'' then
            (let self = bump self in
             case peek self of
               Some d \<Rightarrow> if is_ascii_digit d then Err (invalid self) else Ok ((), self)
             | None \<Rightarrow> Ok ((), self))
          else if is_ascii_digit b then Ok ((), snd (digits self))
          else Err (invalid self)
      | None \<Rightarrow> Err (invalid self))"

definition number :: "Parser \<Rightarrow> Number parsed" where
  "number self =
     (let start = self;
          negative = (peek self = Some (CHR ''-''));
          int_start = (if negative then bump self else self)
      in and_then (integer_part int_start) (\<lambda>(_, int_end).
         and_then (fraction_part int_end) (\<lambda>(integral, self).
         and_then (exponent_part integral self) (\<lambda>(integral, self).
           let lexeme = take (p_pos self - p_pos start) (p_rest start);
               ds = take (p_pos int_end - p_pos int_start) (p_rest int_start)
           in case (if integral then safe_integer ds negative else None) of
                Some i \<Rightarrow> Ok (NInt i, self)
              | None \<Rightarrow>
                  (case p_numbers self of
                     SafeInteger \<Rightarrow> Err (at_offset (p_pos start) (error_at self NumberOutOfDomain))
                   | IJson \<Rightarrow>
                       and_then (ok_or (Number_from_f64 (f64_parse lexeme))
                           (at_offset (p_pos start) (error_at self NumberOutOfDomain)))
                         (\<lambda>n. Ok (n, self)))))))"

section \<open>Values\<close>

definition enter :: "nat \<Rightarrow> Parser \<Rightarrow> (nat, ProtocolError) result" where
  "enter depth self = (if MAX_DEPTH < depth + 1 then Err (error_at self MaxDepthExceeded) else Ok (depth + 1))"

function object_loop :: "(Parser \<Rightarrow> Value parsed) \<Rightarrow> Object \<Rightarrow> Parser \<Rightarrow> Value parsed" where
  "object_loop val members self0 =
     (let self = skip_ws self0 in
      if peek self \<noteq> Some (CHR 0x22) then Err (invalid self)
      else let key_offset = p_pos self in
        and_then (parse_string self) (\<lambda>(key, self).
          if list_ex (\<lambda>(k, _). k = key) members
          then Err (at_offset key_offset (error_at (push_path (Key key) self) DuplicateKey))
          else and_then (expect CHR '':'' (skip_ws self)) (\<lambda>(_, self).
            and_then (val (push_path (Key key) (skip_ws self))) (\<lambda>(v, self).
              let members = members @ [(key, v)];
                  self = skip_ws (pop_path self)
              in if peek self = Some (CHR '','') \<and> length (p_rest self) < length (p_rest self0)
                 then object_loop val members (bump self)
                 else if peek self = Some (CHR ''}'') then Ok (JObject members, bump self)
                 else Err (invalid self)))))"
  by auto
termination
  by (relation "measure (\<lambda>(val, members, self). length (p_rest self))") (auto simp: advance_def)

function array_loop :: "(Parser \<Rightarrow> Value parsed) \<Rightarrow> Value list \<Rightarrow> Parser \<Rightarrow> Value parsed" where
  "array_loop val items self0 =
     and_then (val (push_path (Index (length items)) (skip_ws self0))) (\<lambda>(item, self).
       let items = items @ [item];
           self = skip_ws (pop_path self)
       in if peek self = Some (CHR '','') \<and> length (p_rest self) < length (p_rest self0)
          then array_loop val items (bump self)
          else if peek self = Some (CHR '']'') then Ok (JArray items, bump self)
          else Err (invalid self))"
  by auto
termination
  by (relation "measure (\<lambda>(val, items, self). length (p_rest self))") (auto simp: advance_def)

declare object_loop.simps [simp del] array_loop.simps [simp del]

text \<open>\<^verbatim>\<open>object\<close> and \<^verbatim>\<open>array\<close> after \<^verbatim>\<open>enter\<close>, given the reader of the values one level down.\<close>

definition object_body :: "(Parser \<Rightarrow> Value parsed) \<Rightarrow> Parser \<Rightarrow> Value parsed" where
  "object_body val self =
     (let self = skip_ws (bump self) in
      if peek self = Some (CHR ''}'') then Ok (JObject [], bump self) else object_loop val [] self)"

definition array_body :: "(Parser \<Rightarrow> Value parsed) \<Rightarrow> Parser \<Rightarrow> Value parsed" where
  "array_body val self =
     (let self = skip_ws (bump self) in
      if peek self = Some (CHR '']'') then Ok (JArray [], bump self) else array_loop val [] self)"

function parse_value :: "nat \<Rightarrow> Parser \<Rightarrow> Value parsed" where
  "parse_value depth self =
     (case peek self of
        None \<Rightarrow> Err (invalid self)
      | Some b \<Rightarrow>
          if b = CHR ''{'' then
            (case enter depth self of Inl e \<Rightarrow> Inl e | Inr deeper \<Rightarrow> object_body (parse_value deeper) self)
          else if b = CHR ''['' then
            (case enter depth self of Inl e \<Rightarrow> Inl e | Inr deeper \<Rightarrow> array_body (parse_value deeper) self)
          else if b = CHR 0x22 then and_then (parse_string self) (\<lambda>(s, self). Ok (JString s, self))
          else if b = CHR ''t'' then literal ''true'' (JBool True) self
          else if b = CHR ''f'' then literal ''false'' (JBool False) self
          else if b = CHR ''n'' then literal ''null'' JNull self
          else if b = CHR ''-'' \<or> is_ascii_digit b then and_then (number self) (\<lambda>(n, self). Ok (JNumber n, self))
          else Err (invalid self))"
  by auto
termination
  by (relation "measure (\<lambda>(depth, self). MAX_DEPTH - depth)") (auto simp: enter_def split: if_splits)

declare parse_value.simps [simp del]

definition parse_json :: "string \<Rightarrow> NumberDomain \<Rightarrow> (Value, ProtocolError) result" where
  "parse_json input numbers =
     (if \<not> utf8_ok input then Err (at_offset (utf8_valid_up_to input) (ProtocolError_new InvalidUtf8))
      else let parser = skip_ws \<lparr>p_pos = 0, p_rest = input, p_numbers = numbers, p_path = []\<rparr> in
        if p_rest parser = [] then Err (invalid parser)
        else and_then (parse_value 0 parser) (\<lambda>(v, parser).
          let parser = skip_ws parser in
          if p_rest parser \<noteq> [] then Err (invalid parser) else Ok v))"

end
