(* ===== verification/Json_Round.thy ===== *)
theory Json_Round
  imports Json_Lex
begin

text \<open>
  The reader inverts the canonical writer: on the canonical text of a value without floats the reader
  returns the value with its object members in canonical order, and consumes exactly the text.
\<close>

section \<open>Well-formed values\<close>

fun wf_number :: "Number \<Rightarrow> bool" where
  "wf_number (NInt i) = (\<bar>i\<bar> \<le> MAX_SAFE_INTEGER)"
| "wf_number (NFloat x) = (Number_from_f64 x = Some (NFloat x))"

fun wf_value :: "Value \<Rightarrow> bool" where
  "wf_value JNull = True"
| "wf_value (JBool b) = True"
| "wf_value (JNumber n) = wf_number n"
| "wf_value (JString s) = utf8_ok s"
| "wf_value (JArray xs) = (\<forall>x\<in>set xs. wf_value x)"
| "wf_value (JObject ms) = (distinct (map fst ms) \<and> (\<forall>(k, v)\<in>set ms. utf8_ok k \<and> wf_value v))"

fun no_floats :: "Value \<Rightarrow> bool" where
  "no_floats (JNumber (NFloat x)) = False"
| "no_floats (JArray xs) = (\<forall>x\<in>set xs. no_floats x)"
| "no_floats (JObject ms) = (\<forall>(k, v)\<in>set ms. no_floats v)"
| "no_floats _ = True"

fun nesting :: "Value \<Rightarrow> nat" where
  "nesting (JArray xs) = Suc (foldr max (map nesting xs) 0)"
| "nesting (JObject ms) = Suc (foldr max (map (\<lambda>(k, v). nesting v) ms) 0)"
| "nesting _ = 0"

fun normal :: "Value \<Rightarrow> Value" where
  "normal (JArray xs) = JArray (map normal xs)"
| "normal (JObject ms) = JObject (map (\<lambda>(k, v). (k, normal v)) (sort_key (\<lambda>(key, _). utf16_key key) ms))"
| "normal v = v"

lemma foldr_max_le: "foldr max ns 0 \<le> (m::nat) \<longleftrightarrow> (\<forall>n\<in>set ns. n \<le> m)"
  by (induction ns) auto

section \<open>The parser's state\<close>

named_theorems parser_simps \<open>rewriting facts about the parser's state\<close>

lemma advance_advance [parser_simps]: "advance m (advance n p) = advance (n + m) p"
  by (simp add: advance_def add.commute)

lemma p_rest_advance [parser_simps]: "p_rest (advance n p) = drop n (p_rest p)"
  by (simp add: advance_def)

lemma p_pos_advance [parser_simps]: "p_pos (advance n p) = p_pos p + n"
  by (simp add: advance_def)

lemma p_numbers_advance [parser_simps]: "p_numbers (advance n p) = p_numbers p"
  by (simp add: advance_def)

lemma advance_0 [parser_simps]: "advance 0 p = p"
  by (simp add: advance_def)

lemma push_path_rest [parser_simps]:
  "p_rest (push_path s p) = p_rest p" "p_pos (push_path s p) = p_pos p" "p_numbers (push_path s p) = p_numbers p"
  by (simp_all add: push_path_def)

lemma pop_advance_push [parser_simps]: "pop_path (advance n (push_path s p)) = advance n p"
  by (simp add: pop_path_def push_path_def advance_def)

lemma push_advance [parser_simps]: "push_path s (advance n p) = advance n (push_path s p)"
  by (simp add: push_path_def advance_def)

lemma peek_Cons [parser_simps]: "p_rest p = c # t \<Longrightarrow> peek p = Some c"
  by (simp add: peek_def)

lemma skip_ws_none: "p_rest p = c # t \<Longrightarrow> \<not> is_ws c \<Longrightarrow> skip_ws p = p"
  by (simp add: skip_ws_def advance_0)

section \<open>Strings\<close>

lemma hex_value_digit: "d < 16 \<Longrightarrow> hex_value (hex_digit d) = Some d"
  by (auto simp: hex_value_def hex_digit_def is_ascii_digit_def)

lemma is_plain_iff: "is_plain c \<longleftrightarrow> write_char c = [c]"
  by (auto simp: is_plain_def write_char_def)

lemma char_constants:
  "char_of (34::nat) = CHR 0x22" "char_of (92::nat) = CHR 0x5C" "char_of (8::nat) = CHR 0x08"
  "char_of (9::nat) = CHR 0x09" "char_of (10::nat) = CHR 0x0A" "char_of (12::nat) = CHR 0x0C"
  "char_of (13::nat) = CHR 0x0D"
  by code_simp+

lemma suc_numerals: "Suc (Suc (Suc (Suc 0))) = 4" "Suc (Suc (Suc (Suc (Suc 0)))) = 5"
  by simp_all

lemma hex4_read:
  assumes "p_rest p = a # b # c # d # t" "hex_value a = Some i" "hex_value b = Some j" "hex_value c = Some k"
    "hex_value d = Some l"
  shows "hex4 p = Ok (((i * 16 + j) * 16 + k) * 16 + l, advance 4 p)"
proof -
  have four: "(4::nat) = Suc (Suc (Suc (Suc 0)))" by simp
  have d: "drop 2 (p_rest p) = c # d # t" "drop 3 (p_rest p) = d # t"
    using assms(1) by (simp_all add: numeral_eq_Suc)
  have "hex_loop (Suc (Suc (Suc (Suc 0)))) 0 p = Ok (((i * 16 + j) * 16 + k) * 16 + l, advance (Suc (Suc (Suc (Suc 0)))) p)"
    using assms d by (simp add: peek_def parser_simps)
  then show ?thesis by (simp only: four)
qed

lemma write_char_escaped:
  assumes "\<not> is_plain c"
  obtains e where "write_char c = CHR 0x5C # e"
    and "\<And>p t out. p_rest p = e @ t \<Longrightarrow> escape p out = Ok (out @ [c], advance (length e) p)"
proof -
  have c: "char_of (byte_of c) = c" by simp
  show thesis
  proof (cases "c \<in> {CHR 0x22, CHR 0x5C, CHR 0x08, CHR 0x09, CHR 0x0A, CHR 0x0C, CHR 0x0D}")
    case True
    then consider "c = CHR 0x22" | "c = CHR 0x5C" | "c = CHR 0x08" | "c = CHR 0x09" | "c = CHR 0x0A"
      | "c = CHR 0x0C" | "c = CHR 0x0D" by auto
    then show thesis
      by cases (rule that [of "drop 1 (write_char c)"],
        simp_all add: write_char_def escape_def peek_def utf8_encode_def char_constants)+
  next
    case False
    then have b: "byte_of c < 32" "byte_of c \<notin> {8, 9, 10, 12, 13}"
      using assms c char_constants by (auto simp: is_plain_def simp del: char_of_char)
    let ?e = "[CHR ''u'', CHR ''0'', CHR ''0'', hex_digit (byte_of c div 16), hex_digit (byte_of c mod 16)]"
    have h: "hex_value (hex_digit (byte_of c div 16)) = Some (byte_of c div 16)"
      "hex_value (hex_digit (byte_of c mod 16)) = Some (byte_of c mod 16)"
      "hex_value CHR ''0'' = Some 0"
      using b by (simp_all add: hex_value_digit) (simp add: hex_value_def is_ascii_digit_def)
    have "escape p out = Ok (out @ [c], advance (length ?e) p)" if "p_rest p = ?e @ t" for p t out
      using that b c hex4_read [OF _ h(3,3,1,2), of "bump p"]
      by (simp add: escape_def unicode_escape_def peek_def parser_simps char_from_u32_def utf8_encode_def
          suc_numerals)
    then show thesis
      using False b by (intro that [of ?e]) (simp_all add: write_char_def)
  qed
qed

lemma string_loop_print:
  "p_rest p = concat (map write_char s) @ CHR 0x22 # t \<Longrightarrow>
   string_loop p out = Ok (out @ s, advance (length (concat (map write_char s)) + 1) p)"
proof (induction s arbitrary: p out rule: length_induct)
  case (1 s)
  define run where "run = takeWhile is_plain s"
  define u where "u = dropWhile is_plain s"
  have s: "s = run @ u" by (simp add: run_def u_def)
  have "concat (map write_char run) = run"
    unfolding run_def by (induction s) (auto simp: is_plain_iff)
  then have w: "concat (map write_char s) = run @ concat (map write_char u)" by (simp add: s)
  have plain: "\<And>c. c \<in> set run \<Longrightarrow> is_plain c"
    unfolding run_def by (blast dest: set_takeWhileD)
  show ?case
  proof (cases u)
    case Nil
    have "takeWhile is_plain (p_rest p) = run"
      using 1(2) w Nil plain by (simp add: takeWhile_append is_plain_def)
    with 1(2) w Nil s show ?thesis
      by (subst string_loop.simps) (simp add: Let_def peek_def parser_simps)
  next
    case (Cons c u')
    then have c: "\<not> is_plain c" using hd_dropWhile [of is_plain s] by (simp add: u_def)
    from c obtain e where e: "write_char c = CHR 0x5C # e"
      and esc: "\<And>p t out. p_rest p = e @ t \<Longrightarrow> escape p out = Ok (out @ [c], advance (length e) p)"
      by (rule write_char_escaped) blast
    have "takeWhile is_plain (p_rest p) = run"
      using 1(2) w Cons e plain by (simp add: takeWhile_append is_plain_def)
    moreover have "p_rest (advance (length run) p) = CHR 0x5C # e @ concat (map write_char u') @ CHR 0x22 # t"
      using 1(2) w Cons e by (simp add: parser_simps)
    moreover from this have "p_rest (advance (length run + 1) p) = e @ concat (map write_char u') @ CHR 0x22 # t"
      by (simp add: parser_simps drop_Suc flip: tl_drop)
    moreover from this have "p_rest (advance (length run + 1 + length e) p) = concat (map write_char u') @ CHR 0x22 # t"
      using p_rest_advance [of "length e" "advance (length run + 1) p"] by (simp add: parser_simps)
    moreover have "length u' < length s" by (simp add: s Cons)
    ultimately show ?thesis
      using 1(1) [rule_format, of u' "advance (length run + 1 + length e) p" "out @ run @ [c]"] esc s w Cons e
      by (subst string_loop.simps) (simp add: Let_def peek_Cons parser_simps add.assoc)
  qed
qed

lemma parse_string_print:
  "p_rest p = write_string s @ t \<Longrightarrow> parse_string p = Ok (s, advance (length (write_string s)) p)"
  using string_loop_print [of "bump p" s t "[]"]
  by (simp add: parse_string_def write_string_def parser_simps)

section \<open>Numbers\<close>

text \<open>What may follow a value in a canonical text.\<close>

definition stops :: "string \<Rightarrow> bool" where
  "stops t \<longleftrightarrow> t = [] \<or> hd t \<in> {CHR '','', CHR '']'', CHR ''}''}"

lemma stops_peek:
  "stops (p_rest p) \<Longrightarrow> peek p \<noteq> Some (CHR ''.'') \<and> peek p \<noteq> Some (CHR ''e'') \<and> peek p \<noteq> Some (CHR ''E'')"
  by (auto simp: stops_def peek_def split: list.splits)

lemma nat_of_digits_append_le: "nat_of_digits s \<le> nat_of_digits (s @ ds)"
proof (induction ds rule: rev_induct)
  case (snoc d ds)
  then show ?case using nat_of_digits_snoc [of "s @ ds" d] by simp
qed simp

lemma safe_integer_loop_ok:
  "(\<And>c. c \<in> set ds \<Longrightarrow> is_ascii_digit c) \<Longrightarrow> int (nat_of_digits (pre @ ds)) \<le> MAX_SAFE_INTEGER \<Longrightarrow>
   safe_integer_loop ds (int (nat_of_digits pre)) = Some (int (nat_of_digits (pre @ ds)))"
proof (induction ds arbitrary: pre)
  case (Cons d ds)
  have "nat_of_digits (pre @ [d]) \<le> nat_of_digits ((pre @ [d]) @ ds)"
    by (rule nat_of_digits_append_le)
  with Cons.IH [of "pre @ [d]"] Cons.prems show ?case by (simp add: Let_def mult.commute)
qed simp

lemma safe_integer_show:
  "int n \<le> MAX_SAFE_INTEGER \<Longrightarrow> safe_integer (show_nat n) neg = Some (if neg then - int n else int n)"
  using safe_integer_loop_ok [of "show_nat n" "[]"] show_nat_digits
  by (simp add: safe_integer_def)

lemma integer_part_show:
  assumes "p_rest p = show_nat n @ t" "stops t"
  shows "integer_part p = Ok ((), advance (length (show_nat n)) p)"
proof -
  have t: "t = [] \<or> \<not> is_ascii_digit (hd t)"
    using assms(2) by (auto simp: stops_def is_ascii_digit_def)
  obtain c ds where s: "show_nat n = c # ds" using show_nat_nonempty by (cases "show_nat n") auto
  show ?thesis
  proof (cases "c = CHR ''0''")
    case True
    then have "n = 0" using hd_show_nat [of n] s by (cases "n = 0") auto
    then have "ds = []" using s by simp
    with True s t assms(1) show ?thesis
      by (cases t) (simp_all add: integer_part_def peek_def parser_simps)
  next
    case False
    have "is_ascii_digit c" using show_nat_digits [of c n] s by simp
    moreover have "takeWhile is_ascii_digit (show_nat n @ t) = show_nat n"
      using t show_nat_digits [of _ n] by (cases t) (auto simp: takeWhile_append)
    ultimately show ?thesis
      using False s assms(1) by (simp add: integer_part_def peek_def digits_def Let_def)
  qed
qed

lemma number_print:
  assumes "p_rest p = show_i64 i @ t" "stops t" "\<bar>i\<bar> \<le> MAX_SAFE_INTEGER"
  shows "number p = Ok (NInt i, advance (length (show_i64 i)) p)"
proof -
  let ?q = "if i < 0 then bump p else p"
  let ?n = "nat \<bar>i\<bar>"
  have q: "p_rest ?q = show_nat ?n @ t" "show_i64 i = (if i < 0 then ''-'' else []) @ show_nat ?n"
    using assms(1) by (auto simp: show_i64_def parser_simps)
  have neg: "peek p = Some (CHR ''-'') \<longleftrightarrow> i < 0"
    using assms(1) show_nat_digits [of "hd (show_nat ?n)" ?n] show_nat_nonempty [of ?n]
    by (cases "show_nat ?n") (auto simp: q(2) peek_def is_ascii_digit_def)
  let ?r = "advance (length (show_nat ?n)) ?q"
  have r: "p_rest ?r = t" using q by (simp add: parser_simps)
  have "fraction_part ?r = Ok (True, ?r)" "exponent_part True ?r = Ok (True, ?r)"
    using stops_peek [of ?r] assms(2) r by (simp_all add: fraction_part_def exponent_part_def)
  moreover have "take (p_pos ?r - p_pos ?q) (p_rest ?q) = show_nat ?n" using q(1) by (simp add: parser_simps)
  moreover have "safe_integer (show_nat ?n) (i < 0) = Some i"
    using assms(3) safe_integer_show [of ?n "i < 0"] by simp
  moreover have "?r = advance (length (show_i64 i)) p" by (simp add: q(2) parser_simps)
  ultimately show ?thesis
    using integer_part_show [OF q(1) assms(2)] neg
    unfolding number_def Let_def by simp
qed

section \<open>Arrays and objects\<close>

text \<open>A reader of nested values that inverts the writer on the value \<open>v\<close>.\<close>

definition reads :: "(Parser \<Rightarrow> Value parsed) \<Rightarrow> Value \<Rightarrow> bool" where
  "reads val v \<longleftrightarrow> (\<forall>p t. p_rest p = write_value v @ t \<longrightarrow> stops t \<longrightarrow>
     val p = Ok (normal v, advance (length (write_value v)) p))"

definition starts_value :: "char \<Rightarrow> bool" where
  "starts_value c \<longleftrightarrow> c \<in> {CHR ''n'', CHR ''t'', CHR ''f'', CHR 0x22, CHR ''['', CHR ''{'', CHR ''-''} \<or> is_ascii_digit c"

lemma write_value_starts:
  "no_floats v \<Longrightarrow> write_value v \<noteq> [] \<and> starts_value (hd (write_value v))"
proof (cases v)
  case (JNumber n)
  assume "no_floats v"
  then obtain i where "n = NInt i" using JNumber by (cases n) auto
  then show ?thesis
    using JNumber show_nat_digits [of "hd (show_nat (nat i))" "nat i"] show_nat_nonempty [of "nat i"]
    by (auto simp: show_i64_def starts_value_def simp del: show_nat_nonempty intro: list.set_sel(1))
qed (auto simp: starts_value_def write_string_def)

lemma starts_value_not: "starts_value c \<Longrightarrow> \<not> is_ws c \<and> c \<noteq> CHR '']'' \<and> c \<noteq> CHR ''}''"
  by (auto simp: starts_value_def is_ws_def is_ascii_digit_def)

lemma skip_ws_value:
  assumes "p_rest p = write_value v @ t" "no_floats v"
  shows "skip_ws p = p"
  using assms write_value_starts [of v] starts_value_not skip_ws_none [of p "hd (write_value v)" "tl (write_value v) @ t"]
  by simp

lemma join_on_Cons: "join_on c (x # xs) = x @ (if xs = [] then [] else c # join_on c xs)"
  by (cases xs) simp_all

lemma not_ws: "\<not> is_ws CHR '',''" "\<not> is_ws CHR '']''" "\<not> is_ws CHR ''}''" "\<not> is_ws CHR '':''" "\<not> is_ws CHR 0x22"
  by (simp_all add: is_ws_def)

lemma array_loop_print:
  assumes "\<And>x. x \<in> set xs \<Longrightarrow> reads val x \<and> no_floats x" "xs \<noteq> []"
    and "p_rest p = join_on CHR '','' (map write_value xs) @ CHR '']'' # t"
  shows "array_loop val acc p =
     Ok (JArray (acc @ map normal xs), advance (length (join_on CHR '','' (map write_value xs)) + 1) p)"
  using assms
proof (induction xs arbitrary: acc p)
  case (Cons x xs)
  let ?w = "write_value x" and ?u = "if xs = [] then [] else CHR '','' # join_on CHR '','' (map write_value xs)"
  have p: "p_rest p = ?w @ ?u @ CHR '']'' # t" using Cons.prems(3) by (simp add: join_on_Cons)
  have x: "reads val x" "no_floats x" using Cons.prems(1) by auto
  have "skip_ws p = p" using skip_ws_value [OF p x(2)] .
  moreover have "val (push_path (Index (length acc)) p) =
      Ok (normal x, advance (length ?w) (push_path (Index (length acc)) p))"
    using x(1) [unfolded reads_def, rule_format, of "push_path (Index (length acc)) p" "?u @ CHR '']'' # t"] p
    by (simp add: push_path_rest stops_def)
  moreover have r: "p_rest (advance (length ?w) p) = ?u @ CHR '']'' # t" using p by (simp add: parser_simps)
  moreover have "skip_ws (advance (length ?w) p) = advance (length ?w) p"
    using r not_ws by (cases "xs = []") (auto intro!: skip_ws_none)
  moreover have "0 < length ?w" using write_value_starts [OF x(2)] by simp
  ultimately have step: "array_loop val acc p =
      (if xs = [] then Ok (JArray (acc @ [normal x]), advance (length ?w + 1) p)
       else array_loop val (acc @ [normal x]) (advance (length ?w + 1) p))"
    using p by (subst array_loop.simps) (auto simp: Let_def parser_simps peek_def)
  show ?case
  proof (cases "xs = []")
    case True
    with step show ?thesis by simp
  next
    case False
    have "p_rest (advance (length ?w + 1) p) = join_on CHR '','' (map write_value xs) @ CHR '']'' # t"
      using p False by (simp add: parser_simps)
    from Cons.IH [OF _ False this, of "acc @ [normal x]"] Cons.prems(1) step False
    show ?thesis by (simp add: join_on_Cons parser_simps add.commute add.left_commute)
  qed
qed simp

definition member_text :: "string \<times> Value \<Rightarrow> string" where
  "member_text m = write_string (fst m) @ '':'' @ write_value (snd m)"

lemma member_text_pair [simp]: "member_text (k, v) = write_string k @ CHR '':'' # write_value v"
  by (simp add: member_text_def)

lemma object_loop_print:
  assumes "\<And>k v. (k, v) \<in> set ms \<Longrightarrow> reads val v \<and> no_floats v" "ms \<noteq> []"
    and "distinct (map fst (acc @ ms))"
    and "p_rest p = join_on CHR '','' (map member_text ms) @ CHR ''}'' # t"
  shows "object_loop val acc p =
     Ok (JObject (acc @ map (\<lambda>(k, v). (k, normal v)) ms),
         advance (length (join_on CHR '','' (map member_text ms)) + 1) p)"
  using assms
proof (induction ms arbitrary: acc p)
  case (Cons m ms)
  obtain k v where m: "m = (k, v)" by (cases m)
  let ?u = "if ms = [] then [] else CHR '','' # join_on CHR '','' (map member_text ms)"
  let ?a = "length (write_string k)" and ?b = "length (write_value v)"
  have p: "p_rest p = write_string k @ CHR '':'' # write_value v @ ?u @ CHR ''}'' # t"
    using Cons.prems(4) by (simp add: join_on_Cons m)
  have v: "reads val v" "no_floats v" using Cons.prems(1) m by auto
  have q: "peek p = Some (CHR 0x22)" "skip_ws p = p"
    using p not_ws by (auto simp: write_string_def peek_def intro!: skip_ws_none)
  have s: "parse_string p = Ok (k, advance ?a p)" by (rule parse_string_print [OF p])
  have fresh: "\<not> list_ex (\<lambda>(k', _). k' = k) acc"
    using Cons.prems(3) m by (force simp: list_ex_iff)
  have c: "p_rest (advance ?a p) = CHR '':'' # write_value v @ ?u @ CHR ''}'' # t"
    "p_rest (advance (?a + 1) p) = write_value v @ ?u @ CHR ''}'' # t"
    "p_rest (advance (?a + 1 + ?b) p) = ?u @ CHR ''}'' # t"
    using p by (simp_all add: parser_simps)
  have w: "skip_ws (advance ?a p) = advance ?a p" "skip_ws (advance (?a + 1) p) = advance (?a + 1) p"
    "skip_ws (advance (?a + 1 + ?b) p) = advance (?a + 1 + ?b) p"
    using c not_ws skip_ws_value [OF c(2) v(2)] by (auto intro!: skip_ws_none split: if_splits)
  have e: "expect CHR '':'' (advance ?a p) = Ok ((), advance (?a + 1) p)"
    using c by (simp add: expect_def peek_def parser_simps)
  let ?q = "push_path (Key k) (advance (?a + 1) p)"
  have "val ?q = Ok (normal v, advance ?b ?q)"
    using v(1) [unfolded reads_def, rule_format, of ?q "?u @ CHR ''}'' # t"] c(2)
    by (simp add: push_path_rest stops_def)
  then have val: "val ?q = Ok (normal v, push_path (Key k) (advance (?a + 1 + ?b) p))"
    by (simp add: parser_simps)
  have pop: "pop_path (push_path (Key k) r) = r" for r by (simp add: pop_path_def push_path_def)
  have step: "object_loop val acc p =
      (if ms = [] then Ok (JObject (acc @ [(k, normal v)]), advance (?a + 1 + ?b + 1) p)
       else object_loop val (acc @ [(k, normal v)]) (advance (?a + 1 + ?b + 1) p))"
    using q s fresh w e val c p
    by (subst object_loop.simps) (auto simp: Let_def pop peek_def advance_advance write_string_def)
  show ?case
  proof (cases "ms = []")
    case True
    with step show ?thesis by (simp add: m)
  next
    case False
    have "p_rest (advance (?a + 1 + ?b + 1) p) = join_on CHR '','' (map member_text ms) @ CHR ''}'' # t"
      using p False by (simp add: parser_simps)
    moreover have "distinct (map fst ((acc @ [(k, normal v)]) @ ms))" using Cons.prems(3) m by simp
    ultimately have "object_loop val (acc @ [(k, normal v)]) (advance (?a + 1 + ?b + 1) p) =
       Ok (JObject ((acc @ [(k, normal v)]) @ map (\<lambda>(k, v). (k, normal v)) ms),
         advance (length (join_on CHR '','' (map member_text ms)) + 1) (advance (?a + 1 + ?b + 1) p))"
      using Cons.prems(1) by (intro Cons.IH False) auto
    with step False show ?thesis
      by (simp add: m join_on_Cons parser_simps add.assoc)
  qed
qed simp

section \<open>Values\<close>

lemma write_object_members:
  "write_value (JObject ms) = ''{'' @ join_on CHR '','' (map member_text (sort_key (\<lambda>(key, _). utf16_key key) ms)) @ ''}''"
proof -
  have "(\<lambda>(key, v). write_string key @ '':'' @ write_value v) = member_text" by (rule ext) auto
  then show ?thesis by (simp only: write_value.simps)
qed

lemma distinct_fst_sort: "distinct (map fst (sort_key f ms)) \<longleftrightarrow> distinct (map fst ms)"
  by (simp add: distinct_map)

lemma nesting_item: "x \<in> set xs \<Longrightarrow> nesting x < nesting (JArray xs)"
  using foldr_max_le [of "map nesting xs" "foldr max (map nesting xs) 0"] by auto

lemma nesting_member: "(k, v) \<in> set ms \<Longrightarrow> nesting v < nesting (JObject ms)"
  using foldr_max_le [of "map (\<lambda>(k, v). nesting v) ms" "foldr max (map (\<lambda>(k, v). nesting v) ms) 0"] by force

lemma parse_value_print:
  "wf_value v \<Longrightarrow> no_floats v \<Longrightarrow> depth + nesting v \<le> MAX_DEPTH \<Longrightarrow> reads (parse_value depth) v"
proof (induction v arbitrary: depth)
  case JNull
  then show ?case by (simp add: reads_def parse_value.simps peek_def literal_def)
next
  case (JBool b)
  then show ?case by (cases b) (simp_all add: reads_def parse_value.simps peek_def literal_def)
next
  case (JNumber n)
  then obtain i where n: "n = NInt i" "\<bar>i\<bar> \<le> MAX_SAFE_INTEGER" by (cases n) auto
  show ?case unfolding reads_def
  proof (intro allI impI)
    fix p :: Parser and t assume p: "p_rest p = write_value (JNumber n) @ t" "stops t"
    have "number p = Ok (NInt i, advance (length (show_i64 i)) p)"
      using p n by (intro number_print) simp_all
    moreover have "\<exists>b. peek p = Some b \<and> (b = CHR ''-'' \<or> is_ascii_digit b)"
      using p n show_nat_digits [of "hd (show_nat (nat i))" "nat i"] show_nat_nonempty [of "nat i"]
      by (cases "show_nat (nat i)") (auto simp: peek_def show_i64_def)
    ultimately show "parse_value depth p = Ok (normal (JNumber n), advance (length (write_value (JNumber n))) p)"
      using n by (subst parse_value.simps) (auto simp: is_ascii_digit_def)
  qed
next
  case (JString s)
  have "peek p = Some (CHR 0x22)" if "p_rest p = write_string s @ t" for p t
    using that by (simp add: peek_def write_string_def)
  then show ?case
    unfolding reads_def by (simp add: parse_value.simps parse_string_print)
next
  case (JArray xs)
  have *: "reads (parse_value (depth + 1)) x \<and> no_floats x" if "x \<in> set xs" for x
    using JArray.IH [OF that, of "depth + 1"] JArray.prems nesting_item [OF that] that by auto
  show ?case unfolding reads_def
  proof (intro allI impI)
    fix p :: Parser and t assume p: "p_rest p = write_value (JArray xs) @ t" "stops t"
    have e: "enter depth p = Ok (depth + 1)" using JArray.prems by (simp add: enter_def)
    show "parse_value depth p = Ok (normal (JArray xs), advance (length (write_value (JArray xs))) p)"
    proof (cases "xs = []")
      case True
      with p e not_ws show ?thesis
        by (simp add: parse_value.simps [of depth] peek_def array_body_def parser_simps skip_ws_none)
    next
      case False
      let ?j = "join_on CHR '','' (map write_value xs)"
      have r: "p_rest (bump p) = ?j @ CHR '']'' # t" using p by (simp add: parser_simps)
      obtain c u where u: "?j = c # u" "starts_value c"
        using False * [OF hd_in_set [OF False]] write_value_starts [of "hd xs"]
        by (cases xs; cases "write_value (hd xs)") (auto simp: join_on_Cons)
      have "skip_ws (bump p) = bump p" using r u starts_value_not by (auto intro!: skip_ws_none)
      moreover have "peek (bump p) \<noteq> Some (CHR '']'')" using r u starts_value_not by (auto simp: peek_def)
      ultimately show ?thesis
        using p e array_loop_print [OF * False r, of "[]"]
        by (simp add: parse_value.simps [of depth] peek_Cons array_body_def parser_simps)
    qed
  qed
next
  case (JObject ms)
  let ?s = "sort_key (\<lambda>(key, _). utf16_key key) ms"
  have *: "reads (parse_value (depth + 1)) v \<and> no_floats v" if "(k, v) \<in> set ?s" for k v
    using JObject.IH [of "(k, v)" v "depth + 1"] JObject.prems nesting_member [of k v ms] that by auto
  show ?case unfolding reads_def
  proof (intro allI impI)
    fix p :: Parser and t assume p: "p_rest p = write_value (JObject ms) @ t" "stops t"
    have e: "enter depth p = Ok (depth + 1)" using JObject.prems by (simp add: enter_def)
    show "parse_value depth p = Ok (normal (JObject ms), advance (length (write_value (JObject ms))) p)"
    proof (cases "ms = []")
      case True
      with p e not_ws show ?thesis
        by (simp add: parse_value.simps [of depth] peek_def object_body_def parser_simps skip_ws_none)
    next
      case False
      let ?j = "join_on CHR '','' (map member_text ?s)"
      have r: "p_rest (bump p) = ?j @ CHR ''}'' # t"
        using p unfolding write_object_members by (simp add: parser_simps)
      have ne: "?s \<noteq> []" using False by (metis length_0_conv length_sort)
      then obtain u where u: "?j = CHR 0x22 # u"
        by (cases ?s) (auto simp: join_on_Cons member_text_def write_string_def)
      have "skip_ws (bump p) = bump p" using r u not_ws by (auto intro!: skip_ws_none)
      moreover have "peek (bump p) \<noteq> Some (CHR ''}'')" using r u by (auto simp: peek_def)
      moreover have "distinct (map fst ([] @ ?s))" using JObject.prems by (simp add: distinct_fst_sort)
      ultimately show ?thesis
        using p e object_loop_print [where acc = "[]", OF * ne _ r]
        unfolding write_object_members
        by (simp add: parse_value.simps [of depth] peek_Cons object_body_def parser_simps)
    qed
  qed
qed

end
