(* ===== verification/Json_Canon.thy ===== *)
theory Json_Canon
  imports Json_Round "HOL-Library.Multiset"
begin

text \<open>
  The canonical text as a whole: it is UTF-8, it reads back to the value in canonical order, and two
  values have the same canonical text exactly when they are equal as JSON values.
\<close>

section \<open>The text is UTF-8\<close>

lemma write_char_ascii: "byte_of c < 128 \<Longrightarrow> utf8_ok (write_char c)"
  by (rule utf8_ok_all_ascii) (auto simp: write_char_def hex_digit_def split: if_splits)

lemma write_char_high: "128 \<le> byte_of c \<Longrightarrow> write_char c = [c]"
  by (auto simp: write_char_def)

lemma utf8_ok_first: "utf8_width s \<noteq> 0 \<Longrightarrow> utf8_ok (take (utf8_width s) s)"
proof -
  assume w: "utf8_width s \<noteq> 0"
  let ?t = "take (utf8_width s) s"
  have "utf8_width ?t = utf8_width s"
    using w utf8_width_short [of ?t "drop (utf8_width s) s"] utf8_width_le [of s] by simp
  then show ?thesis using w utf8_ok_step [of ?t] by simp
qed

lemma utf8_ok_write_chars: "utf8_ok s \<Longrightarrow> utf8_ok (concat (map write_char s))"
proof (induction s rule: utf8_ok_induct)
  case (Step s)
  let ?a = "take (utf8_width s) s" and ?b = "drop (utf8_width s) s"
  have "utf8_ok (concat (map write_char ?a))"
    using Step.hyps(1)
  proof (cases rule: utf8_width_cases)
    case (One a r)
    then show ?thesis by (simp add: write_char_ascii)
  next
    case (Two a b r)
    then have "concat (map write_char ?a) = ?a"
      by (simp add: take_small write_char_high is_continuation_def)
    with utf8_ok_first [OF Step.hyps(1)] show ?thesis by simp
  next
    case (Three a b c r)
    then have "concat (map write_char ?a) = ?a"
      by (simp add: take_small write_char_high is_continuation_def)
    with utf8_ok_first [OF Step.hyps(1)] show ?thesis by simp
  next
    case (Four a b c d r)
    then have "concat (map write_char ?a) = ?a"
      by (simp add: take_small write_char_high is_continuation_def)
    with utf8_ok_first [OF Step.hyps(1)] show ?thesis by simp
  qed
  moreover have "concat (map write_char s) = concat (map write_char ?a) @ concat (map write_char ?b)"
    by (metis append_take_drop_id concat_append map_append)
  ultimately show ?case using Step.IH utf8_ok_append by simp
qed simp

lemma utf8_ok_write_string: "utf8_ok s \<Longrightarrow> utf8_ok (write_string s)"
  by (simp add: write_string_def utf8_ok_append utf8_ok_write_chars)

lemma utf8_ok_show_nat: "utf8_ok (show_nat n)"
  using show_nat_digits by (intro utf8_ok_all_ascii) (force simp: is_ascii_digit_def)

lemma utf8_ok_join: "(\<And>x. x \<in> set xs \<Longrightarrow> utf8_ok x) \<Longrightarrow> utf8_ok (join_on CHR '','' xs)"
  by (induction "CHR '',''" xs rule: join_on.induct) (auto simp: utf8_ok_append)

lemma utf8_ok_write_value: "wf_value v \<Longrightarrow> no_floats v \<Longrightarrow> utf8_ok (write_value v)"
proof (induction v)
  case (JNumber n)
  then obtain i where "n = NInt i" by (cases n) auto
  then show ?case by (auto simp: show_i64_def utf8_ok_show_nat)
next
  case (JArray xs)
  then have "utf8_ok (join_on CHR '','' (map write_value xs))" by (intro utf8_ok_join) auto
  then show ?case by (simp add: utf8_ok_append)
next
  case (JObject ms)
  have "utf8_ok (member_text (k, v))" if "(k, v) \<in> set ms" for k v
  proof -
    have "utf8_ok k" "utf8_ok (write_value v)" using that JObject.IH [of "(k, v)" v] JObject.prems by auto
    then show ?thesis by (simp add: utf8_ok_append [OF utf8_ok_write_string])
  qed
  then have "utf8_ok (join_on CHR '','' (map member_text (sort_key (\<lambda>(key, _). utf16_key key) ms)))"
    by (intro utf8_ok_join) auto
  then show ?case unfolding write_object_members by (simp add: utf8_ok_append)
qed (auto simp: utf8_ok_write_string)

lemma parse_json_print:
  assumes "wf_value v" "no_floats v" "nesting v \<le> MAX_DEPTH"
  shows "parse_json (to_canonical_bytes v) numbers = Ok (normal v)"
proof -
  let ?p = "\<lparr>p_pos = 0, p_rest = write_value v, p_numbers = numbers, p_path = []\<rparr>"
  have "parse_value 0 ?p = Ok (normal v, advance (length (write_value v)) ?p)"
    using parse_value_print [OF assms(1,2), of 0] assms(3) unfolding reads_def by (simp add: stops_def)
  moreover have "skip_ws ?p = ?p" using skip_ws_value [of ?p v "[]"] assms(2) by simp
  moreover have "write_value v \<noteq> []" using write_value_starts [OF assms(2)] by simp
  ultimately show ?thesis
    using utf8_ok_write_value [OF assms(1,2)]
    by (simp add: parse_json_def to_canonical_bytes_def Let_def skip_ws_def parser_simps)
qed

section \<open>Canonical order\<close>

lemma map_sort_key:
  assumes "\<And>x. f (g x) = h x"
  shows "map g (sort_key h xs) = sort_key f (map g xs)"
proof (induction xs)
  case (Cons x xs)
  have "map g (insort_key h x ys) = insort_key f (g x) (map g ys)" for ys
    by (induction ys) (simp_all add: assms)
  with Cons show ?case by simp
qed simp

abbreviation member_key :: "string \<times> Value \<Rightarrow> okey" where
  "member_key \<equiv> \<lambda>(key, _). utf16_key key"

definition normal_member :: "string \<times> Value \<Rightarrow> string \<times> Value" where
  "normal_member m = (fst m, normal (snd m))"

lemma normal_object: "normal (JObject ms) = JObject (sort_key member_key (map normal_member ms))"
proof -
  have "(\<lambda>(k, v). (k, normal v)) = normal_member" by (rule ext) (auto simp: normal_member_def)
  then show ?thesis
    by (simp add: map_sort_key [of member_key normal_member member_key] normal_member_def split_beta)
qed

lemma utf16_key_inject: "utf8_ok s \<Longrightarrow> utf8_ok t \<Longrightarrow> utf16_key s = utf16_key t \<Longrightarrow> s = t"
  using encode_utf16_inject unfolding utf16_key_def by (simp add: key_vec_inject)

lemma member_key_inj:
  assumes "distinct (map fst ms)" "\<And>k v. (k, v) \<in> set ms \<Longrightarrow> utf8_ok k"
  shows "inj_on member_key (set ms)"
proof (rule inj_onI)
  fix a b assume ab: "a \<in> set ms" "b \<in> set ms" and eq: "member_key a = member_key b"
  have "fst a = fst b"
    using utf16_key_inject [of "fst a" "fst b"] ab eq assms(2) by (cases a; cases b) auto
  with ab assms(1) show "a = b" by (metis distinct_map inj_onD)
qed

lemma normal_members_distinct:
  assumes "distinct (map fst ms)"
  shows "distinct (map fst (map normal_member ms))" "distinct (map normal_member ms)"
proof -
  show 1: "distinct (map fst (map normal_member ms))"
    using assms by (simp add: normal_member_def comp_def)
  then show "distinct (map normal_member ms)" by (simp only: distinct_map)
qed

lemma sort_members_eq_iff:
  assumes "wf_value (JObject ms)" "wf_value (JObject ns)"
  shows "sort_key member_key (map normal_member ms) = sort_key member_key (map normal_member ns) \<longleftrightarrow>
    set (map normal_member ms) = set (map normal_member ns)" (is "?L \<longleftrightarrow> ?R")
proof
  assume ?L
  then show ?R by (metis set_sort)
next
  assume R: ?R
  have d: "distinct (map normal_member ms)" "distinct (map normal_member ns)"
    using assms normal_members_distinct by auto
  then have "mset (map normal_member ms) = mset (map normal_member ns)"
    using R by (simp only: set_eq_iff_mset_eq_distinct)
  moreover have "inj_on member_key (set (map normal_member ms))"
    using assms(1) normal_members_distinct by (intro member_key_inj) (auto simp: normal_member_def)
  ultimately show ?L by (rule sort_key_eq_sort_key)
qed

lemma Object_get_distinct: "distinct (map fst ns) \<Longrightarrow> Object_get k ns = Some w \<longleftrightarrow> (k, w) \<in> set ns"
  unfolding Object_get_def by (induction ns) (force split: if_splits)+

lemma Value_eq_normal: "wf_value a \<Longrightarrow> wf_value b \<Longrightarrow> Value_eq a b \<longleftrightarrow> normal a = normal b"
proof (induction a arbitrary: b)
  case (JArray xs)
  show ?case
  proof (cases b)
    case (JArray ys)
    with JArray.IH JArray.prems show ?thesis
      by (auto simp: list_all2_conv_all_nth list_eq_iff_nth_eq)
  qed auto
next
  case (JObject ms)
  show ?case
  proof (cases b)
    case (JObject ns)
    have dn: "distinct (map fst ns)" and dm: "distinct (map fst ms)" using JObject JObject.prems by auto
    have "(case Object_get k ns of None \<Rightarrow> False | Some w \<Rightarrow> Value_eq v w) \<longleftrightarrow>
        normal_member (k, v) \<in> set (map normal_member ns)" if m: "(k, v) \<in> set ms" for k v
    proof -
      have "(case Object_get k ns of None \<Rightarrow> False | Some w \<Rightarrow> Value_eq v w) \<longleftrightarrow> (\<exists>w. (k, w) \<in> set ns \<and> Value_eq v w)"
        using Object_get_distinct [OF dn, of k] by (cases "Object_get k ns") (auto, metis)
      also have "\<dots> \<longleftrightarrow> (\<exists>w. (k, w) \<in> set ns \<and> normal v = normal w)"
        using JObject.IH [of "(k, v)" v] m JObject JObject.prems by fastforce
      finally show ?thesis by (force simp: normal_member_def)
    qed
    then have "Value_eq (JObject ms) (JObject ns) \<longleftrightarrow>
        length ms = length ns \<and> set (map normal_member ms) \<subseteq> set (map normal_member ns)"
      by (auto simp: list_all_iff)
    also have "\<dots> \<longleftrightarrow> set (map normal_member ms) = set (map normal_member ns)"
      using normal_members_distinct [OF dm] normal_members_distinct [OF dn]
      by (metis List.finite_set card_subset_eq distinct_card length_map order_refl)
    finally show ?thesis
      using JObject JObject.prems sort_members_eq_iff [of ms ns] by (simp add: normal_object del: normal.simps)
  qed auto
qed (case_tac [!] b, auto)

lemma normal_wf: "wf_value v \<Longrightarrow> wf_value (normal v)"
proof (induction v)
  case (JObject ms)
  have "distinct (map fst (sort_key member_key (map normal_member ms)))"
    using JObject.prems normal_members_distinct(1) [of ms] by (simp add: distinct_fst_sort)
  moreover have "\<forall>(k, v)\<in>set (sort_key member_key (map normal_member ms)). utf8_ok k \<and> wf_value v"
    using JObject by (auto simp: normal_member_def)
  ultimately show ?case by (simp only: normal_object wf_value.simps)
qed auto

lemma write_normal: "write_value (normal v) = write_value v"
proof (induction v)
  case (JObject ms)
  have *: "map member_text (map normal_member xs) = map member_text xs" if "set xs \<subseteq> set ms" for xs
    using that JObject.IH by (force simp: member_text_def normal_member_def)
  have "write_value (normal (JObject ms)) =
      ''{'' @ join_on CHR '','' (map member_text (sort_key member_key (sort_key member_key (map normal_member ms)))) @ ''}''"
    unfolding normal_object write_object_members by simp
  also have "sort_key member_key (sort_key member_key (map normal_member ms)) = sort_key member_key (map normal_member ms)"
    by (rule sort_key_id_if_sorted) simp
  also have "\<dots> = map normal_member (sort_key member_key ms)"
    by (simp add: map_sort_key [of member_key normal_member member_key] normal_member_def split_beta)
  also have "map member_text \<dots> = map member_text (sort_key member_key ms)" by (rule *) simp
  finally show ?case unfolding write_object_members .
qed (auto simp: comp_def cong: map_cong)

lemma normal_idem: "normal (normal v) = normal v"
proof (induction v)
  case (JObject ms)
  have "map normal_member (map normal_member ms) = map normal_member ms"
    using JObject.IH by (force simp: normal_member_def)
  moreover have "map normal_member (sort_key member_key xs) = sort_key member_key (map normal_member xs)" for xs
    by (simp add: map_sort_key [of member_key normal_member member_key] normal_member_def split_beta)
  ultimately show ?case
    by (simp only: normal_object) (simp add: sort_key_id_if_sorted del: map_map)
qed (auto simp: comp_def cong: map_cong)

lemma canonical_iff_equal:
  assumes "wf_value a" "no_floats a" "nesting a \<le> MAX_DEPTH"
    and "wf_value b" "no_floats b" "nesting b \<le> MAX_DEPTH"
  shows "to_canonical_bytes a = to_canonical_bytes b \<longleftrightarrow> Value_eq a b"
  unfolding Value_eq_normal [OF assms(1,4)]
  using parse_json_print [OF assms(1-3)] parse_json_print [OF assms(4-6)] write_normal
  by (metis to_canonical_bytes_def sum.inject(2))

end
