(* ===== verification/Json_Sound.thy ===== *)
theory Json_Sound
  imports Json_Canon
begin

text \<open>
  What the reader accepts: a successful read consumes input, and on UTF-8 input its value is well
  formed, within the nesting limit, and without floats in the integer profile.
\<close>

definition keeps :: "Parser \<Rightarrow> Parser \<Rightarrow> bool" where
  "keeps p p' \<longleftrightarrow> p_numbers p' = p_numbers p \<and> length (p_rest p') \<le> length (p_rest p) \<and>
     (utf8_ok (p_rest p) \<longrightarrow> utf8_ok (p_rest p'))"

lemma keeps_refl [simp]: "keeps p p"
  by (simp add: keeps_def)

lemma keeps_trans [trans]: "keeps p q \<Longrightarrow> keeps q r \<Longrightarrow> keeps p r"
  by (auto simp: keeps_def)

lemma keeps_advance:
  assumes "\<And>c. c \<in> set (take n (p_rest p)) \<Longrightarrow> byte_of c < 128"
  shows "keeps p (advance n p)"
  using utf8_ok_append [OF utf8_ok_all_ascii, of "take n (p_rest p)" "drop n (p_rest p)"] assms
  by (simp add: keeps_def parser_simps)

lemma keeps_takeWhile:
  assumes "\<And>c. P c \<Longrightarrow> byte_of c < 128"
  shows "keeps p (advance (length (takeWhile P (p_rest p))) p)"
  using assms by (intro keeps_advance) (auto simp flip: takeWhile_eq_take dest: set_takeWhileD)

lemma keeps_skip_ws [simp]: "keeps p (skip_ws p)"
  unfolding skip_ws_def by (rule keeps_takeWhile) (auto simp: is_ws_def)

lemma peek_Some: "peek p = Some c \<longleftrightarrow> (\<exists>t. p_rest p = c # t)"
  by (cases "p_rest p") (auto simp: peek_def)

lemma keeps_bump: "peek p = Some c \<Longrightarrow> byte_of c < 128 \<Longrightarrow> keeps p (bump p)"
  by (rule keeps_advance) (auto simp: peek_Some)

lemma bump_shorter: "peek p = Some c \<Longrightarrow> length (p_rest (bump p)) < length (p_rest p)"
  by (auto simp: peek_Some parser_simps)

lemma keeps_path [simp]: "keeps p (push_path s q) = keeps p q" "keeps (push_path s p) q = keeps p q"
  "keeps p (pop_path q) = keeps p q"
  by (simp_all add: keeps_def parser_simps pop_path_def)

section \<open>Strings\<close>

lemma hex_value_ascii: "hex_value c = Some d \<Longrightarrow> byte_of c < 128"
  by (auto simp: hex_value_def is_ascii_digit_def split: if_splits)

lemma hex_loop_keeps: "hex_loop n v p = Ok (r, p') \<Longrightarrow> keeps p p'"
proof (induction n arbitrary: v p)
  case (Suc n)
  then obtain c d where c: "peek p = Some c" "hex_value c = Some d" "hex_loop n (v * 16 + d) (bump p) = Ok (r, p')"
    by (auto split: option.splits bind_splits)
  from keeps_bump [OF c(1) hex_value_ascii [OF c(2)]] Suc.IH [OF c(3)] show ?case by (rule keeps_trans)
qed simp

lemma unicode_escape_keeps:
  assumes "unicode_escape p = Ok (c, p')"
  shows "keeps p p' \<and> is_scalar c"
proof -
  from assms obtain first p1 where f: "hex4 p = Ok (first, p1)"
    unfolding unicode_escape_def by (auto simp: and_then_Ok_iff)
  note k = hex_loop_keeps [OF f]
  show ?thesis
  proof (cases "0xD800 \<le> first \<and> first \<le> 0xDBFF")
    case False
    with assms f k show ?thesis
      unfolding unicode_escape_def by (auto simp: char_from_u32_def is_scalar_def split: if_splits)
  next
    case True
    with assms f obtain second where s: "peek p1 = Some (CHR 0x5C)" "peek (bump p1) = Some (CHR ''u'')"
        "hex4 (bump (bump p1)) = Ok (second, p')" "is_scalar c"
      unfolding unicode_escape_def
      by (auto simp: and_then_Ok_iff Let_def char_from_u32_def is_scalar_def split: if_splits)
    have "keeps p1 (bump p1)" "keeps (bump p1) (bump (bump p1))"
      using keeps_bump [OF s(1)] keeps_bump [OF s(2)] by simp_all
    with k hex_loop_keeps [OF s(3)] s(4) show ?thesis using keeps_trans by blast
  qed
qed

lemma escape_keeps:
  assumes "escape p out = Ok (out', p')"
  shows "keeps p p' \<and> (utf8_ok out \<longrightarrow> utf8_ok out')"
proof -
  from assms obtain b where b: "peek p = Some b" unfolding escape_def by (auto split: option.splits)
  with assms obtain c where c: "out' = out @ utf8_encode c" "is_scalar c" "keeps (bump p) p'"
      "byte_of b < 128"
    unfolding escape_def
    by (auto simp: and_then_Ok_iff Let_def is_scalar_def split: if_splits dest: unicode_escape_keeps)
  from keeps_bump [OF b c(4)] c(3) have "keeps p p'" by (rule keeps_trans)
  with c show ?thesis by (simp add: utf8_ok_append utf8_ok_encode)
qed

lemma run_ok:
  assumes "utf8_ok s" "dropWhile P s = c # t" "byte_of c < 128"
  shows "utf8_ok (takeWhile P s) \<and> utf8_ok (c # t) \<and> utf8_ok t"
  using utf8_ok_split_ascii [of "takeWhile P s" c t] assms takeWhile_dropWhile_id [of P s] by simp

lemma drop_takeWhile: "drop (length (takeWhile P s)) s = dropWhile P s"
  by (metis append_eq_conv_conj takeWhile_dropWhile_id)

lemma string_loop_keeps:
  "string_loop p out = Ok (s, p') \<Longrightarrow>
   p_numbers p' = p_numbers p \<and> length (p_rest p') < length (p_rest p) \<and>
   (utf8_ok (p_rest p) \<longrightarrow> utf8_ok out \<longrightarrow> utf8_ok (p_rest p') \<and> utf8_ok s)"
proof (induction p out rule: string_loop.induct)
  case (1 p out)
  let ?run = "takeWhile is_plain (p_rest p)"
  let ?q = "advance (length ?run) p"
  have q: "p_rest ?q = dropWhile is_plain (p_rest p)" by (simp add: parser_simps drop_takeWhile)
  have le: "length (p_rest ?q) \<le> length (p_rest p)" by (simp add: parser_simps)
  from 1(2) obtain b where b: "peek ?q = Some b"
    by (subst (asm) string_loop.simps) (auto simp: Let_def split: option.splits)
  then obtain t where t: "dropWhile is_plain (p_rest p) = b # t" using q by (auto simp: peek_Some)
  show ?case
  proof (cases "b = CHR 0x22")
    case True
    with 1(2) b have "s = out @ ?run" "p' = bump ?q"
      by (subst (asm) string_loop.simps; simp add: Let_def)+
    then show ?thesis
      using run_ok [of "p_rest p" is_plain b t] t True bump_shorter [OF b] le
      by (auto simp: parser_simps q utf8_ok_append drop_takeWhile drop_Suc simp flip: tl_drop)
  next
    case False
    with 1(2) b have s: "b = CHR 0x5C"
      by (subst (asm) string_loop.simps) (auto simp: Let_def split: if_splits)
    with 1(2) b obtain out2 p2 where e: "escape (bump ?q) (out @ ?run) = Ok (out2, p2)" "string_loop p2 out2 = Ok (s, p')"
      by (subst (asm) string_loop.simps) (auto simp: Let_def split: sum.splits)
    note IH = 1(1) [OF refl refl refl b False s e(1) refl e(2)]
    have "p_rest (bump ?q) = t" using q t by (simp add: parser_simps drop_Suc flip: tl_drop)
    moreover note escape_keeps [OF e(1)]
    moreover have "length t < length (p_rest p)" using t le q by simp
    ultimately show ?thesis
      using IH run_ok [of "p_rest p" is_plain b t] t s
      by (auto simp: keeps_def utf8_ok_append parser_simps)
  qed
qed

lemma parse_string_keeps:
  assumes "parse_string p = Ok (s, p')" "peek p = Some (CHR 0x22)"
  shows "keeps p p' \<and> length (p_rest p') < length (p_rest p) \<and> (utf8_ok (p_rest p) \<longrightarrow> utf8_ok s)"
  using string_loop_keeps [of "bump p" "[]" s p'] assms keeps_bump [OF assms(2)] bump_shorter [OF assms(2)]
  by (auto simp: parse_string_def keeps_def)

section \<open>Numbers\<close>

lemma digits_keeps: "digits p = (n, p') \<Longrightarrow> keeps p p' \<and> p' = advance n p"
  using keeps_takeWhile [of is_ascii_digit p] by (auto simp: digits_def Let_def is_ascii_digit_def)

lemma integer_part_keeps:
  "integer_part p = Ok (u, p') \<Longrightarrow> keeps p p' \<and> length (p_rest p') < length (p_rest p)"
proof -
  assume a: "integer_part p = Ok (u, p')"
  then obtain b where b: "peek p = Some b" by (auto simp: integer_part_def split: option.splits)
  show ?thesis
  proof (cases "b = CHR ''0''")
    case True
    with a b have "p' = bump p" by (auto simp: integer_part_def Let_def split: option.splits if_splits)
    with True b keeps_bump [OF b] bump_shorter [OF b] show ?thesis by simp
  next
    case False
    with a b have d: "is_ascii_digit b" "p' = snd (digits p)" by (auto simp: integer_part_def split: if_splits)
    moreover have "0 < fst (digits p)" using b d(1) by (auto simp: digits_def Let_def peek_Some)
    moreover have "p_rest p \<noteq> []" using b by (auto simp: peek_Some)
    ultimately show ?thesis
      using digits_keeps [of p "fst (digits p)" p'] by (auto simp: parser_simps)
  qed
qed

lemma fraction_part_keeps: "fraction_part p = Ok (i, p') \<Longrightarrow> keeps p p'"
  using keeps_bump [of p "CHR ''.''"] digits_keeps [of "bump p"]
  by (auto simp: fraction_part_def split: if_splits prod.splits intro: keeps_trans)

lemma exponent_part_keeps:
  assumes "exponent_part i p = Ok (j, p')"
  shows "keeps p p'"
proof (cases "peek p = Some (CHR ''e'') \<or> peek p = Some (CHR ''E'')")
  case True
  then have k: "keeps p (bump p)" using keeps_bump by auto
  let ?q = "if peek (bump p) = Some (CHR ''+'') \<or> peek (bump p) = Some (CHR ''-'') then bump (bump p) else bump p"
  have "keeps (bump p) ?q" using keeps_bump [of "bump p"] by auto
  moreover have "keeps ?q p'"
    using assms True digits_keeps [of ?q] unfolding exponent_part_def Let_def
    by (auto split: if_splits prod.splits)
  ultimately show ?thesis using k keeps_trans by blast
next
  case False
  with assms show ?thesis by (simp add: exponent_part_def)
qed

lemma safe_integer_loop_bounds:
  "safe_integer_loop ds v = Some w \<Longrightarrow> 0 \<le> v \<Longrightarrow> v \<le> MAX_SAFE_INTEGER \<Longrightarrow> 0 \<le> w \<and> w \<le> MAX_SAFE_INTEGER"
  by (induction ds v rule: safe_integer_loop.induct) (auto simp: Let_def split: if_splits)

lemma safe_integer_wf: "safe_integer ds neg = Some i \<Longrightarrow> \<bar>i\<bar> \<le> MAX_SAFE_INTEGER"
  using safe_integer_loop_bounds [of ds 0] by (auto simp: safe_integer_def MAX_SAFE_INTEGER_def)

lemma Number_from_f64_wf: "Number_from_f64 x = Some n \<Longrightarrow> wf_number n"
  by (auto simp: Number_from_f64_def MAX_SAFE_INTEGER_def split: if_splits)

lemma number_keeps:
  assumes "number p = Ok (n, p')"
  shows "keeps p p' \<and> length (p_rest p') < length (p_rest p) \<and> wf_number n \<and>
    (p_numbers p = SafeInteger \<longrightarrow> (\<exists>i. n = NInt i))"
proof -
  let ?q = "if peek p = Some (CHR ''-'') then bump p else p"
  from assms obtain u q1 i1 q2 i2 where q: "integer_part ?q = Ok (u, q1)" "fraction_part q1 = Ok (i1, q2)"
      "exponent_part i1 q2 = Ok (i2, p')" and n: "wf_number n" "p_numbers p' = SafeInteger \<longrightarrow> (\<exists>i. n = NInt i)"
    unfolding number_def Let_def
    by (auto simp: and_then_Ok_iff safe_integer_wf Number_from_f64_wf split: option.splits NumberDomain.splits if_splits)
  have "keeps p ?q" using keeps_bump [of p] by auto
  moreover have "keeps ?q p'"
    using integer_part_keeps [OF q(1)] fraction_part_keeps [OF q(2)] exponent_part_keeps [OF q(3)] keeps_trans by blast
  moreover have "length (p_rest p') < length (p_rest ?q)"
    using integer_part_keeps [OF q(1)] fraction_part_keeps [OF q(2)] exponent_part_keeps [OF q(3)]
    by (simp add: keeps_def)
  ultimately show ?thesis using n by (auto simp: keeps_def split: if_splits)
qed

section \<open>Arrays, objects and values\<close>

definition sound_at :: "nat \<Rightarrow> Parser \<Rightarrow> Value \<Rightarrow> Parser \<Rightarrow> bool" where
  "sound_at k p v p' \<longleftrightarrow> keeps p p' \<and> length (p_rest p') < length (p_rest p) \<and>
     (utf8_ok (p_rest p) \<longrightarrow> wf_value v) \<and> (p_numbers p = SafeInteger \<longrightarrow> no_floats v) \<and> nesting v \<le> k"

definition reader_sound :: "nat \<Rightarrow> (Parser \<Rightarrow> Value parsed) \<Rightarrow> bool" where
  "reader_sound k val \<longleftrightarrow> (\<forall>p v p'. val p = Ok (v, p') \<longrightarrow> sound_at k p v p')"

lemma nesting_items: "(\<And>x. x \<in> set xs \<Longrightarrow> nesting x \<le> k) \<Longrightarrow> nesting (JArray xs) \<le> Suc k"
  by (simp add: foldr_max_le)

lemma nesting_members: "(\<And>key v. (key, v) \<in> set ms \<Longrightarrow> nesting v \<le> k) \<Longrightarrow> nesting (JObject ms) \<le> Suc k"
  by (force simp: foldr_max_le)

definition item_ok :: "nat \<Rightarrow> bool \<Rightarrow> NumberDomain \<Rightarrow> Value \<Rightarrow> bool" where
  "item_ok k utf8 numbers v \<longleftrightarrow> (utf8 \<longrightarrow> wf_value v) \<and> (numbers = SafeInteger \<longrightarrow> no_floats v) \<and> nesting v \<le> k"

lemma sound_at_item:
  "sound_at k p v p' \<longleftrightarrow> keeps p p' \<and> length (p_rest p') < length (p_rest p) \<and>
     item_ok k (utf8_ok (p_rest p)) (p_numbers p) v"
  by (simp add: sound_at_def item_ok_def)

lemma reader_sound_read:
  assumes "reader_sound k val" "val (push_path s (skip_ws p)) = Ok (v, q)"
  shows "keeps p (skip_ws (pop_path q))" "length (p_rest (skip_ws (pop_path q))) < length (p_rest p)"
    "(utf8 \<longrightarrow> utf8_ok (p_rest p)) \<Longrightarrow> item_ok k utf8 (p_numbers p) v"
proof -
  have "sound_at k (push_path s (skip_ws p)) v q" using assms unfolding reader_sound_def by blast
  then have s: "keeps (skip_ws p) q" "length (p_rest q) < length (p_rest (skip_ws p))" 
      "item_ok k (utf8_ok (p_rest (skip_ws p))) (p_numbers (skip_ws p)) v"
    by (simp_all add: sound_at_item parser_simps)
  have "keeps q (skip_ws (pop_path q))"
    using keeps_skip_ws [of "pop_path q"] by (simp add: keeps_def pop_path_def)
  with s keeps_skip_ws [of p] show "keeps p (skip_ws (pop_path q))" using keeps_trans by blast
  show "length (p_rest (skip_ws (pop_path q))) < length (p_rest p)"
    using s keeps_skip_ws [of p] \<open>keeps q (skip_ws (pop_path q))\<close> by (simp add: keeps_def)
  show "item_ok k utf8 (p_numbers p) v" if "utf8 \<longrightarrow> utf8_ok (p_rest p)"
    using that s(3) keeps_skip_ws [of p] by (auto simp: keeps_def item_ok_def)
qed

text \<open>Because a nested value always consumes input, the loops go on exactly as long as a comma follows.\<close>

lemma array_loop_step:
  assumes "reader_sound k val"
  shows "array_loop val acc p =
    and_then (val (push_path (Index (length acc)) (skip_ws p))) (\<lambda>(item, q).
      let r = skip_ws (pop_path q)
      in if peek r = Some (CHR '','') then array_loop val (acc @ [item]) (bump r)
         else if peek r = Some (CHR '']'') then Ok (JArray (acc @ [item]), bump r)
         else Err (invalid r))"
proof (cases "val (push_path (Index (length acc)) (skip_ws p))")
  case (Inr vq)
  obtain item q where "vq = (item, q)" by (cases vq)
  with Inr reader_sound_read [OF assms, of "Index (length acc)" p item q] show ?thesis
    by (subst array_loop.simps) (simp add: Let_def)
qed (subst array_loop.simps, simp)

lemma array_loop_sound:
  assumes "reader_sound k val"
  shows "array_loop val acc p = Ok (v, p') \<Longrightarrow> (utf8 \<longrightarrow> utf8_ok (p_rest p)) \<Longrightarrow>
    (\<And>x. x \<in> set acc \<Longrightarrow> item_ok k utf8 (p_numbers p) x) \<Longrightarrow>
    keeps p p' \<and> length (p_rest p') < length (p_rest p) \<and> item_ok (Suc k) utf8 (p_numbers p) v"
proof (induction "length (p_rest p)" arbitrary: acc p rule: less_induct)
  case less
  obtain item q where v: "val (push_path (Index (length acc)) (skip_ws p)) = Ok (item, q)"
    using less.prems(1) unfolding array_loop_step [OF assms, of acc p] by (auto simp: and_then_Ok_iff)
  note r = reader_sound_read [OF assms v]
  let ?r = "skip_ws (pop_path q)"
  have i: "item_ok k utf8 (p_numbers p) x" if "x \<in> set (acc @ [item])" for x
    using that less.prems(2,3) r(3) by auto
  show ?case
  proof (cases "peek ?r = Some (CHR '','')")
    case True
    then have a: "array_loop val (acc @ [item]) (bump ?r) = Ok (v, p')"
      using less.prems(1) v unfolding array_loop_step [OF assms, of acc p] by (simp add: Let_def)
    have k: "keeps p (bump ?r)" using keeps_bump [OF True] r(1) keeps_trans by simp
    have l: "length (p_rest (bump ?r)) < length (p_rest p)" using bump_shorter [OF True] r(2) by simp
    have n: "p_numbers (bump ?r) = p_numbers p" "utf8 \<longrightarrow> utf8_ok (p_rest (bump ?r))"
      using k less.prems(2) by (auto simp: keeps_def)
    from less.hyps [OF l a n(2)] i n(1) k l show ?thesis using keeps_trans by fastforce
  next
    case False
    then have p': "v = JArray (acc @ [item])" "p' = bump ?r" "peek ?r = Some (CHR '']'')"
      using less.prems(1) v unfolding array_loop_step [OF assms, of acc p] by (auto simp: Let_def split: if_splits)
    have "keeps p p'" using keeps_bump [OF p'(3)] p'(2) r(1) keeps_trans by simp
    moreover have "length (p_rest p') < length (p_rest p)" using bump_shorter [OF p'(3)] p'(2) r(2) by simp
    moreover have "item_ok (Suc k) utf8 (p_numbers p) v"
      using i nesting_items [of "acc @ [item]" k] unfolding p'(1) item_ok_def by auto
    ultimately show ?thesis by simp
  qed
qed

text \<open>The members of an object read so far: distinct keys that are texts, and values that are sound.\<close>

definition members_ok :: "nat \<Rightarrow> bool \<Rightarrow> NumberDomain \<Rightarrow> Object \<Rightarrow> bool" where
  "members_ok k utf8 numbers ms \<longleftrightarrow> distinct (map fst ms) \<and>
     (\<forall>(key, v)\<in>set ms. (utf8 \<longrightarrow> utf8_ok key) \<and> item_ok k utf8 numbers v)"

lemma members_ok_object: "members_ok k utf8 numbers ms \<Longrightarrow> item_ok (Suc k) utf8 numbers (JObject ms)"
  using nesting_members [of ms k] unfolding members_ok_def item_ok_def by auto

lemma object_key_read:
  assumes "peek (skip_ws p) = Some (CHR 0x22)" "parse_string (skip_ws p) = Ok (key, q)"
    and "expect CHR '':'' (skip_ws q) = Ok (u, q')"
  shows "keeps p q'" "utf8_ok (p_rest p) \<longrightarrow> utf8_ok key" "length (p_rest q') < length (p_rest p)"
proof -
  note s = parse_string_keeps [OF assms(2,1)]
  from assms(3) have e: "peek (skip_ws q) = Some (CHR '':'')" "q' = bump (skip_ws q)"
    by (auto simp: expect_def split: if_splits)
  then have "keeps (skip_ws q) q'" using keeps_bump [OF e(1)] by simp
  then show "keeps p q'" using s keeps_skip_ws [of p] keeps_skip_ws [of q] keeps_trans by blast
  show "utf8_ok (p_rest p) \<longrightarrow> utf8_ok key" using s keeps_skip_ws [of p] by (simp add: keeps_def)
  show "length (p_rest q') < length (p_rest p)"
    using s keeps_skip_ws [of p] keeps_skip_ws [of q] \<open>keeps (skip_ws q) q'\<close> by (simp add: keeps_def)
qed

lemma object_loop_Ok:
  assumes "reader_sound k val" "object_loop val acc p = Ok (v, p')"
  obtains key q q' u item q2 where "peek (skip_ws p) = Some (CHR 0x22)" "parse_string (skip_ws p) = Ok (key, q)"
    "expect CHR '':'' (skip_ws q) = Ok (u, q')" "val (push_path (Key key) (skip_ws q')) = Ok (item, q2)"
    "key \<notin> fst ` set acc"
    "if peek (skip_ws (pop_path q2)) = Some (CHR '','')
     then object_loop val (acc @ [(key, item)]) (bump (skip_ws (pop_path q2))) = Ok (v, p')
     else peek (skip_ws (pop_path q2)) = Some (CHR ''}'') \<and> v = JObject (acc @ [(key, item)]) \<and>
       p' = bump (skip_ws (pop_path q2))"
proof -
  from assms(2) obtain key q q' u item q2 where *: "peek (skip_ws p) = Some (CHR 0x22)"
    "parse_string (skip_ws p) = Ok (key, q)" "expect CHR '':'' (skip_ws q) = Ok (u, q')"
    "val (push_path (Key key) (skip_ws q')) = Ok (item, q2)" "\<not> list_ex (\<lambda>(k, _). k = key) acc"
    "(let r = skip_ws (pop_path q2) in
       if peek r = Some (CHR '','') \<and> length (p_rest r) < length (p_rest p)
       then object_loop val (acc @ [(key, item)]) (bump r)
       else if peek r = Some (CHR ''}'') then Ok (JObject (acc @ [(key, item)]), bump r)
       else Err (invalid r)) = Ok (v, p')"
    by (subst (asm) object_loop.simps) (auto simp: Let_def and_then_Ok_iff split: if_splits)
  have "length (p_rest (skip_ws (pop_path q2))) < length (p_rest p)"
    using reader_sound_read(2) [OF assms(1) *(4)] object_key_read(3) [OF *(1-3)] by simp
  moreover have "key \<notin> fst ` set acc" using *(5) by (force simp: list_ex_iff)
  ultimately show thesis using that * by (simp add: Let_def split: if_splits)
qed

lemma object_loop_sound:
  assumes "reader_sound k val"
  shows "object_loop val acc p = Ok (v, p') \<Longrightarrow> (utf8 \<longrightarrow> utf8_ok (p_rest p)) \<Longrightarrow>
    members_ok k utf8 (p_numbers p) acc \<Longrightarrow>
    keeps p p' \<and> length (p_rest p') < length (p_rest p) \<and> item_ok (Suc k) utf8 (p_numbers p) v"
proof (induction "length (p_rest p)" arbitrary: acc p rule: less_induct)
  case less
  from assms less.prems(1) obtain key q q' u item q2 where *: "peek (skip_ws p) = Some (CHR 0x22)"
    "parse_string (skip_ws p) = Ok (key, q)" "expect CHR '':'' (skip_ws q) = Ok (u, q')"
    "val (push_path (Key key) (skip_ws q')) = Ok (item, q2)" "key \<notin> fst ` set acc"
    and l: "if peek (skip_ws (pop_path q2)) = Some (CHR '','')
     then object_loop val (acc @ [(key, item)]) (bump (skip_ws (pop_path q2))) = Ok (v, p')
     else peek (skip_ws (pop_path q2)) = Some (CHR ''}'') \<and> v = JObject (acc @ [(key, item)]) \<and>
       p' = bump (skip_ws (pop_path q2))"
    by (rule object_loop_Ok)
  let ?r = "skip_ws (pop_path q2)"
  note ky = object_key_read [OF *(1-3)]
  note rd = reader_sound_read [OF assms *(4)]
  have n: "p_numbers q' = p_numbers p" using ky(1) by (simp add: keeps_def)
  have m: "members_ok k utf8 (p_numbers p) (acc @ [(key, item)])"
    using less.prems(2,3) *(5) ky rd(3) [of utf8] n by (auto simp: members_ok_def keeps_def)
  have r: "keeps p ?r" "length (p_rest ?r) < length (p_rest p)"
    using ky rd(1,2) keeps_trans by auto
  show ?case
  proof (cases "peek ?r = Some (CHR '','')")
    case True
    with l have a: "object_loop val (acc @ [(key, item)]) (bump ?r) = Ok (v, p')" by simp
    have kp: "keeps p (bump ?r)" using keeps_bump [OF True] r(1) keeps_trans by simp
    have le: "length (p_rest (bump ?r)) < length (p_rest p)" using bump_shorter [OF True] r(2) by simp
    have nu: "p_numbers (bump ?r) = p_numbers p" "utf8 \<longrightarrow> utf8_ok (p_rest (bump ?r))"
      using kp less.prems(2) by (auto simp: keeps_def)
    from less.hyps [OF le a nu(2)] m nu(1) kp le show ?thesis using keeps_trans by fastforce
  next
    case False
    with l have p': "peek ?r = Some (CHR ''}'')" "v = JObject (acc @ [(key, item)])" "p' = bump ?r" by simp_all
    have "keeps p p'" using keeps_bump [OF p'(1)] p'(3) r(1) keeps_trans by simp
    moreover have "length (p_rest p') < length (p_rest p)" using bump_shorter [OF p'(1)] p'(3) r(2) by simp
    ultimately show ?thesis using members_ok_object [OF m] p'(2) by simp
  qed
qed

lemma body_sound:
  assumes "reader_sound k val" "peek p = Some c" "byte_of c < 128"
  shows "object_body val p = Ok (v, p') \<Longrightarrow> sound_at (Suc k) p v p'"
    and "array_body val p = Ok (v, p') \<Longrightarrow> sound_at (Suc k) p v p'"
proof -
  let ?q = "skip_ws (bump p)"
  have q: "keeps p ?q" using keeps_bump [OF assms(2,3)] keeps_skip_ws keeps_trans by blast
  have l: "length (p_rest ?q) < length (p_rest p)"
    using bump_shorter [OF assms(2)] keeps_skip_ws [of "bump p"] by (simp add: keeps_def)
  have u: "utf8_ok (p_rest p) \<longrightarrow> utf8_ok (p_rest ?q)" "p_numbers ?q = p_numbers p" using q by (simp_all add: keeps_def)
  have empty: "sound_at (Suc k) p v (bump ?q)" if "peek ?q = Some d" "byte_of d < 128" "v = JObject [] \<or> v = JArray []" for d
    using that keeps_bump [OF that(1,2)] bump_shorter [OF that(1)] q l keeps_trans
    by (auto simp: sound_at_def)
  show "sound_at (Suc k) p v p'" if o: "object_body val p = Ok (v, p')"
  proof (cases "peek ?q = Some (CHR ''}'')")
    case True
    with o empty show ?thesis by (auto simp: object_body_def Let_def)
  next
    case False
    with o have "object_loop val [] ?q = Ok (v, p')" by (simp add: object_body_def Let_def)
    from object_loop_sound [OF assms(1) this u(1)] u(2) q l show ?thesis
      by (auto simp: sound_at_item members_ok_def intro: keeps_trans)
  qed
  show "sound_at (Suc k) p v p'" if a: "array_body val p = Ok (v, p')"
  proof (cases "peek ?q = Some (CHR '']'')")
    case True
    with a empty show ?thesis by (auto simp: array_body_def Let_def)
  next
    case False
    with a have "array_loop val [] ?q = Ok (v, p')" by (simp add: array_body_def Let_def)
    from array_loop_sound [OF assms(1) this u(1)] u(2) q l show ?thesis
      by (auto simp: sound_at_item intro: keeps_trans)
  qed
qed

lemma literal_sound:
  assumes "literal word v p = Ok (w, p')" "word \<noteq> []" "\<And>c. c \<in> set word \<Longrightarrow> byte_of c < 128"
    "wf_value v" "no_floats v" "nesting v = 0"
  shows "sound_at k p w p'"
proof -
  from assms(1) have *: "take (length word) (p_rest p) = word" "w = v" "p' = advance (length word) p"
    by (auto simp: literal_def split: if_splits)
  moreover have "p_rest p \<noteq> []" using *(1) assms(2) by auto
  ultimately show ?thesis
    using keeps_advance [of "length word" p] assms by (simp add: sound_at_def parser_simps)
qed

lemma parse_value_sound: "depth \<le> MAX_DEPTH \<Longrightarrow> reader_sound (MAX_DEPTH - depth) (parse_value depth)"
proof (induction "MAX_DEPTH - depth" arbitrary: depth rule: less_induct)
  case less
  show ?case
    unfolding reader_sound_def
  proof (intro allI impI)
    fix p v p' assume v: "parse_value depth p = Ok (v, p')"
    then obtain b where b: "peek p = Some b" by (subst (asm) parse_value.simps) (auto split: option.splits)
    have deeper: "reader_sound (MAX_DEPTH - (depth + 1)) (parse_value (depth + 1)) \<and> depth < MAX_DEPTH"
      if "enter depth p = Ok d" for d
      using that less.hyps [of "depth + 1"] less.prems by (auto simp: enter_def split: if_splits)
    consider (obj) "b = CHR ''{''" | (arr) "b = CHR ''[''" | (str) "b = CHR 0x22" | (lit) "b \<in> {CHR ''t'', CHR ''f'', CHR ''n''}"
      | (num) "b = CHR ''-'' \<or> is_ascii_digit b"
      using v b by (subst (asm) parse_value.simps) (auto split: if_splits)
    then show "sound_at (MAX_DEPTH - depth) p v p'"
    proof cases
      case obj
      with v b obtain d where d: "enter depth p = Ok d" "object_body (parse_value d) p = Ok (v, p')"
        by (subst (asm) parse_value.simps) (auto split: sum.splits)
      then have "d = depth + 1" by (auto simp: enter_def split: if_splits)
      with d deeper body_sound(1) [OF _ b] obj show ?thesis by (force simp: Suc_diff_Suc)
    next
      case arr
      with v b obtain d where d: "enter depth p = Ok d" "array_body (parse_value d) p = Ok (v, p')"
        by (subst (asm) parse_value.simps) (auto split: sum.splits)
      then have "d = depth + 1" by (auto simp: enter_def split: if_splits)
      with d deeper body_sound(2) [OF _ b] arr show ?thesis by (force simp: Suc_diff_Suc)
    next
      case str
      with v b obtain s where "parse_string p = Ok (s, p')" "v = JString s"
        by (subst (asm) parse_value.simps) (auto simp: and_then_Ok_iff)
      with parse_string_keeps str b show ?thesis by (auto simp: sound_at_def)
    next
      case lit
      from lit v b consider "literal ''true'' (JBool True) p = Ok (v, p')" | "literal ''false'' (JBool False) p = Ok (v, p')"
        | "literal ''null'' JNull p = Ok (v, p')"
        by (subst (asm) parse_value.simps) auto
      then show ?thesis
      proof cases
        case 1
        then show ?thesis by (rule literal_sound) auto
      next
        case 2
        then show ?thesis by (rule literal_sound) auto
      next
        case 3
        then show ?thesis by (rule literal_sound) auto
      qed
    next
      case num
      then have "b \<noteq> CHR ''{''" "b \<noteq> CHR ''[''" "b \<noteq> CHR 0x22" "b \<noteq> CHR ''t''" "b \<noteq> CHR ''f''" "b \<noteq> CHR ''n''"
        by (auto simp: is_ascii_digit_def)
      with num b have "parse_value depth p = and_then (number p) (\<lambda>(n, self). Ok (JNumber n, self))"
        by (subst parse_value.simps) simp
      with v obtain n where n: "number p = Ok (n, p')" "v = JNumber n"
        by (auto simp: and_then_Ok_iff)
      from number_keeps [OF n(1)] n(2) show ?thesis by (auto simp: sound_at_def)
    qed
  qed
qed

lemma parse_json_sound:
  assumes "parse_json input numbers = Ok v"
  shows "utf8_ok input \<and> wf_value v \<and> nesting v \<le> MAX_DEPTH \<and> (numbers = SafeInteger \<longrightarrow> no_floats v)"
proof -
  let ?p = "\<lparr>p_pos = 0, p_rest = input, p_numbers = numbers, p_path = []\<rparr>"
  from assms obtain q where u: "utf8_ok input" and "parse_value 0 (skip_ws ?p) = Ok (v, q)"
    unfolding parse_json_def by (auto simp: Let_def and_then_Ok_iff split: if_splits)
  then have "sound_at MAX_DEPTH (skip_ws ?p) v q"
    using parse_value_sound [of 0] unfolding reader_sound_def by simp
  with u keeps_skip_ws [of ?p] show ?thesis by (auto simp: sound_at_def keeps_def)
qed

end
