(* ===== verification/Proto_Properties.thy ===== *)
theory Proto_Properties
  imports Proto_Frame Json_Sound
begin

text \<open>
  The correctness properties of the wire protocol's lower layers: framing, the strict JSON reader and
  the canonical writer, and version negotiation.
\<close>

section \<open>Framing\<close>

text \<open>
  C24. The incremental decoder refines the division of the whole stream into frames: however the
  transport splits the stream into chunks, the frames delivered and the error, if any, are those of
  the concatenated stream; the bytes still buffered are exactly the unfinished frame, and fewer body
  bytes are held than the limit; after an error every further call returns the same error.
\<close>

theorem framing_refines_stream:
  "case feed_chunks FrameDecoder_new chunks of (d, frames, e) \<Rightarrow>
     frames = fst (cut_frames (concat chunks)) \<and>
     (case snd (cut_frames (concat chunks)) of
        Broken err \<Rightarrow> e = Some err \<and> (\<forall>input. feed d input = (d, Err err))
      | Rest t \<Rightarrow> e = None \<and> buffered d = t \<and> length (body d) < MAX_FRAME_BODY)"
proof -
  obtain d frames e where f: "feed_chunks FrameDecoder_new chunks = (d, frames, e)"
    by (cases "feed_chunks FrameDecoder_new chunks") auto
  have *: "frame_inv d" "poisoned d = e" "frames = fst (cut_frames (concat chunks))"
    "snd (cut_frames (concat chunks)) = (case e of Some err \<Rightarrow> Broken err | None \<Rightarrow> Rest (buffered d))"
    using feed_chunks_spec [OF frame_inv_new(1,2), of chunks] f by (simp_all add: frame_inv_new)
  have "length (body d) < MAX_FRAME_BODY" if "e = None"
  proof (cases "pending d")
    case None
    with * that show ?thesis by (simp add: frame_inv_def MAX_FRAME_BODY_def)
  next
    case (Some p)
    with * that have "parse_header (header d) = Ok (fst p, snd p)" "length (body d) < snd p"
      by (simp_all add: frame_inv_def)
    then show ?thesis using parse_header_bounds by fastforce
  qed
  with * f show ?thesis by (cases e) (auto simp: feed_def)
qed

text \<open>
  C25. Encoding and decoding frames are inverse: a stream of encoded frames decodes to exactly those
  frames, and a stream that ends inside a frame is reported as truncated.
\<close>

theorem frames_roundtrip:
  assumes "list_all2 (\<lambda>f e. encode (frame_content_type f) (frame_body f) = Ok e) frames encoded"
    and "t \<noteq> []" "snd (cut_frames t) = Rest t"
  shows "decode_all (concat encoded) = Ok frames \<and>
    decode_all (concat encoded @ t) = Err (ProtocolError_new FrameTruncated)"
proof -
  have c: "cut_frames (concat encoded @ u) = (frames @ fst (cut_frames u), snd (cut_frames u))" for u
    using assms(1) by (induction rule: list_all2_induct) (simp_all add: cut_frames_encode)
  have "cut_frames [] = ([], Rest [])" by (simp add: cut_frames_short)
  then have w: "cut_frames (concat encoded) = (frames, Rest [])" using c [of "[]"] by simp
  have d: "(case decode_loop FrameDecoder_new s of (d, fs, e) \<Rightarrow>
      frame_inv d \<and> poisoned d = e \<and> fs = fst (cut_frames s) \<and>
      snd (cut_frames s) = (case e of Some err \<Rightarrow> Broken err | None \<Rightarrow> Rest (buffered d)))" for s
    using decode_loop_spec [OF frame_inv_new(1,2), of s] by (simp add: frame_inv_new)
  have fin: "finish d = (if buffered d = [] then Ok () else Err (ProtocolError_new FrameTruncated))"
    if "frame_inv d" "poisoned d = None" for d
    using that by (cases "pending d") (auto simp: finish_def frame_inv_def buffered_def HEADER_LEN_def)
  show ?thesis
    using d [of "concat encoded"] d [of "concat encoded @ t"] w c [of t] assms(2,3) fin
    unfolding decode_all_def by (auto split: prod.splits option.splits)
qed

theorem frames_roundtrip_witness:
  "decode_all (projr (encode Json ''ab'') @ projr (encode Json ''c'')) =
     Ok [\<lparr>frame_content_type = Json, frame_body = ''ab''\<rparr>, \<lparr>frame_content_type = Json, frame_body = ''c''\<rparr>] \<and>
   decode_all (projr (encode Json ''ab'') @ projr (encode Json ''c'') @ [CHR 0x00, CHR 0x00]) =
     Err (ProtocolError_new FrameTruncated)"
proof -
  have "encode Json ''ab'' = Ok (projr (encode Json ''ab''))" "encode Json ''c'' = Ok (projr (encode Json ''c''))"
    by (simp_all add: encode_def MAX_FRAME_BODY_def)
  then show ?thesis
    using frames_roundtrip [of "[\<lparr>frame_content_type = Json, frame_body = ''ab''\<rparr>, \<lparr>frame_content_type = Json, frame_body = ''c''\<rparr>]"
        "[projr (encode Json ''ab''), projr (encode Json ''c'')]" "[CHR 0x00, CHR 0x00]"]
    by (simp add: cut_frames_short)
qed

section \<open>JSON\<close>

text \<open>
  C26. The reader inverts the canonical writer: the canonical text of a well-formed value without
  floats, within the nesting limit, reads back in every profile as the value with its members in
  canonical order, which has the same canonical text and is equal to the value.
\<close>

theorem json_canonical_roundtrip:
  assumes "wf_value v" "no_floats v" "nesting v \<le> MAX_DEPTH"
  shows "parse_json (to_canonical_bytes v) numbers = Ok (normal v) \<and>
    to_canonical_bytes (normal v) = to_canonical_bytes v \<and> Value_eq v (normal v)"
  using parse_json_print [OF assms] write_normal [of v] Value_eq_normal [OF assms(1) normal_wf [OF assms(1)]]
  by (simp add: to_canonical_bytes_def normal_idem)

definition ex_value :: Value where
  "ex_value = JObject [(''b'', JArray [JNull, JNumber (NInt (-7))]), (''a'', JString [CHR 0x0A, CHR 0xC3, CHR 0xA9])]"

lemma ex_value_wf: "wf_value ex_value" "no_floats ex_value" "nesting ex_value \<le> MAX_DEPTH"
  by code_simp+

theorem json_canonical_roundtrip_witness:
  "is_ok (parse_json (to_canonical_bytes ex_value) SafeInteger) \<and>
   projr (parse_json (to_canonical_bytes ex_value) SafeInteger) =
     JObject [(''a'', JString [CHR 0x0A, CHR 0xC3, CHR 0xA9]), (''b'', JArray [JNull, JNumber (NInt (-7))])]"
proof -
  have "normal ex_value =
      JObject [(''a'', JString [CHR 0x0A, CHR 0xC3, CHR 0xA9]), (''b'', JArray [JNull, JNumber (NInt (-7))])]"
    by code_simp
  then show ?thesis using json_canonical_roundtrip [OF ex_value_wf, of SafeInteger] by simp
qed

text \<open>
  C27. What the reader accepts is UTF-8, and the value it returns is well formed: strings and keys are
  UTF-8, no object repeats a key, integers are safe, nesting is within the limit, and the integer
  profile admits no float. In that profile the value's canonical text therefore reads back.
\<close>

theorem json_reader_sound:
  assumes "parse_json input numbers = Ok v"
  shows "utf8_ok input \<and> wf_value v \<and> nesting v \<le> MAX_DEPTH \<and>
    (numbers = SafeInteger \<longrightarrow> no_floats v \<and> parse_json (to_canonical_bytes v) SafeInteger = Ok (normal v))"
  using parse_json_sound [OF assms] parse_json_print by blast

theorem json_reader_sound_witness:
  "wf_value (projr (parse_json ''[1, -20]'' SafeInteger)) \<and> no_floats (projr (parse_json ''[1, -20]'' SafeInteger))"
proof -
  have "parse_json ''[1, -20]'' SafeInteger = Ok (JArray [JNumber (NInt 1), JNumber (NInt (-20))])"
    by code_simp
  then show ?thesis using json_reader_sound [of "''[1, -20]''" SafeInteger] by simp
qed

text \<open>
  C28. Canonicalisation decides equality: two well-formed values without floats have the same canonical
  bytes exactly when they are equal as JSON values, that is, up to the order of members.
\<close>

theorem canonical_bytes_decide_equality:
  assumes "wf_value a" "no_floats a" "nesting a \<le> MAX_DEPTH"
    and "wf_value b" "no_floats b" "nesting b \<le> MAX_DEPTH"
  shows "to_canonical_bytes a = to_canonical_bytes b \<longleftrightarrow> Value_eq a b"
  using assms by (rule canonical_iff_equal)

theorem canonical_bytes_decide_equality_witness:
  "to_canonical_bytes ex_value = to_canonical_bytes (normal ex_value) \<and> ex_value \<noteq> normal ex_value \<and>
   to_canonical_bytes ex_value \<noteq> to_canonical_bytes JNull"
proof -
  have n: "normal ex_value =
      JObject [(''a'', JString [CHR 0x0A, CHR 0xC3, CHR 0xA9]), (''b'', JArray [JNull, JNumber (NInt (-7))])]"
    by code_simp
  have "Value_eq ex_value (normal ex_value)" "wf_value (normal ex_value)" "no_floats (normal ex_value)"
      "nesting (normal ex_value) \<le> MAX_DEPTH" "\<not> Value_eq ex_value JNull" "ex_value \<noteq> normal ex_value"
    unfolding n by code_simp+
  then show ?thesis
    using canonical_bytes_decide_equality [OF ex_value_wf, of "normal ex_value"]
      canonical_bytes_decide_equality [OF ex_value_wf, of JNull] by simp
qed

section \<open>Versions and error codes\<close>

text \<open>
  C29. Negotiation picks the highest version both peers support that is not below the receiver's floor,
  and fails, as an unsupported version, exactly when there is none.
\<close>

theorem negotiation_picks_highest:
  "(negotiate offered supported minimum = Ok v \<longleftrightarrow>
      VersionRange_contains offered v \<and> VersionRange_contains supported v \<and> minimum \<le> v \<and>
      (\<forall>w. VersionRange_contains offered w \<longrightarrow> VersionRange_contains supported w \<longrightarrow> minimum \<le> w \<longrightarrow> w \<le> v)) \<and>
   ((\<exists>e. negotiate offered supported minimum = Err e \<and> pe_code e = VersionUnsupported) \<longleftrightarrow>
      (\<nexists>w. VersionRange_contains offered w \<and> VersionRange_contains supported w \<and> minimum \<le> w))"
proof (rule conjI)
  have "(\<exists>e. negotiate offered supported minimum = Err e \<and> pe_code e = VersionUnsupported) \<longleftrightarrow>
      \<not> max (max (vr_min offered) (vr_min supported)) minimum \<le> min (vr_max offered) (vr_max supported)"
    by (simp add: negotiate_def Let_def with_supported_def with_path_def with_violation_def ProtocolError_new_def)
  also have "\<dots> \<longleftrightarrow> (\<nexists>w. VersionRange_contains offered w \<and> VersionRange_contains supported w \<and> minimum \<le> w)"
  proof
    assume "\<nexists>w. VersionRange_contains offered w \<and> VersionRange_contains supported w \<and> minimum \<le> w"
    then show "\<not> max (max (vr_min offered) (vr_min supported)) minimum \<le> min (vr_max offered) (vr_max supported)"
      unfolding VersionRange_contains_def not_ex
      by (drule_tac x = "min (vr_max offered) (vr_max supported)" in spec) auto
  qed (auto simp: VersionRange_contains_def)
  finally show "(\<exists>e. negotiate offered supported minimum = Err e \<and> pe_code e = VersionUnsupported) \<longleftrightarrow>
      (\<nexists>w. VersionRange_contains offered w \<and> VersionRange_contains supported w \<and> minimum \<le> w)" .
qed (rule negotiate_exact)

theorem negotiation_picks_highest_witness:
  "VersionRange_contains \<lparr>vr_min = 2, vr_max = 3\<rparr> 3 \<and>
   \<not> (\<exists>w. VersionRange_contains \<lparr>vr_min = 1, vr_max = 2\<rparr> w \<and> VersionRange_contains \<lparr>vr_min = 1, vr_max = 4\<rparr> w \<and> 3 \<le> w)"
proof -
  have "negotiate \<lparr>vr_min = 1, vr_max = 5\<rparr> \<lparr>vr_min = 2, vr_max = 3\<rparr> 1 = Ok 3" by code_simp
  moreover have "negotiate \<lparr>vr_min = 1, vr_max = 2\<rparr> \<lparr>vr_min = 1, vr_max = 4\<rparr> 3 =
      Err (with_supported \<lparr>vr_min = 3, vr_max = 4\<rparr> (with_path ''/payload''
        (with_violation OutOfRange (ProtocolError_new VersionUnsupported))))"
    by (simp add: negotiate_def VersionRange_new_def)
  ultimately show ?thesis
    using negotiation_picks_highest [of "\<lparr>vr_min = 1, vr_max = 5\<rparr>" "\<lparr>vr_min = 2, vr_max = 3\<rparr>" 1 3]
      negotiation_picks_highest [of "\<lparr>vr_min = 1, vr_max = 2\<rparr>" "\<lparr>vr_min = 1, vr_max = 4\<rparr>" 3 0]
    by (simp add: with_supported_def with_path_def with_violation_def ProtocolError_new_def)
qed

end
