(* ===== verification/Auth_Digest.thy ===== *)
theory Auth_Digest
  imports Json_Canon
begin

text \<open>
  Domain-separated hashing (\<^verbatim>\<open>state/digest.rs\<close>) and the minting of identifiers (\<^verbatim>\<open>state/ids.rs\<close>).
  The compression function is a third-party crate: it is the argument \<open>sha\<close> of the definitions that
  use it, from bytes to bytes, and nothing is assumed about it here. The module's own work, the
  framing of what is hashed, is proved injective.
\<close>

section \<open>Domains\<close>

definition POLICY_REVISION :: string where "POLICY_REVISION = ''direwolf.policy.revision.v1''"
definition ADMIT_REQUEST :: string where "ADMIT_REQUEST = ''direwolf.dwkp.admit_run.request.v2''"
definition AUDIT_RECORD :: string where "AUDIT_RECORD = ''direwolf.audit.record.v1''"
definition RUN_GRANT :: string where "RUN_GRANT = ''direwolf.run.grant.v1''"
definition AGENT_PROFILE :: string where "AGENT_PROFILE = ''direwolf.config.agent_profile.v1''"
definition SKILL :: string where "SKILL = ''direwolf.config.skill.v1''"
definition CEILING :: string where "CEILING = ''direwolf.config.ceiling.v1''"
definition STORE_ID :: string where "STORE_ID = ''direwolf.store.id.v1''"
definition SECRET_METADATA :: string where "SECRET_METADATA = ''direwolf.secret.metadata.v1''"
definition TOOL_CONTENT :: string where "TOOL_CONTENT = ''direwolf.tool.fs_read.content.v1''"
definition TOOL_REQUEST :: string where "TOOL_REQUEST = ''direwolf.dwkp.tool_invoke.request.v2''"
definition PROCESS_ARGV :: string where "PROCESS_ARGV = ''direwolf.process.argv.v1''"
definition NET_REQUEST :: string where "NET_REQUEST = ''direwolf.dwkp.net_http.request.v1''"
definition WORKLOAD_REQUEST :: string where "WORKLOAD_REQUEST = ''direwolf.workload.request.v1''"
definition IMAGE_MANIFEST :: string where "IMAGE_MANIFEST = ''direwolf.sandbox.image_manifest.v1''"

lemmas domain_defs = POLICY_REVISION_def ADMIT_REQUEST_def AUDIT_RECORD_def RUN_GRANT_def
  AGENT_PROFILE_def SKILL_def CEILING_def STORE_ID_def SECRET_METADATA_def TOOL_CONTENT_def
  TOOL_REQUEST_def PROCESS_ARGV_def NET_REQUEST_def WORKLOAD_REQUEST_def IMAGE_MANIFEST_def

definition ALL_DOMAINS :: "string list" where
  "ALL_DOMAINS = [POLICY_REVISION, ADMIT_REQUEST, AUDIT_RECORD, RUN_GRANT, AGENT_PROFILE, SKILL, CEILING,
     STORE_ID, TOOL_CONTENT, TOOL_REQUEST, PROCESS_ARGV, NET_REQUEST, WORKLOAD_REQUEST]"

section \<open>Hashes\<close>

text \<open>A 32-byte array. The constructor is private to the module, so each value has 32 bytes.\<close>

datatype Sha256Hash = Sha256Hash (as_bytes: string)

definition Sha256Hash_ZERO :: Sha256Hash where
  "Sha256Hash_ZERO = Sha256Hash (replicate 32 (CHR 0x00))"

definition wf_hash :: "Sha256Hash \<Rightarrow> bool" where
  "wf_hash h \<longleftrightarrow> length (as_bytes h) = 32"

definition to_hex :: "Sha256Hash \<Rightarrow> string" where
  "to_hex h = concat (map (\<lambda>b. [hex_digit (byte_of b div 16), hex_digit (byte_of b mod 16)]) (as_bytes h))"

definition nibble :: "char \<Rightarrow> nat option" where
  "nibble d =
     (if 48 \<le> byte_of d \<and> byte_of d \<le> 57 then Some (byte_of d - 48)
      else if 97 \<le> byte_of d \<and> byte_of d \<le> 102 then Some (byte_of d - 97 + 10)
      else None)"

fun hex_pairs :: "string \<Rightarrow> string option" where
  "hex_pairs [] = Some []"
| "hex_pairs [_] = None"
| "hex_pairs (high # low # rest) =
     (case nibble high of
        None \<Rightarrow> None
      | Some h \<Rightarrow>
          (case nibble low of
             None \<Rightarrow> None
           | Some l \<Rightarrow> map_option (\<lambda>out. char_of (h * 16 + l) # out) (hex_pairs rest)))"

definition from_hex :: "string \<Rightarrow> Sha256Hash option" where
  "from_hex text = (if length text \<noteq> 64 then None else map_option Sha256Hash (hex_pairs text))"

lemma hex_digit_nibble: "d < 16 \<Longrightarrow> nibble (hex_digit d) = Some d"
  by (auto simp: nibble_def hex_digit_def)

lemma hex_pairs_bytes:
  "hex_pairs (concat (map (\<lambda>b. [hex_digit (byte_of b div 16), hex_digit (byte_of b mod 16)]) bs)) = Some bs"
proof (induction bs)
  case (Cons b bs)
  have "byte_of b < 256" "byte_of b div 16 * 16 + byte_of b mod 16 = byte_of b" by simp_all
  then show ?case using Cons hex_digit_nibble [of "byte_of b div 16"] hex_digit_nibble [of "byte_of b mod 16"]
    by (simp add: less_mult_imp_div_less)
qed simp

lemma length_to_hex: "length (to_hex h) = 2 * length (as_bytes h)"
  by (simp add: to_hex_def length_concat comp_def sum_list_triv)

lemma from_hex_to_hex: "wf_hash h \<Longrightarrow> from_hex (to_hex h) = Some h"
  by (simp add: from_hex_def length_to_hex wf_hash_def) (simp add: to_hex_def hex_pairs_bytes)

lemma to_hex_inject: "to_hex g = to_hex h \<longleftrightarrow> g = h"
  by (metis Sha256Hash.exhaust_sel hex_pairs_bytes option.inject to_hex_def)

lemma nibble_hex_digit: "nibble d = Some n \<Longrightarrow> hex_digit n = d \<and> n < 16"
  by (auto simp: nibble_def hex_digit_def split: if_splits)

lemma hex_pairs_text:
  "hex_pairs text = Some bs \<Longrightarrow>
     concat (map (\<lambda>b. [hex_digit (byte_of b div 16), hex_digit (byte_of b mod 16)]) bs) = text"
  by (induction "text" arbitrary: bs rule: hex_pairs.induct)
    (auto split: option.splits dest!: nibble_hex_digit)

lemma to_hex_from_hex: "from_hex text = Some h \<Longrightarrow> to_hex h = text \<and> wf_hash h"
proof -
  assume a: "from_hex text = Some h"
  then have "to_hex h = text"
    by (auto simp: from_hex_def to_hex_def split: if_splits dest: hex_pairs_text)
  with a show ?thesis
    using length_to_hex [of h] by (auto simp: from_hex_def wf_hash_def split: if_splits)
qed

lemma to_hex_ascii: "c \<in> set (to_hex h) \<Longrightarrow> byte_of c < 128"
proof -
  assume "c \<in> set (to_hex h)"
  then obtain b where "c = hex_digit (byte_of b div 16) \<or> c = hex_digit (byte_of b mod 16)"
    by (auto simp: to_hex_def)
  moreover have "byte_of (hex_digit d) < 128" if "d < 16" for d
    using that by (simp add: hex_digit_def)
  moreover have "byte_of b div 16 < 16" "byte_of b mod 16 < 16"
    using less_mult_imp_div_less [of "byte_of b" 16 16] by simp_all
  ultimately show ?thesis by blast
qed

lemma utf8_ok_to_hex [simp]: "utf8_ok (to_hex h)"
  by (rule utf8_ok_all_ascii) (rule to_hex_ascii)

section \<open>Framing\<close>

definition u64_to_be_bytes :: "nat \<Rightarrow> string" where
  "u64_to_be_bytes n = map (\<lambda>i. char_of (n div 256 ^ i)) [7, 6, 5, 4, 3, 2, 1, 0]"

text \<open>
  \<^verbatim>\<open>DomainHash\<close> is the bytes given to the hasher so far; a length past the 64-bit range saturates.
\<close>

type_synonym DomainHash = string

definition DomainHash_new :: "string \<Rightarrow> DomainHash" where
  "DomainHash_new domain = domain @ [CHR 0x00]"

definition DomainHash_bytes :: "string \<Rightarrow> DomainHash \<Rightarrow> DomainHash" where
  "DomainHash_bytes bytes self = self @ u64_to_be_bytes (min (length bytes) (2 ^ 64 - 1)) @ bytes"

definition DomainHash_text :: "string \<Rightarrow> DomainHash \<Rightarrow> DomainHash" where
  "DomainHash_text text self = DomainHash_bytes text self"

definition DomainHash_int :: "nat \<Rightarrow> DomainHash \<Rightarrow> DomainHash" where
  "DomainHash_int n self = self @ u64_to_be_bytes n"

definition copy_32 :: "string \<Rightarrow> string" where
  "copy_32 output = take 32 output @ replicate (32 - length output) (CHR 0x00)"

definition DomainHash_finish :: "(string \<Rightarrow> string) \<Rightarrow> DomainHash \<Rightarrow> Sha256Hash" where
  "DomainHash_finish sha self = Sha256Hash (copy_32 (sha self))"

definition digest_plain :: "(string \<Rightarrow> string) \<Rightarrow> string \<Rightarrow> Sha256Hash" where
  "digest_plain sha bytes = Sha256Hash (copy_32 (sha bytes))"

lemma wf_finish [simp]: "wf_hash (DomainHash_finish sha d)"
  by (simp add: wf_hash_def DomainHash_finish_def copy_32_def)

lemma wf_ZERO [simp]: "wf_hash Sha256Hash_ZERO"
  by (simp add: wf_hash_def Sha256Hash_ZERO_def)

lemma length_u64 [simp]: "length (u64_to_be_bytes n) = 8"
  by (simp add: u64_to_be_bytes_def)

text \<open>
  What is framed, as data: the laws say that a framing determines the domain and every field.
\<close>

datatype frame_field = FBytes string | FInt nat

fun frame_fields :: "frame_field list \<Rightarrow> DomainHash \<Rightarrow> DomainHash" where
  "frame_fields [] d = d"
| "frame_fields (FBytes b # fs) d = frame_fields fs (DomainHash_bytes b d)"
| "frame_fields (FInt n # fs) d = frame_fields fs (DomainHash_int n d)"

fun field_fits :: "frame_field \<Rightarrow> bool" where
  "field_fits (FBytes b) = (length b < 2 ^ 64)"
| "field_fits (FInt n) = (n < 2 ^ 64)"

fun field_shape :: "frame_field \<Rightarrow> bool" where
  "field_shape (FBytes b) = True"
| "field_shape (FInt n) = False"

lemma base256_inject:
  "(\<And>i. i < k \<Longrightarrow> m div 256 ^ i mod 256 = n div 256 ^ i mod 256) \<Longrightarrow>
     m div 256 ^ k = n div 256 ^ k \<Longrightarrow> m = (n :: nat)"
proof (induction k)
  case (Suc k)
  have "m div 256 ^ k div 256 = n div 256 ^ k div 256"
    using Suc.prems(2) by (simp only: power_Suc2 div_mult2_eq)
  then have "m div 256 ^ k = n div 256 ^ k"
    using Suc.prems(1) [of k] by (metis div_mod_decomp lessI)
  then show ?case using Suc by simp
qed simp

lemma u64_inject: "m < 2 ^ 64 \<Longrightarrow> n < 2 ^ 64 \<Longrightarrow> u64_to_be_bytes m = u64_to_be_bytes n \<Longrightarrow> m = n"
proof -
  assume m: "m < 2 ^ 64" and n: "n < 2 ^ 64" and e: "u64_to_be_bytes m = u64_to_be_bytes n"
  have b: "m div 256 ^ i mod 256 = n div 256 ^ i mod 256" if "i < 8" for i
  proof -
    have "map (\<lambda>i. byte_of (char_of (m div 256 ^ i))) [7, 6, 5, 4, 3, 2, 1, 0::nat] =
        map (\<lambda>i. byte_of (char_of (n div 256 ^ i))) [7, 6, 5, 4, 3, 2, 1, 0::nat]"
      using arg_cong [OF e, of "map byte_of"] unfolding u64_to_be_bytes_def map_map comp_def .
    then have "\<forall>i\<in>set [7, 6, 5, 4, 3, 2, 1, 0::nat]. m div 256 ^ i mod 256 = n div 256 ^ i mod 256"
      unfolding map_eq_conv by (simp only: byte_of_char_of) 
    moreover have "i \<in> set [7, 6, 5, 4, 3, 2, 1, 0::nat]" using that by auto
    ultimately show ?thesis by blast
  qed
  have "(2::nat) ^ 64 = 256 ^ 8" by simp
  then have "m div 256 ^ 8 = n div 256 ^ 8" using m n by simp
  then show ?thesis by (rule base256_inject [rotated]) (rule b)
qed

fun frame_text :: "frame_field \<Rightarrow> string" where
  "frame_text (FBytes b) = u64_to_be_bytes (min (length b) (2 ^ 64 - 1)) @ b"
| "frame_text (FInt n) = u64_to_be_bytes n"

lemma frame_fields_text: "frame_fields fs d = d @ concat (map frame_text fs)"
  by (induction fs d rule: frame_fields.induct) (simp_all add: DomainHash_bytes_def DomainHash_int_def)

lemma frame_text_inject:
  assumes "field_fits f" "field_fits g" "field_shape f = field_shape g" "frame_text f @ s = frame_text g @ t"
  shows "f = g \<and> s = t"
proof (cases f)
  case (FBytes b)
  with assms(3) obtain c where g: "g = FBytes c" by (cases g) auto
  have l: "length b < 2 ^ 64" "length c < 2 ^ 64" using assms(1,2) FBytes g by auto
  then have "u64_to_be_bytes (length b) @ (b @ s) = u64_to_be_bytes (length c) @ (c @ t)"
    using assms(4) FBytes g by simp
  then have "u64_to_be_bytes (length b) = u64_to_be_bytes (length c) \<and> b @ s = c @ t"
    by (subst (asm) append_eq_append_conv) simp_all
  with l have "length b = length c \<and> b @ s = c @ t" using u64_inject by blast
  then have "b = c \<and> s = t" using append_eq_append_conv by blast
  then show ?thesis using FBytes g by simp
next
  case (FInt m)
  with assms(3) obtain n where g: "g = FInt n" by (cases g) auto
  then have "u64_to_be_bytes m = u64_to_be_bytes n \<and> s = t"
    using assms(4) FInt by (simp add: append_eq_append_conv)
  then show ?thesis using FInt g assms(1,2) u64_inject by simp
qed

lemma frame_texts_inject:
  assumes "list_all field_fits fs" "list_all field_fits gs" "map field_shape fs = map field_shape gs"
    and "concat (map frame_text fs) = concat (map frame_text gs)"
  shows "fs = gs"
  using assms
proof (induction fs arbitrary: gs)
  case (Cons f fs)
  then obtain g gs' where g: "gs = g # gs'" by (cases gs) auto
  have "f = g \<and> concat (map frame_text fs) = concat (map frame_text gs')"
    by (rule frame_text_inject) (use Cons.prems g in simp_all)
  then show ?case using Cons.IH [of gs'] Cons.prems g by simp
qed simp

lemma domain_terminated:
  "CHR 0x00 \<notin> set a \<Longrightarrow> CHR 0x00 \<notin> set b \<Longrightarrow> a @ CHR 0x00 # s = b @ CHR 0x00 # t \<Longrightarrow> a = b \<and> s = t"
proof (induction a arbitrary: b)
  case Nil
  then show ?case by (cases b) auto
next
  case (Cons x a)
  then show ?case by (cases b) auto
qed

lemma framing_inject:
  assumes "CHR 0x00 \<notin> set d" "CHR 0x00 \<notin> set e"
    and "list_all field_fits fs" "list_all field_fits gs"
    and "d = e \<longrightarrow> map field_shape fs = map field_shape gs"
    and "frame_fields fs (DomainHash_new d) = frame_fields gs (DomainHash_new e)"
  shows "d = e \<and> fs = gs"
proof -
  have "d = e \<and> concat (map frame_text fs) = concat (map frame_text gs)"
    using domain_terminated [OF assms(1,2)] assms(6) by (simp add: frame_fields_text DomainHash_new_def)
  then show ?thesis using frame_texts_inject assms(3-5) by blast
qed

lemma all_domains: "distinct ALL_DOMAINS \<and> list_all (\<lambda>d. CHR 0x00 \<notin> set d) ALL_DOMAINS"
  by (simp add: ALL_DOMAINS_def domain_defs)

section \<open>Identifiers\<close>

definition MAX_ID_COUNTER :: nat where "MAX_ID_COUNTER = 2 ^ 42 - 1"
definition MAX_TS_MS :: nat where "MAX_TS_MS = 2 ^ 48 - 1"

unbundle bit_operations_syntax

definition uuid7 :: "nat \<Rightarrow> nat \<Rightarrow> nat \<Rightarrow> 128 word option" where
  "uuid7 ts_ms counter store_instance =
     (if MAX_TS_MS < ts_ms \<or> MAX_ID_COUNTER < counter then None
      else let ts = of_nat ts_ms :: 128 word;
               counter = of_nat counter :: 128 word;
               rand_a = drop_bit 30 counter AND 0x0fff;
               rand_b = push_bit 32 (counter AND 0x3fffffff) OR of_nat store_instance
           in Some (push_bit 80 ts OR push_bit 76 7 OR push_bit 64 rand_a OR push_bit 62 2 OR rand_b))"

lemma bit_7: "bit (7 :: 128 word) n \<longleftrightarrow> n < 3"
  using bit_mask_iff [where 'a = "128 word", of 3 n] by (auto simp: mask_eq_exp_minus_1)

lemma bit_2: "bit (2 :: 128 word) n \<longleftrightarrow> n = 1"
  using bit_exp_iff [where 'a = "128 word", of 1 n] by auto

lemma bit_0fff: "bit (0x0fff :: 128 word) n \<longleftrightarrow> n < 12"
  using bit_mask_iff [where 'a = "128 word", of 12 n] by (auto simp: mask_eq_exp_minus_1)

lemma bit_3fffffff: "bit (0x3fffffff :: 128 word) n \<longleftrightarrow> n < 30"
  using bit_mask_iff [where 'a = "128 word", of 30 n] by (auto simp: mask_eq_exp_minus_1)

lemma bit_of_nat128: "bit (of_nat m :: 128 word) n \<longleftrightarrow> n < 128 \<and> bit m n"
  by (simp add: bit_of_nat_iff)

lemma bit_nat_bound: "m < 2 ^ k \<Longrightarrow> k \<le> n \<Longrightarrow> \<not> bit (m :: nat) n"
  by (metis bit_take_bit_iff leD take_bit_nat_eq_self)

lemma bit_push128: "bit (push_bit m (a :: 128 word)) n \<longleftrightarrow> m \<le> n \<and> n < 128 \<and> bit a (n - m)"
  by (simp add: bit_push_bit_iff)

lemma uuid7_parts:
  fixes ts c :: nat
  defines "w \<equiv> (of_nat c :: 128 word)"
  shows "bit (push_bit 80 (of_nat ts :: 128 word)) n \<longleftrightarrow> 80 \<le> n \<and> n < 128 \<and> bit ts (n - 80)"
    and "bit (push_bit 76 (7 :: 128 word)) n \<longleftrightarrow> 76 \<le> n \<and> n < 79"
    and "bit (push_bit 64 (drop_bit 30 w AND 0x0fff)) n \<longleftrightarrow> 64 \<le> n \<and> n < 76 \<and> bit c (n - 34)"
    and "bit (push_bit 62 (2 :: 128 word)) n \<longleftrightarrow> n = 63"
    and "bit (push_bit 32 (w AND 0x3fffffff)) n \<longleftrightarrow> 32 \<le> n \<and> n < 62 \<and> bit c (n - 32)"
proof -
  have "64 \<le> n \<Longrightarrow> 30 + (n - 64) = n - 34" by simp
  then show "bit (push_bit 64 (drop_bit 30 w AND 0x0fff)) n \<longleftrightarrow> 64 \<le> n \<and> n < 76 \<and> bit c (n - 34)"
    unfolding bit_push128 bit_and_iff bit_drop_bit_eq comp_def bit_0fff w_def bit_of_nat128 by auto
  show "bit (push_bit 80 (of_nat ts :: 128 word)) n \<longleftrightarrow> 80 \<le> n \<and> n < 128 \<and> bit ts (n - 80)"
    unfolding bit_push128 bit_of_nat128 by auto
  show "bit (push_bit 76 (7 :: 128 word)) n \<longleftrightarrow> 76 \<le> n \<and> n < 79"
    unfolding bit_push128 bit_7 by auto
  show "bit (push_bit 62 (2 :: 128 word)) n \<longleftrightarrow> n = 63"
    unfolding bit_push128 bit_2 by auto
  show "bit (push_bit 32 (w AND 0x3fffffff)) n \<longleftrightarrow> 32 \<le> n \<and> n < 62 \<and> bit c (n - 32)"
    unfolding bit_push128 bit_and_iff bit_3fffffff w_def bit_of_nat128 by auto
qed

lemma uuid7_bit:
  assumes "uuid7 ts c i = Some u"
  shows "bit u n \<longleftrightarrow>
     80 \<le> n \<and> n < 128 \<and> bit ts (n - 80) \<or> 76 \<le> n \<and> n < 79 \<or> 64 \<le> n \<and> n < 76 \<and> bit c (n - 34) \<or>
     n = 63 \<or> 32 \<le> n \<and> n < 62 \<and> bit c (n - 32) \<or> n < 128 \<and> bit i n"
proof -
  let ?c = "of_nat c :: 128 word"
  have "u = push_bit 80 (of_nat ts) OR push_bit 76 7 OR push_bit 64 (drop_bit 30 ?c AND 0x0fff) OR
      push_bit 62 2 OR (push_bit 32 (?c AND 0x3fffffff) OR of_nat i)"
    using assms unfolding uuid7_def Let_def by (simp only: option.inject option.distinct split: if_splits)
  then show ?thesis by (simp only: bit_or_iff uuid7_parts bit_of_nat128 disj_assoc)
qed

lemma nat_bits_eq:
  "(\<And>n. n < k \<Longrightarrow> bit (a :: nat) n = bit b n) \<Longrightarrow> a < 2 ^ k \<Longrightarrow> b < 2 ^ k \<Longrightarrow> a = b"
  by (rule bit_eqI) (metis bit_nat_bound not_less)

lemma uuid7_inject:
  assumes u: "uuid7 ts c i = Some u" and v: "uuid7 ts' c' i' = Some u"
    and i: "i < 2 ^ 32" "i' < 2 ^ 32"
  shows "ts = ts' \<and> c = c' \<and> i = i'"
proof -
  note b = uuid7_bit [OF u] and b' = uuid7_bit [OF v]
  have "ts < 2 ^ 48" "ts' < 2 ^ 48" "c < 2 ^ 42" "c' < 2 ^ 42"
    using u v by (auto simp: uuid7_def MAX_TS_MS_def MAX_ID_COUNTER_def split: if_splits)
  moreover have "bit ts n = bit ts' n" if "n < 48" for n
    using that b [of "80 + n"] b' [of "80 + n"] bit_nat_bound [OF i(1), of "80 + n"]
      bit_nat_bound [OF i(2), of "80 + n"] by simp
  moreover have "bit c n = bit c' n" if "n < 42" for n
  proof (cases "n < 30")
    case True
    then show ?thesis
      using b [of "32 + n"] b' [of "32 + n"] bit_nat_bound [OF i(1), of "32 + n"]
        bit_nat_bound [OF i(2), of "32 + n"] by auto
  next
    case False
    then obtain k where "n = 30 + k" using le_Suc_ex not_less by blast
    then show ?thesis
      using that b [of "64 + k"] b' [of "64 + k"] bit_nat_bound [OF i(1), of "64 + k"]
        bit_nat_bound [OF i(2), of "64 + k"] by simp
  qed
  moreover have "bit i n = bit i' n" if "n < 32" for n
    using that b [of n] b' [of n] by auto
  ultimately show ?thesis using i nat_bits_eq by blast
qed

end
