(* ===== verification/Wire_Id.thy ===== *)
theory Wire_Id
  imports Auth_Digest
begin

text \<open>
  Prefixed identifiers (\<^verbatim>\<open>dwk-proto/src/wire/id.rs\<close>): a UUIDv7 in 26 characters of Crockford base32
  behind a prefix. A 128-bit value is a natural number below \<open>2 ^ 128\<close>. The laws: encoding and
  decoding are inverse, so an identifier has one spelling, and every identifier the store mints
  is accepted and different from every other.
\<close>

definition ALPHABET :: string where "ALPHABET = ''0123456789ABCDEFGHJKMNPQRSTVWXYZ''"
definition ENCODED_LEN :: nat where "ENCODED_LEN = 26"

definition alphabet_position :: "char \<Rightarrow> nat option" where
  "alphabet_position b = find (\<lambda>i. ALPHABET ! i = b) [0..<32]"

fun decode_digits :: "bool \<Rightarrow> nat \<Rightarrow> string \<Rightarrow> nat option" where
  "decode_digits first value [] = Some value"
| "decode_digits first value (byte # rest) =
     (case alphabet_position byte of
        None \<Rightarrow> None
      | Some digit \<Rightarrow>
          if first \<and> 7 < digit then None
          else if 2 ^ 128 \<le> value * 32 then None
          else if 2 ^ 128 \<le> value * 32 + digit then None
          else decode_digits False (value * 32 + digit) rest)"

definition is_uuid7 :: "nat \<Rightarrow> bool" where
  "is_uuid7 value \<longleftrightarrow> drop_bit 76 value AND 0xF = 7 \<and> drop_bit 62 value AND 3 = 2"

definition decode_uuid7 :: "string \<Rightarrow> nat option" where
  "decode_uuid7 body =
     (if length body \<noteq> ENCODED_LEN then None
      else case decode_digits True 0 body of
          None \<Rightarrow> None
        | Some value \<Rightarrow> if is_uuid7 value then Some value else None)"

fun encode_digits :: "nat \<Rightarrow> nat \<Rightarrow> string" where
  "encode_digits 0 v = []"
| "encode_digits (Suc n) v = encode_digits n (drop_bit 5 v) @ [ALPHABET ! (v AND 31)]"

definition encode_uuid :: "nat \<Rightarrow> string" where
  "encode_uuid value = encode_digits ENCODED_LEN value"

text \<open>\<^verbatim>\<open>wire_id!\<close> declares one type per prefix; the prefix is the argument here.\<close>

definition id_parse :: "string \<Rightarrow> string \<Rightarrow> string option" where
  "id_parse prefix' s =
     (case strip_prefix (prefix' @ ''_'') s of
        None \<Rightarrow> None
      | Some body \<Rightarrow> map_option (\<lambda>_. s) (decode_uuid7 body))"

definition id_from_uuid :: "string \<Rightarrow> nat \<Rightarrow> string option" where
  "id_from_uuid prefix' value = id_parse prefix' (prefix' @ ''_'' @ encode_uuid value)"

definition RunId_parse :: "string \<Rightarrow> string option" where "RunId_parse = id_parse ''run''"
definition RunId_from_uuid :: "nat \<Rightarrow> string option" where "RunId_from_uuid = id_from_uuid ''run''"
definition CapId_from_uuid :: "nat \<Rightarrow> string option" where "CapId_from_uuid = id_from_uuid ''cap''"
definition SessionId_parse :: "string \<Rightarrow> string option" where "SessionId_parse = id_parse ''ses''"
definition EnvironmentId_from_uuid :: "nat \<Rightarrow> string option" where "EnvironmentId_from_uuid = id_from_uuid ''env''"
definition InvocationId_from_uuid :: "nat \<Rightarrow> string option" where "InvocationId_from_uuid = id_from_uuid ''inv''"
definition ProcessId_from_uuid :: "nat \<Rightarrow> string option" where "ProcessId_from_uuid = id_from_uuid ''prc''"

definition AnyId_parse :: "string \<Rightarrow> string option" where
  "AnyId_parse s =
     (case split_once CHR ''_'' s of
        None \<Rightarrow> None
      | Some (prefix', body) \<Rightarrow>
          if (2 \<le> length prefix' \<and> length prefix' \<le> 8 \<and> list_all is_ascii_lowercase prefix') \<and>
             decode_uuid7 body \<noteq> None
          then Some s else None)"

definition AnyId_prefix :: "string \<Rightarrow> string" where
  "AnyId_prefix s = (case split_once CHR ''_'' s of None \<Rightarrow> [] | Some (p, _) \<Rightarrow> p)"

section \<open>Digits\<close>

lemma alphabet_position_nth: "d < 32 \<Longrightarrow> alphabet_position (ALPHABET ! d) = Some d"
proof -
  have "\<forall>d\<in>set [0..<32]. alphabet_position (ALPHABET ! d) = Some d" by code_simp
  then show "d < 32 \<Longrightarrow> ?thesis" by simp
qed

lemma alphabet_position_Some: "alphabet_position b = Some d \<Longrightarrow> d < 32 \<and> ALPHABET ! d = b"
  by (auto simp: alphabet_position_def find_Some_iff)

lemma and31: "v AND 31 = v mod (32::nat)"
  using take_bit_eq_mask [of 5 v] by (simp add: mask_eq_exp_minus_1 take_bit_eq_mod)

lemma drop5: "drop_bit 5 v = v div (32::nat)"
  by (simp add: drop_bit_eq_div)

lemma length_encode_digits [simp]: "length (encode_digits n v) = n"
  by (induction n arbitrary: v) simp_all

lemma decode_digits_append:
  "s \<noteq> [] \<Longrightarrow> decode_digits first v (s @ t) =
     (case decode_digits first v s of None \<Rightarrow> None | Some w \<Rightarrow> decode_digits False w t)"
proof (induction s arbitrary: first v)
  case (Cons b s)
  then show ?case by (cases s) (auto split: option.splits)
qed simp

lemma decode_encode_digits:
  "0 < n \<Longrightarrow> v < 32 ^ n \<Longrightarrow> v < 2 ^ 128 \<Longrightarrow> (first \<longrightarrow> v < 8 * 32 ^ (n - 1)) \<Longrightarrow>
     decode_digits first 0 (encode_digits n v) = Some v"
proof (induction n arbitrary: v)
  case (Suc n)
  show ?case
  proof (cases n)
    case 0
    then show ?thesis using Suc.prems by (auto simp: and31 alphabet_position_nth)
  next
    case (Suc m)
    have bound: "v div 32 < 8 * 32 ^ (n - 1)" if "v < 8 * 32 ^ (Suc n - 1)"
      using that Suc by (simp add: less_mult_imp_div_less ac_simps)
    have "v div 32 < 32 ^ n" using Suc.prems(2) by (simp add: less_mult_imp_div_less ac_simps)
    moreover have "v div 32 < 2 ^ 128" using Suc.prems(3) by (meson div_le_dividend le_less_trans)
    ultimately have "decode_digits first 0 (encode_digits n (v div 32)) = Some (v div 32)"
      using Suc.IH [of "v div 32"] Suc.prems(4) bound Suc by blast
    moreover have "encode_digits n (v div 32) \<noteq> []" using Suc by simp
    moreover have "v div 32 * 32 < 2 ^ 128"
      by (rule le_less_trans [OF _ Suc.prems(3)]) (metis div_times_less_eq_dividend)
    moreover have "v div 32 * 32 + v mod 32 = v" by simp
    ultimately show ?thesis
      using Suc.prems(3)
      by (simp add: and31 drop5 decode_digits_append alphabet_position_nth del: power_numeral)
  qed
qed simp

lemma decode_digits_encode:
  "decode_digits first 0 s = Some v \<Longrightarrow> encode_digits (length s) v = s \<and> v < 32 ^ length s \<and> v < 2 ^ 128"
proof (induction s arbitrary: v rule: rev_induct)
  case (snoc b s)
  then obtain w where w: "decode_digits first 0 s = Some w" "decode_digits (first \<and> s = []) w [b] = Some v"
    by (cases "s = []") (auto simp: decode_digits_append split: option.splits)
  obtain d where d: "alphabet_position b = Some d" "v = w * 32 + d" "v < 2 ^ 128"
    using w(2) by (auto split: option.splits if_splits)
  have "d < 32" "ALPHABET ! d = b" using alphabet_position_Some [OF d(1)] by auto
  moreover have "w < 32 ^ length s" "encode_digits (length s) w = s" using snoc.IH [OF w(1)] by auto
  moreover have "w * 32 + d < 32 ^ length s * 32"
  proof -
    have "Suc w * 32 \<le> 32 ^ length s * 32" using \<open>w < 32 ^ length s\<close> by (intro mult_le_mono1) simp
    then show ?thesis using \<open>d < 32\<close> by simp
  qed
  ultimately show ?case using d by (simp add: and31 drop5 mult.commute)
qed simp

lemma decode_encode_uuid: "is_uuid7 v \<Longrightarrow> v < 2 ^ 128 \<Longrightarrow> decode_uuid7 (encode_uuid v) = Some v"
  using decode_encode_digits [of ENCODED_LEN v True]
  by (simp add: decode_uuid7_def encode_uuid_def ENCODED_LEN_def)

lemma encode_decode_uuid: "decode_uuid7 body = Some v \<Longrightarrow> encode_uuid v = body \<and> is_uuid7 v \<and> v < 2 ^ 128"
  using decode_digits_encode [of True body v]
  by (auto simp: decode_uuid7_def encode_uuid_def split: if_splits option.splits)

section \<open>Identifiers\<close>

lemma id_parse_iff:
  "id_parse p s = Some t \<longleftrightarrow> t = s \<and> (\<exists>v. is_uuid7 v \<and> v < 2 ^ 128 \<and> s = p @ ''_'' @ encode_uuid v)"
proof -
  have "id_parse p s = Some t \<longleftrightarrow> t = s \<and> (\<exists>body v. s = p @ ''_'' @ body \<and> decode_uuid7 body = Some v)"
  proof (cases "strip_prefix (p @ ''_'') s")
    case None
    then have "s \<noteq> p @ ''_'' @ body" for body using strip_prefix_Some [of "p @ ''_''" s body] by auto
    then show ?thesis using None by (auto simp: id_parse_def)
  next
    case (Some body)
    then have "s = (p @ ''_'') @ body" using strip_prefix_Some by blast
    then show ?thesis using Some by (auto simp: id_parse_def)
  qed
  also have "\<dots> \<longleftrightarrow> t = s \<and> (\<exists>v. is_uuid7 v \<and> v < 2 ^ 128 \<and> s = p @ ''_'' @ encode_uuid v)"
    using decode_encode_uuid encode_decode_uuid by metis
  finally show ?thesis .
qed

lemma encode_uuid_inject: "v < 2 ^ 128 \<Longrightarrow> w < 2 ^ 128 \<Longrightarrow> encode_uuid v = encode_uuid w \<Longrightarrow> v = w"
  using decode_encode_digits [of ENCODED_LEN v False] decode_encode_digits [of ENCODED_LEN w False]
  by (simp add: encode_uuid_def ENCODED_LEN_def)

lemma nat_masks: "(v::nat) AND 0xF = take_bit 4 v" "v AND 3 = take_bit 2 v"
  using take_bit_eq_mask [of 4 v] take_bit_eq_mask [of 2 v] by (simp_all add: mask_eq_exp_minus_1)

lemma uuid7_is_uuid7:
  assumes u: "uuid7 ts c i = Some u" and i: "i < 2 ^ 32"
  shows "is_uuid7 (unat u)"
proof -
  have z: "\<not> bit i n" if "32 \<le> n" for n using bit_nat_bound [OF i that] .
  have v: "bit (take_bit 4 (drop_bit 76 (unat u))) n \<longleftrightarrow> bit (7::nat) n" for n
    using uuid7_bit [OF u, of "76 + n"] z [of "76 + n"] bit_mask_iff [where 'a = nat, of 3 n]
    by (auto simp: bit_take_bit_iff bit_drop_bit_eq bit_unsigned_iff mask_eq_exp_minus_1)
  have w: "bit (take_bit 2 (drop_bit 62 (unat u))) n \<longleftrightarrow> bit (2::nat) n" for n
    using uuid7_bit [OF u, of "62 + n"] z [of "62 + n"] bit_exp_iff [where 'a = nat, of 1 n]
    by (auto simp: bit_take_bit_iff bit_drop_bit_eq bit_unsigned_iff)
  show ?thesis unfolding is_uuid7_def nat_masks using bit_eqI [OF v] bit_eqI [OF w] by blast
qed

lemma minted_id:
  assumes "uuid7 ts c i = Some u" "i < 2 ^ 32"
  shows "id_from_uuid p (unat u) = Some (p @ ''_'' @ encode_uuid (unat u))"
  using uuid7_is_uuid7 [OF assms] unsigned_less [where 'a = nat, of u] by (auto simp: id_from_uuid_def id_parse_iff)

end
