(* ===== verification/Auth_Error.thy ===== *)
theory Auth_Error
  imports Wire_Id
begin

text \<open>
  The errors of the durable authority (\<^verbatim>\<open>state/error.rs\<close>, \<^verbatim>\<open>state/crash.rs\<close>), what a SQLite error
  means for the store (\<^verbatim>\<open>classify\<close> of \<^verbatim>\<open>state/db.rs\<close>), the identities of a caller
  (\<^verbatim>\<open>state/identity.rs\<close>) and the vocabulary of refusals (\<^verbatim>\<open>dwk-proto/src/wire/scalar.rs\<close>).
\<close>

section \<open>Crash points and errors\<close>

datatype CrashPoint = BeforeTransaction | BeforeCommit | AfterCommitBeforeAudit | MidAuditRecord
  | AfterAuditWriteBeforeSync | AfterAuditSyncBeforeMark | AfterAuditMark | ToolAfterIntent | ToolAfterOpen
  | ToolAfterBroker | ToolAfterOutcome | SecretBeforeMetadata | SecretAfterMetadata | SecretAfterIntent
  | SecretAfterBackend | SecretAfterRegister | SecretAfterHandoff | SecretAfterBroker | SecretBeforeOutcome
  | SecretAfterOutcome | EnvironmentAfterIntent | EnvironmentAfterBroker | EnvironmentAfterOutcome
  | EnvironmentDestroyAfterIntent | EnvironmentDestroyAfterBroker | NetAfterResolve | NetAfterIntent
  | NetAfterBroker | NetAfterOutcome | WorkloadAfterIntent | WorkloadAfterStart | WorkloadAfterBroker
  | WorkloadAfterOutcome | ReleaseAfterIntent | ReapAfterIntent

datatype HookAction = Continue | Stop

datatype PoisonReason = Corrupt | NotADatabase | StorageIo | AuditIo | AuditDiverged string | Interrupted CrashPoint

fun is_structural :: "PoisonReason \<Rightarrow> bool" where
  "is_structural Corrupt = True"
| "is_structural NotADatabase = True"
| "is_structural (AuditDiverged _) = True"
| "is_structural _ = False"

datatype AuthorityError = Poisoned PoisonReason | Busy | Rejected string | Invariant string
  | IdSpaceExhausted | EpochExhausted | NotAnAuthorityRequest | Sqlite string

section \<open>SQLite errors\<close>

text \<open>
  Of a \<^verbatim>\<open>rusqlite::Error\<close> the code reads the result code and the message. A constraint or a trigger
  of the schema that refuses a statement is \<open>ConstraintViolation\<close> with the text of the schema.
\<close>

datatype SqlErrorCode = DatabaseCorrupt | NotADatabaseCode | SystemIoFailure | DatabaseBusy | DatabaseLocked
  | ConstraintViolation | OtherCode

record SqliteError =
  sqlite_error_code :: "SqlErrorCode option"
  error_text :: string

definition constraint_error :: "string \<Rightarrow> SqliteError" where
  "constraint_error why = \<lparr>sqlite_error_code = Some ConstraintViolation, error_text = why\<rparr>"

datatype Class = ClassPoison PoisonReason | ClassBusy | ClassConstraint string | ClassOther string

definition classify :: "SqliteError \<Rightarrow> Class" where
  "classify error =
     (case sqlite_error_code error of
        Some DatabaseCorrupt \<Rightarrow> ClassPoison Corrupt
      | Some NotADatabaseCode \<Rightarrow> ClassPoison NotADatabase
      | Some SystemIoFailure \<Rightarrow> ClassPoison StorageIo
      | Some DatabaseBusy \<Rightarrow> ClassBusy
      | Some DatabaseLocked \<Rightarrow> ClassBusy
      | Some ConstraintViolation \<Rightarrow> ClassConstraint (error_text error)
      | _ \<Rightarrow> ClassOther (error_text error))"

fun to_error :: "Class \<Rightarrow> AuthorityError" where
  "to_error (ClassPoison reason) = Poisoned reason"
| "to_error ClassBusy = Busy"
| "to_error (ClassConstraint why) = Rejected why"
| "to_error (ClassOther why) = Sqlite why"

lemma constraint_rejected [simp]: "to_error (classify (constraint_error why)) = Rejected why"
  by (simp add: classify_def constraint_error_def)

section \<open>Who is asking\<close>

datatype AuthenticatedSubject = unix_uid (uid: nat)

definition storage_key :: "AuthenticatedSubject \<Rightarrow> string" where
  "storage_key s = ''uid:'' @ show_nat (uid s)"

record LeaseHolder =
  incarnation :: nat
  connection :: nat

definition LeaseHolder_to_string :: "LeaseHolder \<Rightarrow> string" where
  "LeaseHolder_to_string h = show_nat (incarnation h) @ '':'' @ show_nat (connection h)"

record CallerContext =
  subject :: AuthenticatedSubject
  holder :: LeaseHolder

definition holder_pair :: "CallerContext \<Rightarrow> nat \<times> nat" where
  "holder_pair caller = (incarnation (holder caller), connection (holder caller))"

section \<open>Refusals\<close>

datatype RefusedOperation = AcquireLease | ReleaseLease | Heartbeat | AdmitRun | ReleaseRun | QueryAuthority

fun RefusedOperation_as_str :: "RefusedOperation \<Rightarrow> string" where
  "RefusedOperation_as_str AcquireLease = ''ACQUIRE_LEASE''"
| "RefusedOperation_as_str ReleaseLease = ''RELEASE_LEASE''"
| "RefusedOperation_as_str Heartbeat = ''HEARTBEAT''"
| "RefusedOperation_as_str AdmitRun = ''ADMIT_RUN''"
| "RefusedOperation_as_str ReleaseRun = ''RELEASE_RUN''"
| "RefusedOperation_as_str QueryAuthority = ''QUERY_AUTHORITY''"

datatype RefusalReason = StaleEpoch | LeaseHeld | IdempotencyConflict | AdmissionEnded | UnknownAgentProfile
  | UnknownRun | NoCanonicalAction

fun RefusalReason_as_str :: "RefusalReason \<Rightarrow> string" where
  "RefusalReason_as_str StaleEpoch = ''STALE_EPOCH''"
| "RefusalReason_as_str LeaseHeld = ''LEASE_HELD''"
| "RefusalReason_as_str IdempotencyConflict = ''IDEMPOTENCY_CONFLICT''"
| "RefusalReason_as_str AdmissionEnded = ''ADMISSION_ENDED''"
| "RefusalReason_as_str UnknownAgentProfile = ''UNKNOWN_AGENT_PROFILE''"
| "RefusalReason_as_str UnknownRun = ''UNKNOWN_RUN''"
| "RefusalReason_as_str NoCanonicalAction = ''NO_CANONICAL_ACTION''"

datatype 'a Reply = Done 'a | Refused RefusalReason

section \<open>Integer columns\<close>

text \<open>A SQLite integer is an \<^verbatim>\<open>i64\<close>; the code works on \<^verbatim>\<open>u64\<close>, with a checked conversion each way.\<close>

definition U64_MAX :: nat where "U64_MAX = 2 ^ 64 - 1"
definition I64_MAX :: nat where "I64_MAX = 2 ^ 63 - 1"

definition saturating_add :: "nat \<Rightarrow> nat \<Rightarrow> nat" where
  "saturating_add a b = min (a + b) U64_MAX"

definition u64_try_from :: "int \<Rightarrow> nat option" where
  "u64_try_from i = (if i < 0 then None else Some (nat i))"

definition to_sql :: "nat \<Rightarrow> (int, AuthorityError) result" where
  "to_sql n = (if n \<le> I64_MAX then Ok (int n) else Err (Invariant ''a value exceeds i64''))"

lemma to_sql_Ok: "to_sql n = Ok i \<longleftrightarrow> i = int n \<and> n \<le> I64_MAX"
  by (auto simp: to_sql_def)

lemma u64_try_from_int [simp]: "u64_try_from (int n) = Some n"
  by (simp add: u64_try_from_def)

lemma u64_try_from_Some: "u64_try_from i = Some n \<longleftrightarrow> i = int n"
  by (auto simp: u64_try_from_def)

lemma storage_key_inject: "storage_key s = storage_key t \<longleftrightarrow> s = t"
proof -
  have "show_nat m = show_nat n \<longleftrightarrow> m = n" for m n by (metis nat_of_digits_show_nat)
  then show ?thesis by (cases s; cases t) (simp add: storage_key_def)
qed

lemma utf8_ok_storage_key [simp]: "utf8_ok (storage_key s)"
  by (simp add: storage_key_def utf8_ok_show_nat)

lemma utf8_ok_holder [simp]: "utf8_ok (LeaseHolder_to_string h)"
  by (simp add: LeaseHolder_to_string_def utf8_ok_append utf8_ok_show_nat)

lemma utf8_ok_refusal [simp]: "utf8_ok (RefusalReason_as_str r)" "utf8_ok (RefusedOperation_as_str p)"
  by (cases r; simp) (cases p; simp)

end
