(* ===== verification/Auth_Audit.thy ===== *)
theory Auth_Audit
  imports Auth_Error
begin

text \<open>
  The records of the audit chain (\<^verbatim>\<open>state/audit.rs\<close>, first half): events, their fields, the canonical
  record, the hash chain, the append to the outbox inside a transaction, and the verification of
  one line. The tables \<^verbatim>\<open>audit_head\<close>, \<^verbatim>\<open>audit_chain\<close> and \<^verbatim>\<open>audit_state\<close> of the schema are a record,
  and each statement on them is a function that applies the schema's triggers and constraints.
  The digest is the argument \<open>sha\<close>.
\<close>

section \<open>Events and fields\<close>

definition AUDIT_FORMAT_VERSION :: nat where "AUDIT_FORMAT_VERSION = 1"
definition MAX_RECORD_BYTES :: nat where "MAX_RECORD_BYTES = 256 * 1024"
definition AUDIT_MAX_SAFE_INTEGER :: nat where "AUDIT_MAX_SAFE_INTEGER = 9007199254740991"
definition RESERVED_KEYS :: "string list" where
  "RESERVED_KEYS = [''v'', ''seq'', ''prev'', ''ts_ms'', ''event'', ''hash'']"

datatype AuditEvent =
    StoreCreated | StoreOpened | PolicyInstalled | AuthorityActivated | AgentProfileInstalled
    | SkillInstalled | WorkspaceInstalled | SessionWorkspaceBound | LeaseAcquired | LeaseReleased
    | LeaseRefused | RunAdmitted | RunAdmitReplayed | RunAdmitRefused | RunReleased | RunReaped
    | RunReleaseRefused | AuthorityDecision | QueryRefused | TaintRaised | TransportPeerRefused
    | TransportConnectionRefused | TransportProtocolViolation | TransportAuditSuppressed
    | WorkspaceRootInstalled | StoreMigrated | ToolDenied | ToolRefused | ToolPreviewed
    | ToolIntentRecorded | ToolCompleted | ToolFailed | ToolInterrupted | ToolOutcomeUnknown
    | ToolStagingSettled | SecretConfigured | SecretRevoked | SecretFingerprinted | SecretDenied
    | SecretIntentRecorded | SecretResolved | SecretInjected | SecretFailed | SecretOutcomeUnknown
    | SecretRedactionHit | EnvironmentIntentRecorded | EnvironmentReady | EnvironmentRefused
    | EnvironmentOutcomeUnknown | EnvironmentMeasured | EnvironmentDrifted | EnvironmentDestroyIntent
    | EnvironmentDestroyed | EnvironmentDestroyFailed | EnvironmentLost | EnvironmentReconciled
    | EnvironmentOrphanReaped | NetResolved | NetIntentRecorded | NetHopEnded | NetRedirectEnded
    | NetOutcome | WorkloadIntentRecorded | WorkloadRefused | WorkloadDenied | WorkloadOutcome

definition AuditEvent_ALL :: "AuditEvent list" where
  "AuditEvent_ALL = [
     StoreCreated, StoreOpened, PolicyInstalled, AuthorityActivated, AgentProfileInstalled,
     SkillInstalled, WorkspaceInstalled, SessionWorkspaceBound, LeaseAcquired, LeaseReleased,
     LeaseRefused, RunAdmitted, RunAdmitReplayed, RunAdmitRefused, RunReleased, RunReaped,
     RunReleaseRefused, AuthorityDecision, QueryRefused, TaintRaised, TransportPeerRefused,
     TransportConnectionRefused, TransportProtocolViolation, TransportAuditSuppressed,
     WorkspaceRootInstalled, StoreMigrated, ToolDenied, ToolRefused, ToolPreviewed, ToolIntentRecorded,
     ToolCompleted, ToolFailed, ToolInterrupted, ToolOutcomeUnknown, ToolStagingSettled,
     SecretConfigured, SecretRevoked, SecretFingerprinted, SecretDenied, SecretIntentRecorded,
     SecretResolved, SecretInjected, SecretFailed, SecretOutcomeUnknown, SecretRedactionHit,
     EnvironmentIntentRecorded, EnvironmentReady, EnvironmentRefused, EnvironmentOutcomeUnknown,
     EnvironmentMeasured, EnvironmentDrifted, EnvironmentDestroyIntent, EnvironmentDestroyed,
     EnvironmentDestroyFailed, EnvironmentLost, EnvironmentReconciled, EnvironmentOrphanReaped,
     NetResolved, NetIntentRecorded, NetHopEnded, NetRedirectEnded, NetOutcome, WorkloadIntentRecorded,
     WorkloadRefused, WorkloadDenied, WorkloadOutcome]"

fun AuditEvent_as_str :: "AuditEvent \<Rightarrow> string" where
  "AuditEvent_as_str StoreCreated = ''store.created''"
| "AuditEvent_as_str StoreOpened = ''store.opened''"
| "AuditEvent_as_str PolicyInstalled = ''policy.installed''"
| "AuditEvent_as_str AuthorityActivated = ''authority.activated''"
| "AuditEvent_as_str AgentProfileInstalled = ''config.agent_profile_installed''"
| "AuditEvent_as_str SkillInstalled = ''config.skill_installed''"
| "AuditEvent_as_str WorkspaceInstalled = ''config.workspace_installed''"
| "AuditEvent_as_str SessionWorkspaceBound = ''config.session_workspace_bound''"
| "AuditEvent_as_str LeaseAcquired = ''lease.acquired''"
| "AuditEvent_as_str LeaseReleased = ''lease.released''"
| "AuditEvent_as_str LeaseRefused = ''lease.refused''"
| "AuditEvent_as_str RunAdmitted = ''run.admitted''"
| "AuditEvent_as_str RunAdmitReplayed = ''run.admit_replayed''"
| "AuditEvent_as_str RunAdmitRefused = ''run.admit_refused''"
| "AuditEvent_as_str RunReleased = ''run.released''"
| "AuditEvent_as_str RunReaped = ''run.reaped''"
| "AuditEvent_as_str RunReleaseRefused = ''run.release_refused''"
| "AuditEvent_as_str AuthorityDecision = ''authority.decision''"
| "AuditEvent_as_str QueryRefused = ''authority.query_refused''"
| "AuditEvent_as_str TaintRaised = ''run.taint_raised''"
| "AuditEvent_as_str TransportPeerRefused = ''transport.peer_refused''"
| "AuditEvent_as_str TransportConnectionRefused = ''transport.connection_refused''"
| "AuditEvent_as_str TransportProtocolViolation = ''transport.protocol_violation''"
| "AuditEvent_as_str TransportAuditSuppressed = ''transport.audit_suppressed''"
| "AuditEvent_as_str WorkspaceRootInstalled = ''config.workspace_root_installed''"
| "AuditEvent_as_str StoreMigrated = ''store.migrated''"
| "AuditEvent_as_str ToolDenied = ''tool.denied''"
| "AuditEvent_as_str ToolRefused = ''tool.refused''"
| "AuditEvent_as_str ToolPreviewed = ''tool.previewed''"
| "AuditEvent_as_str ToolIntentRecorded = ''tool.intent_recorded''"
| "AuditEvent_as_str ToolCompleted = ''tool.completed''"
| "AuditEvent_as_str ToolFailed = ''tool.failed''"
| "AuditEvent_as_str ToolInterrupted = ''tool.interrupted''"
| "AuditEvent_as_str ToolOutcomeUnknown = ''tool.outcome_unknown''"
| "AuditEvent_as_str ToolStagingSettled = ''tool.staging_settled''"
| "AuditEvent_as_str SecretConfigured = ''secret.configured''"
| "AuditEvent_as_str SecretRevoked = ''secret.revoked''"
| "AuditEvent_as_str SecretFingerprinted = ''secret.fingerprinted''"
| "AuditEvent_as_str SecretDenied = ''secret.denied''"
| "AuditEvent_as_str SecretIntentRecorded = ''secret.intent_recorded''"
| "AuditEvent_as_str SecretResolved = ''secret.resolved''"
| "AuditEvent_as_str SecretInjected = ''secret.injected''"
| "AuditEvent_as_str SecretFailed = ''secret.failed''"
| "AuditEvent_as_str SecretOutcomeUnknown = ''secret.outcome_unknown''"
| "AuditEvent_as_str SecretRedactionHit = ''secret.redaction_hit''"
| "AuditEvent_as_str EnvironmentIntentRecorded = ''environment.intent_recorded''"
| "AuditEvent_as_str EnvironmentReady = ''environment.ready''"
| "AuditEvent_as_str EnvironmentRefused = ''environment.refused''"
| "AuditEvent_as_str EnvironmentOutcomeUnknown = ''environment.outcome_unknown''"
| "AuditEvent_as_str EnvironmentMeasured = ''environment.measured''"
| "AuditEvent_as_str EnvironmentDrifted = ''environment.drifted''"
| "AuditEvent_as_str EnvironmentDestroyIntent = ''environment.destroy_intent''"
| "AuditEvent_as_str EnvironmentDestroyed = ''environment.destroyed''"
| "AuditEvent_as_str EnvironmentDestroyFailed = ''environment.destroy_failed''"
| "AuditEvent_as_str EnvironmentLost = ''environment.lost''"
| "AuditEvent_as_str EnvironmentReconciled = ''environment.reconciled''"
| "AuditEvent_as_str EnvironmentOrphanReaped = ''environment.orphan_reaped''"
| "AuditEvent_as_str NetResolved = ''net.http.resolved''"
| "AuditEvent_as_str NetIntentRecorded = ''net.http.intent''"
| "AuditEvent_as_str NetHopEnded = ''net.http.hop''"
| "AuditEvent_as_str NetRedirectEnded = ''net.http.redirect_ended''"
| "AuditEvent_as_str NetOutcome = ''net.http.outcome''"
| "AuditEvent_as_str WorkloadIntentRecorded = ''workload.intent_recorded''"
| "AuditEvent_as_str WorkloadRefused = ''workload.refused''"
| "AuditEvent_as_str WorkloadDenied = ''workload.denied''"
| "AuditEvent_as_str WorkloadOutcome = ''workload.outcome''"

datatype Field = Text string | IntField nat | Flag bool | ListField "Field list" | ObjectField "(string \<times> Field) list"

type_synonym Fields = "(string \<times> Field) list"

definition Fields_new :: Fields where "Fields_new = []"

definition Fields_text :: "string \<Rightarrow> string \<Rightarrow> Fields \<Rightarrow> Fields" where
  "Fields_text key v self = self @ [(key, Text v)]"

definition Fields_int :: "string \<Rightarrow> nat \<Rightarrow> Fields \<Rightarrow> Fields" where
  "Fields_int key v self = self @ [(key, IntField v)]"

definition Fields_flag :: "string \<Rightarrow> bool \<Rightarrow> Fields \<Rightarrow> Fields" where
  "Fields_flag key v self = self @ [(key, Flag v)]"

definition Fields_maybe_int :: "string \<Rightarrow> nat option \<Rightarrow> Fields \<Rightarrow> Fields" where
  "Fields_maybe_int key v self = (case v of Some n \<Rightarrow> Fields_int key n self | None \<Rightarrow> self)"

definition Fields_maybe_text :: "string \<Rightarrow> string option \<Rightarrow> Fields \<Rightarrow> Fields" where
  "Fields_maybe_text key v self = (case v of Some t \<Rightarrow> Fields_text key t self | None \<Rightarrow> self)"

definition Fields_list :: "string \<Rightarrow> Field list \<Rightarrow> Fields \<Rightarrow> Fields" where
  "Fields_list key items self = self @ [(key, ListField items)]"

definition Fields_extend :: "Fields \<Rightarrow> Fields \<Rightarrow> Fields" where
  "Fields_extend more' self = self @ more'"

section \<open>The canonical record\<close>

definition safe_integer_field :: "nat \<Rightarrow> (Number, AuthorityError) result" where
  "safe_integer_field v =
     (if AUDIT_MAX_SAFE_INTEGER < v then Err (Invariant ''an audit integer exceeds 2^53-1'')
      else ok_or (if v \<le> I64_MAX then Number_from_i64 (int v) else None)
        (Invariant ''an audit integer is not representable''))"

definition insert_member :: "string \<Rightarrow> Value \<Rightarrow> Object \<Rightarrow> (Object, AuthorityError) result" where
  "insert_member key v object =
     map_err (\<lambda>_. Invariant ''an audit record repeats a key'') (Object_insert key v object)"

fun field_value :: "Field \<Rightarrow> (Value, AuthorityError) result"
  and field_items :: "Field list \<Rightarrow> (Value list, AuthorityError) result"
  and field_members :: "(string \<times> Field) list \<Rightarrow> Object \<Rightarrow> (Object, AuthorityError) result" where
  "field_value (Text t) = Ok (JString t)"
| "field_value (IntField v) = and_then (safe_integer_field v) (\<lambda>n. Ok (JNumber n))"
| "field_value (Flag v) = Ok (JBool v)"
| "field_value (ListField items) = and_then (field_items items) (\<lambda>vs. Ok (JArray vs))"
| "field_value (ObjectField members) = and_then (field_members members Object_new) (\<lambda>obj. Ok (JObject obj))"
| "field_items [] = Ok []"
| "field_items (item # items) =
     and_then (field_value item) (\<lambda>v. and_then (field_items items) (\<lambda>vs. Ok (v # vs)))"
| "field_members [] object = Ok object"
| "field_members ((key, v) # members) object =
     and_then (field_value v) (\<lambda>v. and_then (insert_member key v object) (field_members members))"

fun event_fields :: "Fields \<Rightarrow> Object \<Rightarrow> (Object, AuthorityError) result" where
  "event_fields [] object = Ok object"
| "event_fields ((key, field) # flds) object =
     (if key \<in> set RESERVED_KEYS then Err (Invariant ''an audit event reuses a reserved key'')
      else and_then (field_value field) (\<lambda>v. and_then (insert_member key v object) (event_fields flds)))"

definition unsigned_record :: "nat \<Rightarrow> Sha256Hash \<Rightarrow> nat \<Rightarrow> AuditEvent \<Rightarrow> Fields \<Rightarrow> (Object, AuthorityError) result" where
  "unsigned_record seq prev ts_ms event flds =
     and_then (safe_integer_field AUDIT_FORMAT_VERSION) (\<lambda>v.
     and_then (insert_member ''v'' (JNumber v) Object_new) (\<lambda>object.
     and_then (safe_integer_field seq) (\<lambda>n.
     and_then (insert_member ''seq'' (JNumber n) object) (\<lambda>object.
     and_then (insert_member ''prev'' (JString (to_hex prev)) object) (\<lambda>object.
     and_then (safe_integer_field ts_ms) (\<lambda>t.
     and_then (insert_member ''ts_ms'' (JNumber t) object) (\<lambda>object.
     and_then (insert_member ''event'' (JString (AuditEvent_as_str event)) object) (\<lambda>object.
       event_fields flds object))))))))"

definition chain_input :: "Sha256Hash \<Rightarrow> string \<Rightarrow> DomainHash" where
  "chain_input prev canonical_without_hash =
     DomainHash_bytes canonical_without_hash (DomainHash_bytes (as_bytes prev) (DomainHash_new AUDIT_RECORD))"

definition chain_hash :: "(string \<Rightarrow> string) \<Rightarrow> Sha256Hash \<Rightarrow> string \<Rightarrow> Sha256Hash" where
  "chain_hash sha prev canonical_without_hash = DomainHash_finish sha (chain_input prev canonical_without_hash)"

section \<open>The tables\<close>

record AuditRow =
  row_seq :: int
  row_prev :: string
  row_hash :: string
  row_record :: string

record AuditTables =
  head_seq :: int
  head_hash :: string
  audit_chain :: "AuditRow list"
  flushed_seq :: int
  flushed_hash :: string

definition genesis :: AuditTables where
  "genesis = \<lparr>head_seq = 0, head_hash = to_hex Sha256Hash_ZERO, audit_chain = [],
     flushed_seq = 0, flushed_hash = to_hex Sha256Hash_ZERO\<rparr>"

definition insert_audit_chain :: "AuditRow \<Rightarrow> AuditTables \<Rightarrow> (AuditTables, SqliteError) result" where
  "insert_audit_chain row t =
     (if row_seq row \<noteq> head_seq t + 1 \<or> row_prev row \<noteq> head_hash t
      then Err (constraint_error ''an audit record must extend the head'')
      else if \<not> 1 \<le> row_seq row then Err (constraint_error ''CHECK constraint failed: seq >= 1'')
      else if length (row_prev row) \<noteq> 64 then Err (constraint_error ''CHECK constraint failed: length(prev) = 64'')
      else if length (row_hash row) \<noteq> 64 then Err (constraint_error ''CHECK constraint failed: length(hash) = 64'')
      else if row_seq row \<in> row_seq ` set (audit_chain t)
      then Err (constraint_error ''UNIQUE constraint failed: audit_chain.seq'')
      else if row_hash row \<in> row_hash ` set (audit_chain t)
      then Err (constraint_error ''UNIQUE constraint failed: audit_chain.hash'')
      else Ok (t\<lparr>audit_chain := audit_chain t @ [row]\<rparr>))"

definition update_audit_head :: "int \<Rightarrow> string \<Rightarrow> AuditTables \<Rightarrow> (AuditTables, SqliteError) result" where
  "update_audit_head seq hash t =
     (if seq \<noteq> head_seq t + 1 then Err (constraint_error ''the audit head advances one record at a time'')
      else if \<not> 0 \<le> seq then Err (constraint_error ''CHECK constraint failed: seq >= 0'')
      else if length hash \<noteq> 64 then Err (constraint_error ''CHECK constraint failed: length(hash) = 64'')
      else Ok (t\<lparr>head_seq := seq, head_hash := hash\<rparr>))"

definition update_audit_state :: "int \<Rightarrow> string \<Rightarrow> AuditTables \<Rightarrow> (AuditTables, SqliteError) result" where
  "update_audit_state seq hash t =
     (if seq < flushed_seq t \<or> head_seq t < seq
      then Err (constraint_error ''the flushed mark only moves forward, and never past the head'')
      else if \<not> 0 \<le> seq then Err (constraint_error ''CHECK constraint failed: flushed_seq >= 0'')
      else if length hash \<noteq> 64 then Err (constraint_error ''CHECK constraint failed: length(flushed_hash) = 64'')
      else Ok (t\<lparr>flushed_seq := seq, flushed_hash := hash\<rparr>))"

section \<open>Appending\<close>

datatype AuditAppendError = AppendSqlite SqliteError | AppendAuthority AuthorityError

definition audit_append :: "(string \<Rightarrow> string) \<Rightarrow> nat \<Rightarrow> AuditEvent \<Rightarrow> Fields \<Rightarrow> AuditTables \<Rightarrow>
    (AuditTables \<times> nat, AuditAppendError) result" where
  "audit_append sha ts_ms event flds tx =
     and_then (ok_or (from_hex (head_hash tx)) (AppendAuthority (Invariant ''the audit head hash is malformed''))) (\<lambda>prev.
     and_then (ok_or (Option.bind (u64_try_from (head_seq tx)) (\<lambda>seq. if seq + 1 \<le> U64_MAX then Some (seq + 1) else None))
       (AppendAuthority (Invariant ''the audit head sequence is malformed''))) (\<lambda>seq.
     and_then (map_err AppendAuthority (unsigned_record seq prev ts_ms event flds)) (\<lambda>record'.
     let hash = chain_hash sha prev (to_canonical_bytes (JObject record')) in
     and_then (map_err AppendAuthority (insert_member ''hash'' (JString (to_hex hash)) record')) (\<lambda>record'.
     let line = to_canonical_bytes (JObject record') in
     if MAX_RECORD_BYTES < length line then Err (AppendAuthority (Invariant ''an audit record exceeds its bound''))
     else if I64_MAX < seq then Err (AppendAuthority (Invariant ''audit sequence overflow''))
     else and_then (map_err AppendSqlite (insert_audit_chain
         \<lparr>row_seq = int seq, row_prev = to_hex prev, row_hash = to_hex hash, row_record = line\<rparr> tx)) (\<lambda>tx.
       and_then (map_err AppendSqlite (update_audit_head (int seq) (to_hex hash) tx)) (\<lambda>tx. Ok (tx, seq)))))))"

section \<open>Verifying one line\<close>

datatype RecordFault = NotJson | NotCanonical | MissingField string | UnsupportedVersion nat
  | SequenceFault nat nat | PrevMismatch | HashMismatch | Oversized

record Verified =
  verified_seq :: nat
  verified_hash :: Sha256Hash

definition uint_field :: "Object \<Rightarrow> string \<Rightarrow> (nat, RecordFault) result" where
  "uint_field object key =
     (case Object_get key object of
        Some (JNumber (NInt v)) \<Rightarrow> ok_or (u64_try_from v) (MissingField key)
      | _ \<Rightarrow> Err (MissingField key))"

definition hash_field :: "Object \<Rightarrow> string \<Rightarrow> (Sha256Hash, RecordFault) result" where
  "hash_field object key =
     (case Object_get key object of
        Some (JString t) \<Rightarrow> ok_or (from_hex t) (MissingField key)
      | _ \<Rightarrow> Err (MissingField key))"

definition verify_object :: "(string \<Rightarrow> string) \<Rightarrow> Object \<Rightarrow> nat \<Rightarrow> Sha256Hash \<Rightarrow> (Verified, RecordFault) result" where
  "verify_object sha object expected_seq expected_prev =
     and_then (uint_field object ''v'') (\<lambda>version.
     if version \<noteq> AUDIT_FORMAT_VERSION then Err (UnsupportedVersion version) else
     and_then (uint_field object ''seq'') (\<lambda>seq.
     if seq \<noteq> expected_seq then Err (SequenceFault expected_seq seq) else
     and_then (hash_field object ''prev'') (\<lambda>prev.
     if prev \<noteq> expected_prev then Err PrevMismatch else
     and_then (uint_field object ''ts_ms'') (\<lambda>_.
     if (case Object_get ''event'' object of Some (JString _) \<Rightarrow> False | _ \<Rightarrow> True) then Err (MissingField ''event'') else
     and_then (hash_field object ''hash'') (\<lambda>claimed.
     let object = snd (Object_remove ''hash'' object);
         recomputed = chain_hash sha expected_prev (to_canonical_bytes (JObject object))
     in if recomputed \<noteq> claimed then Err HashMismatch
        else Ok \<lparr>verified_seq = seq, verified_hash = claimed\<rparr>)))))"

definition verify_line :: "(string \<Rightarrow> string) \<Rightarrow> string \<Rightarrow> nat \<Rightarrow> Sha256Hash \<Rightarrow> (Verified, RecordFault) result" where
  "verify_line sha line expected_seq expected_prev =
     (if MAX_RECORD_BYTES < length line then Err Oversized
      else case parse_json line SafeInteger of
          Inr (JObject object) \<Rightarrow>
            if to_canonical_bytes (JObject object) \<noteq> line then Err NotCanonical
            else verify_object sha object expected_seq expected_prev
        | _ \<Rightarrow> Err NotJson)"

end
