(* ===== verification/Auth_Audit_Laws.thy ===== *)
theory Auth_Audit_Laws
  imports Auth_Audit Json_Sound
begin

text \<open>
  The laws of audit records: a record the store appends verifies at its position, a verified line is
  one line of the log (no newline, within the bound), and a verified line is determined by the
  hash it claims, up to a collision of the digest on the very inputs hashed.
\<close>

section \<open>Objects with distinct keys\<close>

lemma Object_insert_Ok: "Object_insert key v obj = Ok obj' \<longleftrightarrow> key \<notin> fst ` set obj \<and> obj' = obj @ [(key, v)]"
  by (force simp: Object_insert_def list_ex_iff)

lemma insert_member_Ok:
  "insert_member key v obj = Ok obj' \<longleftrightarrow> key \<notin> fst ` set obj \<and> obj' = obj @ [(key, v)]"
  using Object_insert_Ok [of key v obj obj'] by (cases "Object_insert key v obj") (auto simp: insert_member_def map_err_def)

lemma Object_remove_distinct:
  "distinct (map fst obj) \<Longrightarrow> snd (Object_remove key obj) = filter (\<lambda>m. fst m \<noteq> key) obj"
proof (induction obj)
  case (Cons m obj)
  then show ?case
    by (cases m) (auto simp: split_beta intro!: filter_True [symmetric] dest: image_eqI [where f = fst])
qed simp

lemma Object_get_append: "distinct (map fst (xs @ (key, v) # ys)) \<Longrightarrow> Object_get key (xs @ (key, v) # ys) = Some v"
  by (subst Object_get_distinct) auto

lemma Object_get_sort:
  assumes "distinct (map fst obj)"
  shows "Object_get key (sort_key f obj) = Object_get key obj"
proof -
  have "Object_get key (sort_key f obj) = Some w \<longleftrightarrow> Object_get key obj = Some w" for w
    using assms by (simp add: Object_get_distinct distinct_fst_sort)
  then show ?thesis by (metis not_None_eq)
qed

lemma Object_get_normal: "Object_get key (map normal_member obj) = map_option normal (Object_get key obj)"
  by (induction obj) (auto simp: Object_get_def normal_member_def)

section \<open>Fields\<close>

fun wf_field :: "Field \<Rightarrow> bool" where
  "wf_field (Text t) = utf8_ok t"
| "wf_field (IntField n) = True"
| "wf_field (Flag b) = True"
| "wf_field (ListField fs) = (\<forall>f\<in>set fs. wf_field f)"
| "wf_field (ObjectField ms) = (\<forall>(k, f)\<in>set ms. utf8_ok k \<and> wf_field f)"

fun field_depth :: "Field \<Rightarrow> nat" where
  "field_depth (ListField fs) = Suc (foldr max (map field_depth fs) 0)"
| "field_depth (ObjectField ms) = Suc (foldr max (map (\<lambda>(k, f). field_depth f) ms) 0)"
| "field_depth _ = 0"

definition wf_fields :: "Fields \<Rightarrow> bool" where
  "wf_fields fs \<longleftrightarrow> (\<forall>(k, f)\<in>set fs. utf8_ok k \<and> wf_field f \<and> field_depth f < MAX_DEPTH)"

abbreviation sound_value :: "nat \<Rightarrow> Value \<Rightarrow> bool" where
  "sound_value d v \<equiv> wf_value v \<and> no_floats v \<and> nesting v \<le> d"

definition sound_members :: "nat \<Rightarrow> Object \<Rightarrow> bool" where
  "sound_members d obj \<longleftrightarrow> distinct (map fst obj) \<and> (\<forall>(k, v)\<in>set obj. utf8_ok k \<and> sound_value d v)"

lemma sound_members_object: "sound_members d obj \<Longrightarrow> sound_value (Suc d) (JObject obj)"
  by (auto simp: sound_members_def foldr_max_le)

lemma sound_members_snoc:
  "sound_members d obj \<Longrightarrow> insert_member key v obj = Ok obj' \<Longrightarrow> utf8_ok key \<Longrightarrow> sound_value d v \<Longrightarrow> sound_members d obj'"
  by (auto simp: sound_members_def insert_member_Ok)

lemma safe_integer_field_Ok: "safe_integer_field n = Ok x \<longleftrightarrow> n \<le> AUDIT_MAX_SAFE_INTEGER \<and> x = NInt (int n)"
  by (auto simp: safe_integer_field_def Number_from_i64_def AUDIT_MAX_SAFE_INTEGER_def MAX_SAFE_INTEGER_def I64_MAX_def)

lemma sound_safe_integer: "safe_integer_field n = Ok x \<Longrightarrow> sound_value d (JNumber x)"
  by (auto simp: safe_integer_field_Ok AUDIT_MAX_SAFE_INTEGER_def MAX_SAFE_INTEGER_def)

lemma field_value_sound:
  "field_value f = Ok v \<Longrightarrow> wf_field f \<Longrightarrow> sound_value (field_depth f) v"
  "field_items fs = Ok vs \<Longrightarrow> \<forall>f\<in>set fs. wf_field f \<Longrightarrow> (\<And>f. f \<in> set fs \<Longrightarrow> field_depth f \<le> d) \<Longrightarrow>
     \<forall>v\<in>set vs. sound_value d v"
  "field_members ms obj = Ok obj' \<Longrightarrow> sound_members d obj \<Longrightarrow> \<forall>(k, f)\<in>set ms. utf8_ok k \<and> wf_field f \<Longrightarrow>
     (\<And>k f. (k, f) \<in> set ms \<Longrightarrow> field_depth f \<le> d) \<Longrightarrow> sound_members d obj'"
proof (induction f and fs and ms obj arbitrary: v and vs d and obj' d
    rule: field_value_field_items_field_members.induct)
  case (2 n)
  then show ?case by (auto simp: and_then_Ok_iff safe_integer_field_Ok AUDIT_MAX_SAFE_INTEGER_def MAX_SAFE_INTEGER_def)
next
  case (4 items)
  then obtain vs where vs: "field_items items = Ok vs" "v = JArray vs" by (auto simp: and_then_Ok_iff)
  let ?d = "foldr max (map field_depth items) 0"
  have "\<forall>v\<in>set vs. sound_value ?d v"
    by (rule 4(1) [OF vs(1)]) (use 4(3) foldr_max_le [of "map field_depth items" ?d] in simp_all)
  then show ?case using vs by (auto simp: foldr_max_le)
next
  case (5 members)
  then obtain obj where obj: "field_members members Object_new = Ok obj" "v = JObject obj" by (auto simp: and_then_Ok_iff)
  let ?d = "foldr max (map (\<lambda>(k, f). field_depth f) members) 0"
  have "field_depth f \<le> ?d" if "(k, f) \<in> set members" for k f
    using that foldr_max_le [of "map (\<lambda>(k, f). field_depth f) members" ?d] by fastforce
  moreover have "\<forall>(k, f)\<in>set members. utf8_ok k \<and> wf_field f" using 5(3) by simp
  ultimately have "sound_members ?d obj"
    by (intro 5(1) [OF obj(1)]) (simp_all add: sound_members_def Object_new_def)
  then show ?case using obj sound_members_object [of ?d obj] by simp
next
  case (7 item items)
  then obtain w ws where w: "field_value item = Ok w" "field_items items = Ok ws" "vs = w # ws"
    by (auto simp: and_then_Ok_iff)
  have "sound_value d w" using 7(1) [OF w(1)] 7(4) 7(5) [of item] by simp
  moreover have "\<forall>v\<in>set ws. sound_value d v" by (rule 7(2) [OF w(2)]) (use 7(4,5) in simp_all)
  ultimately show ?case using w(3) by simp
next
  case (9 key v members object)
  then obtain w obj1 where w: "field_value v = Ok w" "insert_member key w object = Ok obj1"
      "field_members members obj1 = Ok obj'"
    by (auto simp: and_then_Ok_iff)
  have "wf_field v" "utf8_ok key" "field_depth v \<le> d" using 9(5) 9(6) [of key v] by simp_all
  then have "sound_value d w" using 9(1) [OF w(1)] by simp
  then have "sound_members d obj1" using sound_members_snoc [OF 9(4) w(2)] \<open>utf8_ok key\<close> by simp
  then show ?case
    by (rule 9(2) [OF w(3)]) (use 9(5) in simp, use 9(6) in \<open>meson list.set_intros(2)\<close>)
qed simp_all

section \<open>Records\<close>

lemma event_fields_Ok:
  "event_fields fs obj = Ok obj' \<Longrightarrow> sound_members d obj \<Longrightarrow> wf_fields fs \<Longrightarrow> MAX_DEPTH \<le> Suc d \<Longrightarrow>
     sound_members d obj' \<and> (\<exists>extra. obj' = obj @ extra \<and> fst ` set extra \<inter> set RESERVED_KEYS = {})"
proof (induction fs obj rule: event_fields.induct)
  case (2 key field fs obj)
  from "2.prems"(1) obtain w obj1 where w: "key \<notin> set RESERVED_KEYS" "field_value field = Ok w"
      "insert_member key w obj = Ok obj1" "event_fields fs obj1 = Ok obj'"
    by (auto simp: and_then_Ok_iff split: if_splits)
  have f: "wf_field field" "utf8_ok key" "field_depth field \<le> d" "wf_fields fs"
    using "2.prems"(3,4) by (auto simp: wf_fields_def)
  then have "sound_value d w" using field_value_sound(1) [OF w(2)] by simp
  then have "sound_members d obj1" using sound_members_snoc [OF "2.prems"(2) w(3)] f by simp
  from "2.IH" [OF w(1,4) this f(4) "2.prems"(4)] w(1,3)
  show ?case by (auto simp: insert_member_Ok)
qed (auto simp: exI [of _ "[]"])

definition envelope :: "nat \<Rightarrow> Sha256Hash \<Rightarrow> nat \<Rightarrow> AuditEvent \<Rightarrow> Object" where
  "envelope seq prev ts event =
     [(''v'', JNumber (NInt 1)), (''seq'', JNumber (NInt (int seq))), (''prev'', JString (to_hex prev)),
      (''ts_ms'', JNumber (NInt (int ts))), (''event'', JString (AuditEvent_as_str event))]"

lemma utf8_ok_event [simp]: "utf8_ok (AuditEvent_as_str e)"
  by (cases e) simp_all

lemma unsigned_record_Ok:
  assumes "unsigned_record seq prev ts event fs = Ok obj" "wf_fields fs"
  obtains extra where "obj = envelope seq prev ts event @ extra" "fst ` set extra \<inter> set RESERVED_KEYS = {}"
    and "sound_members (MAX_DEPTH - 1) obj" "seq \<le> AUDIT_MAX_SAFE_INTEGER"
proof -
  have e: "event_fields fs (envelope seq prev ts event) = Ok obj" and n: "seq \<le> AUDIT_MAX_SAFE_INTEGER"
      "ts \<le> AUDIT_MAX_SAFE_INTEGER"
    using assms(1)
    by (auto simp: unsigned_record_def and_then_Ok_iff insert_member_Ok safe_integer_field_Ok Object_new_def
      envelope_def AUDIT_FORMAT_VERSION_def)
  then have "sound_members (MAX_DEPTH - 1) (envelope seq prev ts event)"
    by (simp add: sound_members_def envelope_def AUDIT_MAX_SAFE_INTEGER_def MAX_SAFE_INTEGER_def)
  from event_fields_Ok [OF e this assms(2)] n(1) that show ?thesis by (auto simp: MAX_DEPTH_def)
qed

text \<open>What the reader returns for the canonical text of a record, and the record without its hash.\<close>

lemma canonical_members: "to_canonical_bytes (JObject (sort_key member_key (map normal_member ms))) = to_canonical_bytes (JObject ms)"
  using write_normal [of "JObject ms"] by (simp only: normal_object to_canonical_bytes_def)

lemma filter_normal:
  "filter (\<lambda>m. fst m \<noteq> key) (map normal_member ms) = map normal_member (filter (\<lambda>m. fst m \<noteq> key) ms)"
  by (simp add: filter_map comp_def normal_member_def)

lemma signed_record_verifies:
  fixes sha prev obj
  defines "hash \<equiv> chain_hash sha prev (to_canonical_bytes (JObject obj))"
  assumes obj: "obj = envelope seq prev ts event @ extra" "sound_members (MAX_DEPTH - 1) obj"
    and new: "insert_member ''hash'' (JString (to_hex hash)) obj = Ok full" and prev: "wf_hash prev"
    and len: "length (to_canonical_bytes (JObject full)) \<le> MAX_RECORD_BYTES"
  shows "verify_line sha (to_canonical_bytes (JObject full)) seq prev = Ok \<lparr>verified_seq = seq, verified_hash = hash\<rparr>"
proof -
  let ?o = "sort_key member_key (map normal_member full)"
  have full: "full = obj @ [(''hash'', JString (to_hex hash))]" "''hash'' \<notin> fst ` set obj"
    using new by (auto simp: insert_member_Ok)
  have s: "sound_members (MAX_DEPTH - 1) full"
    using sound_members_snoc [OF obj(2) new] by simp
  then have d: "distinct (map fst full)" by (simp add: sound_members_def)
  have "parse_json (to_canonical_bytes (JObject full)) SafeInteger = Ok (normal (JObject full))"
    using sound_members_object [OF s] by (intro parse_json_print) (auto simp: MAX_DEPTH_def)
  then have p: "parse_json (to_canonical_bytes (JObject full)) SafeInteger = Ok (JObject ?o)"
    by (simp only: normal_object)
  have dn: "distinct (map fst (map normal_member full))" "distinct (map fst ?o)"
    using normal_members_distinct(1) [OF d] by (simp_all add: distinct_fst_sort)
  have get: "Object_get k ?o = map_option normal (Object_get k full)" for k
    by (simp add: Object_get_sort [OF dn(1)] Object_get_normal)
  have get': "Object_get k ?o = Some (normal v)" if "(k, v) \<in> set full" for k v
    using that Object_get_distinct [OF d, of k v] by (simp add: get)
  have m: "(''v'', JNumber (NInt 1)) \<in> set full" "(''seq'', JNumber (NInt (int seq))) \<in> set full"
      "(''prev'', JString (to_hex prev)) \<in> set full" "(''ts_ms'', JNumber (NInt (int ts))) \<in> set full"
      "(''event'', JString (AuditEvent_as_str event)) \<in> set full" "(''hash'', JString (to_hex hash)) \<in> set full"
    by (simp_all add: full obj(1) envelope_def)
  note g = m [THEN get', unfolded normal.simps]
  have "filter (\<lambda>m. fst m \<noteq> ''hash'') full = obj"
    using full by (simp add: filter_id_conv image_iff) metis
  then have "snd (Object_remove ''hash'' ?o) = sort_key member_key (map normal_member obj)"
    by (simp add: Object_remove_distinct [OF dn(2)] filter_sort filter_normal)
  then have c: "to_canonical_bytes (JObject (snd (Object_remove ''hash'' ?o))) = to_canonical_bytes (JObject obj)"
    by (simp only: canonical_members)
  have "from_hex (to_hex hash) = Some hash" "from_hex (to_hex prev) = Some prev"
    using prev by (simp_all add: hash_def chain_hash_def from_hex_to_hex)
  then show ?thesis
    using len p g c canonical_members [of full]
    by (simp add: verify_line_def verify_object_def uint_field_def hash_field_def AUDIT_FORMAT_VERSION_def
      u64_try_from_def Let_def hash_def)
qed

section \<open>Lines\<close>

lemma verify_line_Ok:
  assumes "verify_line sha line seq prev = Ok v"
  obtains obj where "parse_json line SafeInteger = Ok (JObject obj)" "line = to_canonical_bytes (JObject obj)" "length line \<le> MAX_RECORD_BYTES"
    "sound_value MAX_DEPTH (JObject obj)" "verified_seq v = seq" "wf_hash prev" "wf_hash (verified_hash v)"
    "(''hash'', JString (to_hex (verified_hash v))) \<in> set obj"
    "verified_hash v = chain_hash sha prev (to_canonical_bytes (JObject (filter (\<lambda>m. fst m \<noteq> ''hash'') obj)))"
proof -
  obtain obj where obj: "parse_json line SafeInteger = Ok (JObject obj)" "to_canonical_bytes (JObject obj) = line"
      "length line \<le> MAX_RECORD_BYTES" "verify_object sha obj seq prev = Ok v"
    using assms by (auto simp: verify_line_def split: if_splits sum.splits Value.splits)
  have s: "sound_value MAX_DEPTH (JObject obj)" using parse_json_sound [OF obj(1)] by simp
  then have d: "distinct (map fst obj)" by simp
  obtain t u where t: "Object_get ''hash'' obj = Some (JString t)" "from_hex t = Some (verified_hash v)"
      and p: "from_hex u = Some prev" and q: "verified_seq v = seq"
      and h: "chain_hash sha prev (to_canonical_bytes (JObject (snd (Object_remove ''hash'' obj)))) = verified_hash v"
    using obj(4)
    by (auto simp: verify_object_def and_then_Ok_iff hash_field_def Let_def
      split: if_splits option.splits Value.splits)
  have w: "to_hex (verified_hash v) = t" "wf_hash (verified_hash v)" "wf_hash prev"
    using to_hex_from_hex [OF t(2)] to_hex_from_hex [OF p] by simp_all
  moreover have "(''hash'', JString t) \<in> set obj" using t(1) Object_get_distinct [OF d] by blast
  ultimately have "(''hash'', JString (to_hex (verified_hash v))) \<in> set obj" by blast
  then show ?thesis
    by (rule that [OF obj(1) obj(2) [symmetric] obj(3) s q w(3) w(2) _ h [symmetric, unfolded Object_remove_distinct [OF d]]])
qed

text \<open>The input of the digest fixes the predecessor and the canonical text hashed.\<close>

lemma chain_input_inject:
  assumes "wf_hash p" "wf_hash q" "chain_input p a = chain_input q b"
  shows "p = q \<and> a = b"
proof -
  have "u64_to_be_bytes (min (length a) (2 ^ 64 - 1)) @ a = u64_to_be_bytes (min (length b) (2 ^ 64 - 1)) @ b \<and> p = q"
    using assms
    by (auto simp: chain_input_def DomainHash_bytes_def wf_hash_def append_eq_append_conv Sha256Hash.expand)
  then show ?thesis by (auto simp: append_eq_append_conv)
qed

lemma records_agree:
  assumes "sound_value MAX_DEPTH (JObject a)" "sound_value MAX_DEPTH (JObject b)"
    and "(key, h) \<in> set a" "(key, h) \<in> set b"
    and "to_canonical_bytes (JObject (filter (\<lambda>m. fst m \<noteq> key) a)) = to_canonical_bytes (JObject (filter (\<lambda>m. fst m \<noteq> key) b))"
  shows "to_canonical_bytes (JObject a) = to_canonical_bytes (JObject b)"
proof -
  let ?r = "\<lambda>x. filter (\<lambda>m. fst m \<noteq> key) x"
  have r: "wf_value (JObject (?r x))" "no_floats (JObject (?r x))" "nesting (JObject (?r x)) \<le> MAX_DEPTH"
    if "sound_value MAX_DEPTH (JObject x)" for x
    using that by (auto simp: distinct_map_filter MAX_DEPTH_def foldr_max_le)
  have split: "set (map normal_member x) = insert (normal_member (key, h)) (set (map normal_member (?r x)))"
    if "distinct (map fst x)" "(key, h) \<in> set x" for x
  proof -
    have "set x = insert (key, h) (set (?r x))"
      using that by (force dest: eq_key_imp_eq_value)
    then have "normal_member ` set x = insert (normal_member (key, h)) (normal_member ` set (?r x))"
      by (metis image_insert)
    then show ?thesis by (simp only: set_map)
  qed
  have "normal (JObject (?r a)) = normal (JObject (?r b))"
    using parse_json_print [OF r [OF assms(1)], of SafeInteger] parse_json_print [OF r [OF assms(2)], of SafeInteger] assms(5)
    by simp
  then have "sort_key member_key (map normal_member (?r a)) = sort_key member_key (map normal_member (?r b))"
    by (simp only: normal_object Value.inject)
  then have "set (map normal_member (?r a)) = set (map normal_member (?r b))" by (metis set_sort)
  then have "set (map normal_member a) = set (map normal_member b)"
    using split [of a] split [of b] assms(1-4) by simp
  then have "normal (JObject a) = normal (JObject b)"
    unfolding normal_object using sort_members_eq_iff [of a b] assms(1,2) by blast
  then show ?thesis by (metis to_canonical_bytes_def write_normal)
qed

text \<open>The bytes the digest is applied to for a line, read from the line itself.\<close>

definition line_input :: "Sha256Hash \<Rightarrow> string \<Rightarrow> DomainHash" where
  "line_input prev line =
     (case parse_json line SafeInteger of
        Inr (JObject obj) \<Rightarrow> chain_input prev (to_canonical_bytes (JObject (snd (Object_remove ''hash'' obj))))
      | _ \<Rightarrow> [])"

lemma line_input_Ok:
  "parse_json line SafeInteger = Ok (JObject obj) \<Longrightarrow> distinct (map fst obj) \<Longrightarrow>
     line_input prev line = chain_input prev (to_canonical_bytes (JObject (filter (\<lambda>m. fst m \<noteq> ''hash'') obj)))"
  by (simp add: line_input_def Object_remove_distinct)

lemma verified_lines_agree:
  assumes a: "verify_line sha a n p = Ok v" and b: "verify_line sha b m q = Ok w"
    and h: "verified_hash v = verified_hash w"
  shows "a = b \<and> p = q \<or>
    line_input p a \<noteq> line_input q b \<and> DomainHash_finish sha (line_input p a) = DomainHash_finish sha (line_input q b)"
proof -
  obtain x where x: "parse_json a SafeInteger = Ok (JObject x)" "a = to_canonical_bytes (JObject x)"
      "sound_value MAX_DEPTH (JObject x)" "wf_hash p" "(''hash'', JString (to_hex (verified_hash v))) \<in> set x"
      "verified_hash v = chain_hash sha p (to_canonical_bytes (JObject (filter (\<lambda>m. fst m \<noteq> ''hash'') x)))"
    using verify_line_Ok [OF a] by metis
  obtain y where y: "parse_json b SafeInteger = Ok (JObject y)" "b = to_canonical_bytes (JObject y)"
      "sound_value MAX_DEPTH (JObject y)" "wf_hash q" "(''hash'', JString (to_hex (verified_hash w))) \<in> set y"
      "verified_hash w = chain_hash sha q (to_canonical_bytes (JObject (filter (\<lambda>m. fst m \<noteq> ''hash'') y)))"
    using verify_line_Ok [OF b] by metis
  have i: "line_input p a = chain_input p (to_canonical_bytes (JObject (filter (\<lambda>m. fst m \<noteq> ''hash'') x)))"
      "line_input q b = chain_input q (to_canonical_bytes (JObject (filter (\<lambda>m. fst m \<noteq> ''hash'') y)))"
    using line_input_Ok x(1,3) y(1,3) by simp_all
  have f: "DomainHash_finish sha (line_input p a) = DomainHash_finish sha (line_input q b)"
    using h x(6) y(6) unfolding i chain_hash_def by simp
  show ?thesis
  proof (cases "line_input p a = line_input q b")
    case True
    then have "p = q" "to_canonical_bytes (JObject (filter (\<lambda>m. fst m \<noteq> ''hash'') x)) =
        to_canonical_bytes (JObject (filter (\<lambda>m. fst m \<noteq> ''hash'') y))"
      using chain_input_inject [OF x(4) y(4)] unfolding i by blast+
    then show ?thesis
      using records_agree [OF x(3) y(3) x(5)] y(5) x(2) y(2) h by simp
  qed (use f in simp)
qed

section \<open>Canonical text is one line\<close>

lemma write_char_printable: "c \<in> set (write_char d) \<Longrightarrow> 32 \<le> byte_of c"
proof -
  assume c: "c \<in> set (write_char d)"
  have h: "32 \<le> byte_of (hex_digit n)" if "n < 16" for n using that by (simp add: hex_digit_def)
  show ?thesis
  proof (cases "byte_of d < 32")
    case True
    then have "byte_of d div 16 < 16" "byte_of d mod 16 < 16" by simp_all
    with c True h show ?thesis by (auto simp: write_char_def split: if_splits)
  qed (use c in \<open>auto simp: write_char_def split: if_splits\<close>)
qed

lemma join_on_chars: "c \<in> set (join_on d xs) \<Longrightarrow> c = d \<or> (\<exists>x\<in>set xs. c \<in> set x)"
  by (induction d xs rule: join_on.induct) auto

lemma write_string_printable: "c \<in> set (write_string s) \<Longrightarrow> 32 \<le> byte_of c"
  using write_char_printable by (auto simp: write_string_def)

lemma write_value_printable: "no_floats v \<Longrightarrow> c \<in> set (write_value v) \<Longrightarrow> 32 \<le> byte_of c"
proof (induction v arbitrary: c)
  case (JBool b)
  then show ?case by (cases b) auto
next
  case (JNumber n)
  then obtain i where "n = NInt i" by (cases n) auto
  with JNumber show ?case using show_nat_digits by (force simp: show_i64_def is_ascii_digit_def split: if_splits)
next
  case (JArray xs)
  then show ?case by (auto dest!: join_on_chars)
next
  case (JObject ms)
  have "32 \<le> byte_of d" if "(k, v) \<in> set ms" "d \<in> set (member_text (k, v))" for k v d
    using that JObject.IH [of "(k, v)" v d] JObject.prems(1) write_string_printable [of d k] by auto
  moreover have "c \<in> set ''{'' \<or> c \<in> set ''}'' \<or> c \<in> set '','' \<or> (\<exists>m\<in>set ms. c \<in> set (member_text m))"
    using JObject.prems(2) unfolding write_object_members by (auto dest!: join_on_chars)
  ultimately show ?case by auto
qed (auto dest: write_string_printable)

lemma verified_line:
  "verify_line sha line n prev = Ok v \<Longrightarrow> CHR 0x0A \<notin> set line \<and> length line \<le> MAX_RECORD_BYTES"
proof -
  assume "verify_line sha line n prev = Ok v"
  then obtain obj where "line = to_canonical_bytes (JObject obj)" "length line \<le> MAX_RECORD_BYTES" "no_floats (JObject obj)"
    using verify_line_Ok by metis
  then show ?thesis using write_value_printable [of "JObject obj" "CHR 0x0A"] by (auto simp: to_canonical_bytes_def)
qed

end
