(* ===== verification/Auth_Log.thy ===== *)
theory Auth_Log
  imports Auth_Audit_Laws
begin

text \<open>
  The log file and its reconciliation with the store (\<^verbatim>\<open>state/audit.rs\<close>, second half): the line
  reader, the verifier of a whole log, the comparison with the outbox, the recovery at start-up and
  the writer that flushes the outbox. A file is its bytes. Reading and SQLite answer as the contents
  say; a write, a sync and the crash hook may fail, as the argument \<open>env\<close> says.
\<close>

section \<open>Reading\<close>

datatype Chunk = Line string | Tail string | OversizedChunk

definition read_until :: "nat \<Rightarrow> char \<Rightarrow> string \<Rightarrow> string" where
  "read_until limit delim s =
     (let window = take limit s; line = takeWhile (\<lambda>c. c \<noteq> delim) window
      in if length line < length window then line @ [delim] else window)"

definition read_chunk :: "string \<Rightarrow> (Chunk \<times> string) option" where
  "read_chunk reader =
     (let buffer = read_until (MAX_RECORD_BYTES + 1) (CHR 0x0A) reader;
          rest = drop (length buffer) reader
      in if buffer = [] then None
         else if last buffer = CHR 0x0A then Some (Line (butlast buffer), rest)
         else if MAX_RECORD_BYTES < length buffer then Some (OversizedChunk, rest)
         else Some (Tail buffer, rest))"

lemma read_until_Nil: "read_until n d [] = []"
  by (simp add: read_until_def)

lemma read_chunk_rest:
  "read_chunk s = Some (c, rest) \<Longrightarrow> \<exists>b. b \<noteq> [] \<and> b = read_until (MAX_RECORD_BYTES + 1) (CHR 0x0A) s \<and> rest = drop (length b) s"
  unfolding read_chunk_def Let_def by (simp split: if_splits)

lemma read_chunk_shorter: "read_chunk s = Some (c, rest) \<Longrightarrow> length rest < length s"
proof -
  assume "read_chunk s = Some (c, rest)"
  then obtain b where b: "b \<noteq> []" "b = read_until (MAX_RECORD_BYTES + 1) (CHR 0x0A) s" "rest = drop (length b) s"
    using read_chunk_rest by blast
  then have "s \<noteq> []" using read_until_Nil by metis
  then show ?thesis using b(1,3) by simp
qed

section \<open>The verifier\<close>

record AuditLogSummary =
  summary_records :: nat
  summary_head :: Sha256Hash

datatype AuditLogFault = LogIo string | RecordAt nat RecordFault | TornTail nat nat

function verify_log_loop :: "(string \<Rightarrow> string) \<Rightarrow> nat \<Rightarrow> Sha256Hash \<Rightarrow> string \<Rightarrow> (AuditLogSummary, AuditLogFault) result" where
  "verify_log_loop sha records head reader =
     (case read_chunk reader of
        None \<Rightarrow> Ok \<lparr>summary_records = records, summary_head = head\<rparr>
      | Some (Line bytes, rest) \<Rightarrow>
          let line = saturating_add records 1 in
          (case verify_line sha bytes line head of
             Inl fault \<Rightarrow> Err (RecordAt line fault)
           | Inr verified \<Rightarrow> verify_log_loop sha (verified_seq verified) (verified_hash verified) rest)
      | Some (Tail bytes, rest) \<Rightarrow> Err (TornTail records (length bytes))
      | Some (OversizedChunk, rest) \<Rightarrow> Err (RecordAt (saturating_add records 1) Oversized))"
  by pat_completeness auto
termination
  by (relation "measure (\<lambda>(sha, records, head, reader). length reader)") (auto dest: read_chunk_shorter)

declare verify_log_loop.simps [simp del]

definition verify_audit_log :: "(string \<Rightarrow> string) \<Rightarrow> string \<Rightarrow> (AuditLogSummary, AuditLogFault) result" where
  "verify_audit_log sha file = verify_log_loop sha 0 Sha256Hash_ZERO file"

record AuditRecord =
  record_seq :: nat
  record_event :: string
  record_object :: Object

function read_log_loop :: "(string \<Rightarrow> string) \<Rightarrow> AuditRecord list \<Rightarrow> nat \<Rightarrow> Sha256Hash \<Rightarrow> string \<Rightarrow>
    (AuditRecord list, AuditLogFault) result" where
  "read_log_loop sha records counted head reader =
     (case read_chunk reader of
        None \<Rightarrow> Ok records
      | Some (Line bytes, rest) \<Rightarrow>
          let line = saturating_add counted 1 in
          (case verify_line sha bytes line head of
             Inl fault \<Rightarrow> Err (RecordAt line fault)
           | Inr verified \<Rightarrow>
               (case parse_json bytes SafeInteger of
                  Inr (JObject object) \<Rightarrow>
                    (case Object_get ''event'' object of
                       Some (JString event) \<Rightarrow>
                         read_log_loop sha
                           (records @ [\<lparr>record_seq = verified_seq verified, record_event = event, record_object = object\<rparr>])
                           (verified_seq verified) (verified_hash verified) rest
                     | _ \<Rightarrow> Err (RecordAt line (MissingField ''event'')))
                | _ \<Rightarrow> Err (RecordAt line NotJson)))
      | Some (Tail bytes, rest) \<Rightarrow> Err (TornTail counted (length bytes))
      | Some (OversizedChunk, rest) \<Rightarrow> Err (RecordAt (saturating_add counted 1) Oversized))"
  by pat_completeness auto
termination
  by (relation "measure (\<lambda>(sha, records, counted, head, reader). length reader)") (auto dest: read_chunk_shorter)

declare read_log_loop.simps [simp del]

definition read_audit_log :: "(string \<Rightarrow> string) \<Rightarrow> string \<Rightarrow> (AuditRecord list, AuditLogFault) result" where
  "read_audit_log sha file = read_log_loop sha [] 0 Sha256Hash_ZERO file"

section \<open>The comparison with the store\<close>

record StoreComparison =
  log_records :: nat
  store_head :: nat
  store_flushed :: nat
  pending_torn_tail :: bool

definition StoreComparison_pending :: "StoreComparison \<Rightarrow> nat" where
  "StoreComparison_pending c = store_head c - log_records c"

datatype StoreAuditFault = LogFault AuditLogFault | StoreFault string | Truncated nat nat | AheadOfStore nat nat
  | Diverged nat | ForeignTail

record StoreChain =
  chain_rows :: "AuditRow list"
  chain_head :: nat
  chain_flushed :: nat

definition StoreChain_read :: "AuditTables \<Rightarrow> StoreChain" where
  "StoreChain_read conn =
     \<lparr>chain_rows = audit_chain conn,
      chain_head = (case u64_try_from (head_seq conn) of Some n \<Rightarrow> n | None \<Rightarrow> 0),
      chain_flushed = (case u64_try_from (flushed_seq conn) of Some n \<Rightarrow> n | None \<Rightarrow> 0)\<rparr>"

definition StoreChain_record :: "StoreChain \<Rightarrow> nat \<Rightarrow> string option" where
  "StoreChain_record chain seq =
     (if I64_MAX < seq then None
      else map_option row_record (find (\<lambda>row. row_seq row = int seq) (chain_rows chain)))"

record Compared =
  comparison :: StoreComparison
  tail_part :: "(nat \<times> string) option"
  compared_head :: Sha256Hash

function compare_loop :: "(string \<Rightarrow> string) \<Rightarrow> StoreChain \<Rightarrow> nat \<Rightarrow> nat \<Rightarrow> Sha256Hash \<Rightarrow> string \<Rightarrow>
    (nat \<times> Sha256Hash \<times> (nat \<times> string) option, StoreAuditFault) result" where
  "compare_loop sha chain offset records head reader =
     (case read_chunk reader of
        None \<Rightarrow> Ok (records, head, None)
      | Some (Line bytes, rest) \<Rightarrow>
          let line = saturating_add records 1 in
          if chain_head chain < line then Err (AheadOfStore line (chain_head chain))
          else (case verify_line sha bytes line head of
             Inl fault \<Rightarrow> Err (LogFault (RecordAt line fault))
           | Inr verified \<Rightarrow>
               if StoreChain_record chain line \<noteq> Some bytes then Err (Diverged line)
               else compare_loop sha chain (offset + (length reader - length rest)) line (verified_hash verified) rest)
      | Some (Tail bytes, rest) \<Rightarrow> Ok (records, head, Some (offset, bytes))
      | Some (OversizedChunk, rest) \<Rightarrow> Err (LogFault (RecordAt (saturating_add records 1) Oversized)))"
  by pat_completeness auto
termination
  by (relation "measure (\<lambda>(sha, chain, offset, records, head, reader). length reader)")
    (auto dest: read_chunk_shorter)

declare compare_loop.simps [simp del]

definition compare_log :: "(string \<Rightarrow> string) \<Rightarrow> string \<Rightarrow> StoreChain \<Rightarrow> (Compared, StoreAuditFault) result" where
  "compare_log sha file chain =
     and_then (compare_loop sha chain 0 0 Sha256Hash_ZERO file) (\<lambda>(records, head, tail').
       if records < chain_flushed chain then Err (Truncated records (chain_flushed chain))
       else and_then
         (case tail' of
            None \<Rightarrow> Ok False
          | Some (_, bytes) \<Rightarrow>
              let next = saturating_add records 1 in
              (case (if next \<le> chain_head chain then StoreChain_record chain next else None) of
                 None \<Rightarrow> Err ForeignTail
               | Some expected \<Rightarrow>
                   let expected = expected @ [CHR 0x0A] in
                   if length expected \<le> length bytes \<or> \<not> starts_with expected bytes then Err ForeignTail
                   else Ok True))
         (\<lambda>torn. Ok \<lparr>comparison = \<lparr>log_records = records, store_head = chain_head chain,
                        store_flushed = chain_flushed chain, pending_torn_tail = torn\<rparr>,
                     tail_part = tail', compared_head = head\<rparr>))"

definition verify_audit_against_store :: "(string \<Rightarrow> string) \<Rightarrow> string \<Rightarrow> AuditTables \<Rightarrow>
    (StoreComparison, StoreAuditFault) result" where
  "verify_audit_against_store sha file conn =
     and_then (compare_log sha file (StoreChain_read conn)) (\<lambda>found. Ok (comparison found))"

section \<open>Recovery\<close>

record Recovered =
  rec_durable_seq :: nat
  rec_durable_hash :: Sha256Hash
  reconciled :: nat
  appended :: nat
  torn_tail_bytes :: nat

datatype RecoveryError = RecoveryIo string | RecoverySqlite SqliteError | RecoveryDiverged StoreAuditFault

fun recovery_fault :: "StoreAuditFault \<Rightarrow> RecoveryError" where
  "recovery_fault (StoreFault why) = RecoveryIo why"
| "recovery_fault (LogFault (LogIo why)) = RecoveryIo why"
| "recovery_fault other = RecoveryDiverged other"

text \<open>The loop that appends the records the log does not hold: the bytes it has written so far come first.\<close>

function recover_loop :: "(string \<Rightarrow> string) \<Rightarrow> StoreChain \<Rightarrow> nat \<Rightarrow> Sha256Hash \<Rightarrow> string \<Rightarrow> nat \<Rightarrow>
    (nat \<times> Sha256Hash \<times> string \<times> nat, RecoveryError) result" where
  "recover_loop sha chain seq head file appended' =
     (if seq < chain_head chain then
        let next = seq + 1 in
        (case StoreChain_record chain next of
           None \<Rightarrow> Err (RecoveryDiverged (Diverged next))
         | Some record' \<Rightarrow>
             (case verify_line sha record' next head of
                Inl fault \<Rightarrow> Err (RecoveryDiverged (LogFault (RecordAt next fault)))
              | Inr verified \<Rightarrow>
                  recover_loop sha chain next (verified_hash verified) (file @ record' @ [CHR 0x0A]) (appended' + 1)))
      else Ok (seq, head, file, appended'))"
  by pat_completeness auto
termination
  by (relation "measure (\<lambda>(sha, chain, seq, head, file, appended'). chain_head chain - seq)") auto

declare recover_loop.simps [simp del]

definition recover :: "(string \<Rightarrow> string) \<Rightarrow> AuditTables \<Rightarrow> string \<Rightarrow> (Recovered \<times> AuditTables \<times> string, RecoveryError) result" where
  "recover sha conn file =
     (let chain = StoreChain_read conn in
      and_then (map_err recovery_fault (compare_log sha file chain)) (\<lambda>found.
      let c = comparison found;
          torn = (case tail_part found of None \<Rightarrow> 0 | Some (_, bytes) \<Rightarrow> length bytes);
          file = (case tail_part found of None \<Rightarrow> file | Some (offset, _) \<Rightarrow> take offset file)
      in and_then (recover_loop sha chain (log_records c) (compared_head found) file 0) (\<lambda>(seq, head, file, appended').
         if I64_MAX < seq then Err (RecoveryIo ''audit sequence overflow'')
         else and_then (map_err RecoverySqlite (update_audit_state (int seq) (to_hex head) conn)) (\<lambda>conn.
           Ok (\<lparr>rec_durable_seq = seq, rec_durable_hash = head, reconciled = log_records c - store_flushed c,
                appended = appended', torn_tail_bytes = torn\<rparr>, conn, file)))))"

end
