(* ===== verification/Auth_Log_Laws.thy ===== *)
theory Auth_Log_Laws
  imports Auth_Log
begin

text \<open>
  The laws of the log: which bytes a chain of records is written as, that the reader takes them apart
  again, what an intact chain is, and that comparison and recovery accept exactly the prefixes of
  the chain that hold every flushed record.
\<close>

abbreviation nl :: char where "nl \<equiv> CHR 0x0A"

section \<open>Lines\<close>

lemma read_until_cases:
  obtains (Newline) l u where "d \<notin> set l" "length l < n" "s = l @ d # u" "read_until n d s = l @ [d]"
  | (Window) "d \<notin> set (take n s)" "read_until n d s = take n s"
proof (cases "d \<in> set (take n s)")
  case True
  then obtain l v where l: "take n s = l @ d # v" "d \<notin> set l" by (metis split_list_first)
  have "takeWhile (\<lambda>c. c \<noteq> d) (l @ d # v) = l" using l(2) by (subst takeWhile_append2) auto
  then have "read_until n d s = l @ [d]" unfolding read_until_def Let_def l(1) by simp
  moreover have "s = l @ d # (v @ drop n s)" using append_take_drop_id [of n s] unfolding l(1) by simp
  moreover have "length l < n" using arg_cong [OF l(1), of length] by simp
  ultimately show ?thesis using l(2) Newline by blast
next
  case False
  then have *: "takeWhile (\<lambda>c. c \<noteq> d) (take n s) = take n s" by (subst takeWhile_eq_all_conv) blast
  have "read_until n d s = take n s" unfolding read_until_def Let_def * by simp
  then show ?thesis using False Window by blast
qed

lemma read_chunk_line:
  assumes "nl \<notin> set line" "length line \<le> MAX_RECORD_BYTES"
  shows "read_chunk (line @ nl # rest) = Some (Line line, rest)"
proof -
  have "read_until (MAX_RECORD_BYTES + 1) nl (line @ nl # rest) = line @ [nl]"
  proof (cases rule: read_until_cases [where d = nl and n = "MAX_RECORD_BYTES + 1" and s = "line @ nl # rest"])
    case (Newline l u)
    have tw: "takeWhile (\<lambda>c. c \<noteq> nl) (x @ nl # y) = x" if "nl \<notin> set x" for x y
      using that by (subst takeWhile_append2) auto
    have "line = l" using tw [OF assms(1), of rest] tw [OF Newline(1), of u] Newline(3) by simp
    then show ?thesis using Newline(4) by simp
  next
    case Window
    then show ?thesis using assms(2) by (simp add: Suc_diff_le)
  qed
  then show ?thesis by (simp add: read_chunk_def)
qed

lemma read_chunk_Nil: "read_chunk [] = None"
  by (simp add: read_chunk_def read_until_Nil)

lemma read_chunk_tail:
  assumes "nl \<notin> set t" "length t \<le> MAX_RECORD_BYTES" "t \<noteq> []"
  shows "read_chunk t = Some (Tail t, [])"
proof -
  have "read_until (MAX_RECORD_BYTES + 1) nl t = t"
    using assms(1,2) by (cases rule: read_until_cases [where d = nl and n = "MAX_RECORD_BYTES + 1" and s = t]) auto
  moreover have "last t \<noteq> nl" using assms(1,3) last_in_set by metis
  ultimately show ?thesis using assms by (simp add: read_chunk_def)
qed

lemma read_chunk_None: "read_chunk s = None \<longleftrightarrow> s = []"
proof -
  have "read_until (MAX_RECORD_BYTES + 1) nl s = [] \<longleftrightarrow> s = []"
    by (cases rule: read_until_cases [where d = nl and n = "MAX_RECORD_BYTES + 1" and s = s]) auto
  then show ?thesis by (simp add: read_chunk_def Let_def)
qed

lemma read_chunk_Line: "read_chunk s = Some (Line b, rest) \<Longrightarrow> s = b @ nl # rest"
proof (cases rule: read_until_cases [where d = nl and n = "MAX_RECORD_BYTES + 1" and s = s])
  case (Newline l u)
  assume "read_chunk s = Some (Line b, rest)"
  with Newline show ?thesis by (auto simp: read_chunk_def)
next
  case Window
  assume "read_chunk s = Some (Line b, rest)"
  then have "take (MAX_RECORD_BYTES + 1) s \<noteq> []" "last (take (MAX_RECORD_BYTES + 1) s) = nl"
    using Window(2) unfolding read_chunk_def Let_def by (simp_all split: if_splits)
  then show ?thesis using Window(1) last_in_set by metis
qed

lemma read_chunk_Tail: "read_chunk s = Some (Tail b, rest) \<Longrightarrow> s = b \<and> b \<noteq> []"
proof (cases rule: read_until_cases [where d = nl and n = "MAX_RECORD_BYTES + 1" and s = s])
  case (Newline l u)
  assume "read_chunk s = Some (Tail b, rest)"
  with Newline show ?thesis by (simp add: read_chunk_def)
next
  case Window
  assume "read_chunk s = Some (Tail b, rest)"
  then show ?thesis
    using Window(2) unfolding read_chunk_def Let_def by (auto split: if_splits)
qed

section \<open>Chains\<close>

definition log_bytes :: "AuditRow list \<Rightarrow> string" where
  "log_bytes rows = concat (map (\<lambda>r. row_record r @ [nl]) rows)"

lemma log_bytes_simps [simp]:
  "log_bytes [] = []" "log_bytes (r # rows) = row_record r @ nl # log_bytes rows"
  "log_bytes (rows @ rows') = log_bytes rows @ log_bytes rows'"
  by (simp_all add: log_bytes_def)

fun chain_end :: "(string \<Rightarrow> string) \<Rightarrow> nat \<Rightarrow> Sha256Hash \<Rightarrow> AuditRow list \<Rightarrow> Sha256Hash option" where
  "chain_end sha n h [] = Some h"
| "chain_end sha n h (r # rows) =
     (case verify_line sha (row_record r) (n + 1) h of
        Inl _ \<Rightarrow> None
      | Inr v \<Rightarrow>
          if row_seq r = int (n + 1) \<and> row_prev r = to_hex h \<and> row_hash r = to_hex (verified_hash v)
          then chain_end sha (n + 1) (verified_hash v) rows else None)"

lemma chain_end_append:
  "chain_end sha n h (rows @ rows') =
     (case chain_end sha n h rows of None \<Rightarrow> None | Some h' \<Rightarrow> chain_end sha (n + length rows) h' rows')"
proof (induction rows arbitrary: n h)
  case (Cons r rows)
  have "n + length (r # rows) = n + 1 + length rows" by simp
  then show ?case using Cons by (simp only: append_Cons chain_end.simps sum.case_eq_if if_distrib [of "case_option _ _"] option.case split: if_splits)
qed simp

lemma chain_end_wf: "chain_end sha n h rows = Some h' \<Longrightarrow> wf_hash h \<Longrightarrow> wf_hash h'"
proof (induction rows arbitrary: n h)
  case (Cons r rows)
  then obtain v where "verify_line sha (row_record r) (n + 1) h = Ok v" "chain_end sha (n + 1) (verified_hash v) rows = Some h'"
    by (auto split: sum.splits if_splits)
  moreover from this(1) have "wf_hash (verified_hash v)" using verify_line_Ok by metis
  ultimately show ?case using Cons.IH by blast
qed simp

lemma chain_end_nth:
  assumes "chain_end sha 0 h rows = Some h'" "k < length rows"
  obtains g v where "chain_end sha 0 h (take k rows) = Some g" "verify_line sha (row_record (rows ! k)) (k + 1) g = Ok v"
    "row_seq (rows ! k) = int (k + 1)" "row_prev (rows ! k) = to_hex g" "row_hash (rows ! k) = to_hex (verified_hash v)"
    "chain_end sha 0 h (take (k + 1) rows) = Some (verified_hash v)"
proof -
  have "rows = take k rows @ rows ! k # drop (k + 1) rows" using assms(2) by (simp add: id_take_nth_drop)
  with assms(1) obtain g where g: "chain_end sha 0 h (take k rows) = Some g"
      "chain_end sha k g (rows ! k # drop (k + 1) rows) = Some h'"
    using chain_end_append [of sha 0 h "take k rows" "rows ! k # drop (k + 1) rows"] assms(2)
    by (auto split: option.splits)
  moreover have "take (k + 1) rows = take k rows @ [rows ! k]" using assms(2) by (simp add: take_Suc_conv_app_nth)
  ultimately show ?thesis
    using that assms(2) by (auto simp: chain_end_append split: sum.splits if_splits)
qed

lemma verify_log_chain:
  "chain_end sha n h rows = Some h' \<Longrightarrow> n + length rows \<le> U64_MAX \<Longrightarrow>
     verify_log_loop sha n h (log_bytes rows @ rest) = verify_log_loop sha (n + length rows) h' rest"
proof (induction rows arbitrary: n h)
  case (Cons r rows)
  then obtain v where v: "verify_line sha (row_record r) (n + 1) h = Ok v" "chain_end sha (n + 1) (verified_hash v) rows = Some h'"
    by (auto split: sum.splits if_splits)
  have "read_chunk (log_bytes (r # rows) @ rest) = Some (Line (row_record r), log_bytes rows @ rest)"
    using read_chunk_line verified_line [OF v(1)] by simp
  moreover have "verified_seq v = n + 1" using verify_line_Ok [OF v(1)] by metis
  moreover have "saturating_add n 1 = n + 1" using Cons.prems(2) by (simp add: saturating_add_def)
  ultimately show ?case
    using Cons.IH [OF v(2)] Cons.prems(2) v(1) by (subst verify_log_loop.simps) simp
qed simp

section \<open>The invariant of the tables\<close>

definition audit_inv :: "(string \<Rightarrow> string) \<Rightarrow> AuditTables \<Rightarrow> bool" where
  "audit_inv sha t \<longleftrightarrow>
     head_seq t = int (length (audit_chain t)) \<and> length (audit_chain t) \<le> AUDIT_MAX_SAFE_INTEGER \<and>
     map_option to_hex (chain_end sha 0 Sha256Hash_ZERO (audit_chain t)) = Some (head_hash t) \<and>
     0 \<le> flushed_seq t \<and> flushed_seq t \<le> head_seq t \<and>
     map_option to_hex (chain_end sha 0 Sha256Hash_ZERO (take (nat (flushed_seq t)) (audit_chain t))) = Some (flushed_hash t)"

lemma audit_inv_genesis: "audit_inv sha genesis"
  by (simp add: audit_inv_def genesis_def)

lemma audit_inv_end:
  assumes "audit_inv sha t"
  obtains h where "chain_end sha 0 Sha256Hash_ZERO (audit_chain t) = Some h" "head_hash t = to_hex h" "wf_hash h"
  using assms chain_end_wf [of sha 0 Sha256Hash_ZERO "audit_chain t"] by (auto simp: audit_inv_def)

lemma audit_append_Ok:
  assumes inv: "audit_inv sha t" and ok: "audit_append sha ts event fs t = Ok (t', n)" and wf: "wf_fields fs"
  obtains row h where "t' = t\<lparr>audit_chain := audit_chain t @ [row], head_seq := head_seq t + 1, head_hash := to_hex h\<rparr>"
    "n = length (audit_chain t) + 1" "chain_end sha 0 Sha256Hash_ZERO (audit_chain t @ [row]) = Some h"
    "n \<le> AUDIT_MAX_SAFE_INTEGER"
proof -
  obtain p where p: "chain_end sha 0 Sha256Hash_ZERO (audit_chain t) = Some p" "head_hash t = to_hex p" "wf_hash p"
    using audit_inv_end [OF inv] .
  let ?n = "length (audit_chain t) + 1"
  have q: "head_seq t = int (length (audit_chain t))" using inv by (simp add: audit_inv_def)
  obtain obj full where u: "unsigned_record ?n p ts event fs = Ok obj"
      "insert_member ''hash'' (JString (to_hex (chain_hash sha p (to_canonical_bytes (JObject obj))))) obj = Ok full"
      "length (to_canonical_bytes (JObject full)) \<le> MAX_RECORD_BYTES" "n = ?n"
      "t' = t\<lparr>audit_chain := audit_chain t @ [\<lparr>row_seq = int ?n, row_prev = to_hex p,
        row_hash = to_hex (chain_hash sha p (to_canonical_bytes (JObject obj))), row_record = to_canonical_bytes (JObject full)\<rparr>],
        head_seq := int ?n, head_hash := to_hex (chain_hash sha p (to_canonical_bytes (JObject obj)))\<rparr>"
    using ok
    by (auto simp: audit_append_def and_then_Ok_iff p(2) q from_hex_to_hex [OF p(3)] u64_try_from_def map_err_def Let_def
      insert_audit_chain_def update_audit_head_def split: if_splits sum.splits)
  from unsigned_record_Ok [OF u(1) wf] obtain extra where e: "obj = envelope ?n p ts event @ extra"
      "sound_members (MAX_DEPTH - 1) obj" "?n \<le> AUDIT_MAX_SAFE_INTEGER" by blast
  have "verify_line sha (to_canonical_bytes (JObject full)) ?n p =
      Ok \<lparr>verified_seq = ?n, verified_hash = chain_hash sha p (to_canonical_bytes (JObject obj))\<rparr>"
    by (rule signed_record_verifies [OF e(1,2) u(2) p(3) u(3)])
  then have "chain_end sha 0 Sha256Hash_ZERO (audit_chain t @ [\<lparr>row_seq = int ?n, row_prev = to_hex p,
        row_hash = to_hex (chain_hash sha p (to_canonical_bytes (JObject obj))), row_record = to_canonical_bytes (JObject full)\<rparr>]) =
      Some (chain_hash sha p (to_canonical_bytes (JObject obj)))"
    using p(1) by (simp add: chain_end_append)
  then show ?thesis
    by (rule that [rotated 2]) (use u(4,5) e(3) q in simp_all)
qed

lemma audit_append_inv:
  assumes "audit_inv sha t" "audit_append sha ts event fs t = Ok (t', n)" "wf_fields fs"
  shows "audit_inv sha t' \<and> n = length (audit_chain t') \<and> flushed_seq t' = flushed_seq t \<and>
    (\<exists>row. audit_chain t' = audit_chain t @ [row])"
proof (rule audit_append_Ok [OF assms])
  fix row h
  assume "t' = t\<lparr>audit_chain := audit_chain t @ [row], head_seq := head_seq t + 1, head_hash := to_hex h\<rparr>"
    "n = length (audit_chain t) + 1" "chain_end sha 0 Sha256Hash_ZERO (audit_chain t @ [row]) = Some h"
    "n \<le> AUDIT_MAX_SAFE_INTEGER"
  then show ?thesis using assms(1) by (auto simp: audit_inv_def nat_le_iff)
qed

lemma record_nth:
  assumes "audit_inv sha t" "k < length (audit_chain t)"
  shows "StoreChain_record (StoreChain_read t) (k + 1) = Some (row_record (audit_chain t ! k))"
proof -
  obtain h where h: "chain_end sha 0 Sha256Hash_ZERO (audit_chain t) = Some h" using audit_inv_end [OF assms(1)] .
  have seq: "row_seq (audit_chain t ! i) = int (i + 1)" if "i < length (audit_chain t)" for i
    using chain_end_nth [OF h that] by metis
  have "find (\<lambda>row. row_seq row = int (k + 1)) (audit_chain t) = Some (audit_chain t ! k)"
    unfolding find_Some_iff using assms(2) seq by (intro exI [of _ k]) auto
  moreover have "k + 1 \<le> I64_MAX"
    using assms by (simp add: audit_inv_def AUDIT_MAX_SAFE_INTEGER_def I64_MAX_def)
  ultimately show ?thesis by (simp add: StoreChain_record_def StoreChain_read_def)
qed

lemma chain_head_read:
  "audit_inv sha t \<Longrightarrow> chain_head (StoreChain_read t) = length (audit_chain t) \<and>
     chain_flushed (StoreChain_read t) = nat (flushed_seq t) \<and> nat (flushed_seq t) \<le> length (audit_chain t)"
  by (auto simp: audit_inv_def StoreChain_read_def u64_try_from_def)

lemma chain_steps: "audit_inv sha t \<Longrightarrow> n \<le> length (audit_chain t) \<Longrightarrow> n < U64_MAX"
  by (simp add: audit_inv_def AUDIT_MAX_SAFE_INTEGER_def U64_MAX_def)

section \<open>Comparison\<close>

text \<open>A log is a prefix of the chain up to record \<open>k\<close>, followed by part of the next record.\<close>

definition log_cut :: "AuditRow list \<Rightarrow> nat \<Rightarrow> string \<Rightarrow> string \<Rightarrow> bool" where
  "log_cut rows k t disk \<longleftrightarrow> k \<le> length rows \<and> disk = log_bytes (take k rows) @ t \<and>
     (t = [] \<or> k < length rows \<and> (\<exists>u. u \<noteq> [] \<and> row_record (rows ! k) @ [nl] = t @ u))"

lemma prefix_log_cut:
  "\<exists>u. log_bytes rows = disk @ u \<Longrightarrow> \<exists>k t. log_cut rows k t disk"
proof (induction rows arbitrary: disk)
  case Nil
  then show ?case by (auto simp: log_cut_def)
next
  case (Cons r rows)
  then obtain u where u: "row_record r @ nl # log_bytes rows = disk @ u" by auto
  then consider v where "disk = row_record r @ nl # v" "log_bytes rows = v @ u"
    | v where "v \<noteq> []" "row_record r @ [nl] = disk @ v"
    using append_eq_append_conv2 [of "row_record r @ [nl]" "log_bytes rows" disk u]
    by (metis append.assoc append_Cons append_Nil append.right_neutral)
  then show ?case
  proof cases
    case 1
    obtain k t where k: "log_cut rows k t v" using Cons.IH [of v] 1(2) by blast
    then have "log_cut (r # rows) (Suc k) t disk" using 1(1) by (simp add: log_cut_def)
    then show ?thesis by blast
  next
    case 2
    then have "log_cut (r # rows) 0 disk disk" by (auto simp: log_cut_def)
    then show ?thesis by blast
  qed
qed

lemma log_cut_prefix: "log_cut rows k t disk \<Longrightarrow> \<exists>u. log_bytes rows = disk @ u"
proof -
  assume c: "log_cut rows k t disk"
  have rows: "log_bytes rows = log_bytes (take k rows) @ log_bytes (drop k rows)"
    by (metis append_take_drop_id log_bytes_simps(3))
  show ?thesis
  proof (cases "t = []")
    case True
    then show ?thesis using c rows by (auto simp: log_cut_def)
  next
    case False
    then obtain u where u: "k < length rows" "row_record (rows ! k) @ [nl] = t @ u" using c by (auto simp: log_cut_def)
    have "log_bytes (drop k rows) = t @ u @ log_bytes (drop (Suc k) rows)"
      using u by (simp flip: Cons_nth_drop_Suc)
    then show ?thesis using c rows by (auto simp: log_cut_def)
  qed
qed

lemma compare_line:
  assumes inv: "audit_inv sha t" and n: "n < length (audit_chain t)"
    and h: "chain_end sha 0 Sha256Hash_ZERO (take n (audit_chain t)) = Some h"
    and h': "chain_end sha 0 Sha256Hash_ZERO (take (n + 1) (audit_chain t)) = Some h'"
  shows "compare_loop sha (StoreChain_read t) off n h (row_record (audit_chain t ! n) @ nl # rest) =
    compare_loop sha (StoreChain_read t) (off + length (row_record (audit_chain t ! n)) + 1) (n + 1) h' rest"
proof -
  obtain e where "chain_end sha 0 Sha256Hash_ZERO (audit_chain t) = Some e" using audit_inv_end [OF inv] .
  from chain_end_nth [OF this n] h h' obtain v where
      v: "verify_line sha (row_record (audit_chain t ! n)) (n + 1) h = Ok v" "verified_hash v = h'"
    by (metis option.inject)
  have "read_chunk (row_record (audit_chain t ! n) @ nl # rest) = Some (Line (row_record (audit_chain t ! n)), rest)"
    using read_chunk_line verified_line [OF v(1)] by simp
  moreover have "saturating_add n 1 = n + 1"
    using chain_steps [OF inv, of n] n by (simp add: saturating_add_def)
  ultimately show ?thesis
    using v record_nth [OF inv n] chain_head_read [OF inv] n
    by (subst compare_loop.simps) simp
qed

lemma compare_lines:
  assumes inv: "audit_inv sha t"
  shows "n + m \<le> length (audit_chain t) \<Longrightarrow>
    chain_end sha 0 Sha256Hash_ZERO (take n (audit_chain t)) = Some h \<Longrightarrow>
    chain_end sha 0 Sha256Hash_ZERO (take (n + m) (audit_chain t)) = Some h' \<Longrightarrow>
    compare_loop sha (StoreChain_read t) off n h (log_bytes (take m (drop n (audit_chain t))) @ rest) =
    compare_loop sha (StoreChain_read t) (off + length (log_bytes (take m (drop n (audit_chain t))))) (n + m) h' rest"
proof (induction m arbitrary: n h off)
  case (Suc m)
  obtain e where e: "chain_end sha 0 Sha256Hash_ZERO (audit_chain t) = Some e" using audit_inv_end [OF inv] .
  have n: "n < length (audit_chain t)" using Suc.prems(1) by simp
  obtain g where g: "chain_end sha 0 Sha256Hash_ZERO (take (n + 1) (audit_chain t)) = Some g"
    using chain_end_nth [OF e n] by metis
  have "take (Suc m) (drop n (audit_chain t)) = audit_chain t ! n # take m (drop (n + 1) (audit_chain t))"
    using n by (simp flip: Cons_nth_drop_Suc)
  then show ?case
    using compare_line [OF inv n Suc.prems(2) g] Suc.IH [of "n + 1" g] Suc.prems g by (simp add: ac_simps)
qed simp

lemma tail_of_record:
  assumes "audit_inv sha t" "k < length (audit_chain t)" "u \<noteq> []" "row_record (audit_chain t ! k) @ [nl] = s @ u"
  shows "nl \<notin> set s" "length s \<le> MAX_RECORD_BYTES"
proof -
  obtain e where e: "chain_end sha 0 Sha256Hash_ZERO (audit_chain t) = Some e" using audit_inv_end [OF assms(1)] .
  obtain g v where "verify_line sha (row_record (audit_chain t ! k)) (k + 1) g = Ok v"
    using chain_end_nth [OF e assms(2)] by metis
  then have v: "nl \<notin> set (row_record (audit_chain t ! k))" "length (row_record (audit_chain t ! k)) \<le> MAX_RECORD_BYTES"
    using verified_line by blast+
  obtain w where "row_record (audit_chain t ! k) = s @ w"
    using assms(3,4) by (metis append_butlast_last_id append_assoc butlast_append butlast_snoc)
  then show "nl \<notin> set s" "length s \<le> MAX_RECORD_BYTES" using v by auto
qed

lemma compare_cut:
  assumes inv: "audit_inv sha t" and cut: "log_cut (audit_chain t) k s disk" and fl: "nat (flushed_seq t) \<le> k"
    and h: "chain_end sha 0 Sha256Hash_ZERO (take k (audit_chain t)) = Some h"
  shows "compare_log sha disk (StoreChain_read t) = Ok
    \<lparr>comparison = \<lparr>log_records = k, store_head = length (audit_chain t), store_flushed = nat (flushed_seq t),
                    pending_torn_tail = (s \<noteq> [])\<rparr>,
     tail_part = (if s = [] then None else Some (length (log_bytes (take k (audit_chain t))), s)), compared_head = h\<rparr>"
proof -
  let ?C = "StoreChain_read t" and ?L = "log_bytes (take k (audit_chain t))"
  have k: "k \<le> length (audit_chain t)" "disk = ?L @ s" using cut by (auto simp: log_cut_def)
  have c: "compare_loop sha ?C 0 0 Sha256Hash_ZERO disk = compare_loop sha ?C (length ?L) k h s"
    using compare_lines [OF inv, of 0 k Sha256Hash_ZERO h 0 s] k h by simp
  show ?thesis
  proof (cases "s = []")
    case True
    then have "compare_loop sha ?C 0 0 Sha256Hash_ZERO disk = Ok (k, h, None)"
      unfolding c by (subst compare_loop.simps) (simp add: read_chunk_Nil)
    then show ?thesis using True chain_head_read [OF inv] fl by (simp add: compare_log_def)
  next
    case False
    then obtain u where u: "k < length (audit_chain t)" "u \<noteq> []" "row_record (audit_chain t ! k) @ [nl] = s @ u"
      using cut by (auto simp: log_cut_def)
    have "compare_loop sha ?C 0 0 Sha256Hash_ZERO disk = Ok (k, h, Some (length ?L, s))"
      unfolding c using read_chunk_tail [OF tail_of_record [OF inv u] False] by (subst compare_loop.simps) simp
    moreover have "saturating_add k 1 = k + 1" using chain_steps [OF inv k(1)] by (simp add: saturating_add_def)
    ultimately show ?thesis
      using False chain_head_read [OF inv] fl u record_nth [OF inv u(1)]
      by (simp add: compare_log_def Let_def starts_with_def)
  qed
qed

lemma compare_loop_sound:
  assumes inv: "audit_inv sha t"
  shows "compare_loop sha (StoreChain_read t) off n h disk = Ok (k, h', torn) \<Longrightarrow> n \<le> length (audit_chain t) \<Longrightarrow>
    chain_end sha 0 Sha256Hash_ZERO (take n (audit_chain t)) = Some h \<Longrightarrow>
    n \<le> k \<and> k \<le> length (audit_chain t) \<and> (\<exists>s. disk = log_bytes (take (k - n) (drop n (audit_chain t))) @ s \<and>
      map_option snd torn = (if s = [] then None else Some s))"
proof (induction "length disk" arbitrary: off n h disk rule: less_induct)
  case less
  have sat: "saturating_add n 1 = n + 1" using chain_steps [OF inv less.prems(2)] by (simp add: saturating_add_def)
  show ?case
  proof (cases "read_chunk disk")
    case None
    then have "disk = []" by (simp add: read_chunk_None)
    then show ?thesis using less.prems None by (subst (asm) compare_loop.simps) auto
  next
    case (Some cr)
    obtain c rest where cr: "cr = (c, rest)" by (cases cr)
    note loop = less.prems(1) [unfolded compare_loop.simps [of _ _ _ _ _ disk] Some cr option.case prod.case]
    show ?thesis
    proof (cases c)
      case (Line b)
      have n: "n < length (audit_chain t)" and b: "row_record (audit_chain t ! n) = b"
        using loop Line sat record_nth [OF inv, of n] chain_head_read [OF inv]
        by (auto simp: Let_def not_less Suc_le_eq split: if_splits sum.splits)
      obtain e where e: "chain_end sha 0 Sha256Hash_ZERO (audit_chain t) = Some e" using audit_inv_end [OF inv] .
      obtain v where v: "verify_line sha b (n + 1) h = Ok v"
          "chain_end sha 0 Sha256Hash_ZERO (take (n + 1) (audit_chain t)) = Some (verified_hash v)"
        using chain_end_nth [OF e n] less.prems(3) b by (metis option.inject)
      have r: "compare_loop sha (StoreChain_read t) (off + (length disk - length rest)) (n + 1) (verified_hash v) rest = Ok (k, h', torn)"
        using loop Line sat v(1) by (auto simp: Let_def split: if_splits)
      have disk: "disk = b @ nl # rest" using read_chunk_Line Some cr Line by simp
      have "n + 1 \<le> k \<and> k \<le> length (audit_chain t) \<and>
          (\<exists>s. rest = log_bytes (take (k - (n + 1)) (drop (n + 1) (audit_chain t))) @ s \<and>
            map_option snd torn = (if s = [] then None else Some s))"
        by (rule less.hyps [OF _ r _ v(2)]) (use disk n in simp_all)
      moreover have "take (k - n) (drop n (audit_chain t)) = audit_chain t ! n # take (k - (n + 1)) (drop (n + 1) (audit_chain t))"
        if "n + 1 \<le> k"
      proof -
        have "k - n = Suc (k - (n + 1))" using that by simp
        then show ?thesis using n by (simp flip: Cons_nth_drop_Suc)
      qed
      ultimately show ?thesis using disk b by auto
    next
      case (Tail b)
      then show ?thesis using loop less.prems(2) read_chunk_Tail Some cr by auto
    next
      case OversizedChunk
      then show ?thesis using loop by simp
    qed
  qed
qed

lemma compare_log_sound:
  assumes inv: "audit_inv sha t" and ok: "compare_log sha disk (StoreChain_read t) = Ok found"
  shows "\<exists>k s. log_cut (audit_chain t) k s disk \<and> nat (flushed_seq t) \<le> k"
proof -
  obtain k h torn where l: "compare_loop sha (StoreChain_read t) 0 0 Sha256Hash_ZERO disk = Ok (k, h, torn)"
      and fl: "nat (flushed_seq t) \<le> k"
    using ok chain_head_read [OF inv] by (auto simp: compare_log_def and_then_Ok_iff split: if_splits)
  from compare_loop_sound [OF inv l] obtain s where
      s: "k \<le> length (audit_chain t)" "disk = log_bytes (take k (audit_chain t)) @ s"
        "map_option snd torn = (if s = [] then None else Some s)"
    by auto
  have "k < length (audit_chain t) \<and> (\<exists>u. u \<noteq> [] \<and> row_record (audit_chain t ! k) @ [nl] = s @ u)" if ne: "s \<noteq> []"
  proof -
    obtain o' where torn: "torn = Some (o', s)" using s(3) ne by (cases torn) auto
    have sat: "saturating_add k 1 = k + 1" using chain_steps [OF inv s(1)] by (simp add: saturating_add_def)
    have k: "k < length (audit_chain t)"
      using ok l torn sat chain_head_read [OF inv] fl
      by (auto simp: compare_log_def Let_def not_less split: if_splits option.splits)
    then have "length s < length (row_record (audit_chain t ! k) @ [nl]) \<and> starts_with (row_record (audit_chain t ! k) @ [nl]) s"
      using ok l torn sat chain_head_read [OF inv] fl record_nth [OF inv k]
      by (auto simp: compare_log_def Let_def not_le split: if_splits)
    then obtain u where "row_record (audit_chain t ! k) @ [nl] = s @ u" by (auto simp: starts_with_prefix prefix_def)
    then show ?thesis
      using k \<open>length s < length (row_record (audit_chain t ! k) @ [nl]) \<and> _\<close> by (intro conjI exI [of _ u]) auto
  qed
  then show ?thesis using s fl by (auto simp: log_cut_def)
qed

section \<open>Recovery\<close>

lemma recover_loop_complete:
  assumes inv: "audit_inv sha t" and e: "chain_end sha 0 Sha256Hash_ZERO (audit_chain t) = Some e"
  shows "n + m = length (audit_chain t) \<Longrightarrow> chain_end sha 0 Sha256Hash_ZERO (take n (audit_chain t)) = Some h \<Longrightarrow>
    recover_loop sha (StoreChain_read t) n h disk a =
      Ok (length (audit_chain t), e, disk @ log_bytes (drop n (audit_chain t)), a + m)"
proof (induction m arbitrary: n h disk a)
  case 0
  then show ?case using chain_head_read [OF inv] e by (subst recover_loop.simps) simp
next
  case (Suc m)
  have n: "n < length (audit_chain t)" using Suc.prems(1) by simp
  obtain v where v: "verify_line sha (row_record (audit_chain t ! n)) (n + 1) h = Ok v"
      "chain_end sha 0 Sha256Hash_ZERO (take (n + 1) (audit_chain t)) = Some (verified_hash v)"
    using chain_end_nth [OF e n] Suc.prems(2) by (metis option.inject)
  have "log_bytes (drop n (audit_chain t)) = row_record (audit_chain t ! n) @ nl # log_bytes (drop (n + 1) (audit_chain t))"
    using n by (simp flip: Cons_nth_drop_Suc)
  then show ?case
    using Suc.IH [of "n + 1" "verified_hash v"] Suc.prems v record_nth [OF inv n] chain_head_read [OF inv] n
    by (subst recover_loop.simps) simp
qed

text \<open>The tables after the whole chain is marked as flushed.\<close>

definition all_flushed :: "AuditTables \<Rightarrow> AuditTables" where
  "all_flushed t = t\<lparr>flushed_seq := head_seq t, flushed_hash := head_hash t\<rparr>"

lemma audit_inv_all_flushed: "audit_inv sha t \<Longrightarrow> audit_inv sha (all_flushed t)"
  by (simp add: audit_inv_def all_flushed_def)

lemma mark_all_flushed:
  assumes inv: "audit_inv sha t" and e: "chain_end sha 0 Sha256Hash_ZERO (audit_chain t) = Some e"
  shows "update_audit_state (int (length (audit_chain t))) (to_hex e) t = Ok (all_flushed t)"
proof -
  have "length (to_hex e) = 64" using chain_end_wf [OF e wf_ZERO] by (simp add: length_to_hex wf_hash_def)
  then show ?thesis
    using inv e by (simp add: audit_inv_def update_audit_state_def all_flushed_def)
qed

lemma recover_cut:
  assumes inv: "audit_inv sha t" and cut: "log_cut (audit_chain t) k s disk" and fl: "nat (flushed_seq t) \<le> k"
    and e: "chain_end sha 0 Sha256Hash_ZERO (audit_chain t) = Some e"
  shows "recover sha t disk = Ok
    (\<lparr>rec_durable_seq = length (audit_chain t), rec_durable_hash = e, reconciled = k - nat (flushed_seq t),
      appended = length (audit_chain t) - k, torn_tail_bytes = length s\<rparr>,
     all_flushed t, log_bytes (audit_chain t))"
proof -
  have k: "k \<le> length (audit_chain t)" "disk = log_bytes (take k (audit_chain t)) @ s" using cut by (auto simp: log_cut_def)
  obtain h where h: "chain_end sha 0 Sha256Hash_ZERO (take k (audit_chain t)) = Some h"
    using e chain_end_append [of sha 0 Sha256Hash_ZERO "take k (audit_chain t)" "drop k (audit_chain t)"]
    by (auto split: option.splits)
  have l: "log_bytes (take k (audit_chain t)) @ log_bytes (drop k (audit_chain t)) = log_bytes (audit_chain t)"
    by (metis append_take_drop_id log_bytes_simps(3))
  have b: "\<not> I64_MAX < length (audit_chain t)"
    using inv by (simp add: audit_inv_def AUDIT_MAX_SAFE_INTEGER_def I64_MAX_def)
  have r: "recover_loop sha (StoreChain_read t) k h (log_bytes (take k (audit_chain t))) 0 =
      Ok (length (audit_chain t), e, log_bytes (audit_chain t), length (audit_chain t) - k)"
    using recover_loop_complete [OF inv e, of k "length (audit_chain t) - k" h] k(1) h l by simp
  show ?thesis
    using compare_cut [OF inv cut fl h] r b mark_all_flushed [OF inv e] k(2)
    by (cases "s = []") (simp_all add: recover_def Let_def map_err_def)
qed

lemma recover_exact:
  assumes inv: "audit_inv sha t"
  shows "(\<exists>k s. log_cut (audit_chain t) k s disk \<and> nat (flushed_seq t) \<le> k) \<longleftrightarrow>
    (\<exists>r. recover sha t disk = Ok (r, all_flushed t, log_bytes (audit_chain t)))"
    and "recover sha t disk = Ok (r, t', disk') \<Longrightarrow>
      \<exists>k s. log_cut (audit_chain t) k s disk \<and> nat (flushed_seq t) \<le> k \<and> t' = all_flushed t \<and> disk' = log_bytes (audit_chain t)"
proof -
  obtain e where e: "chain_end sha 0 Sha256Hash_ZERO (audit_chain t) = Some e" using audit_inv_end [OF inv] .
  have cut: "\<exists>k s. log_cut (audit_chain t) k s disk \<and> nat (flushed_seq t) \<le> k" if rx: "recover sha t disk = Ok x" for x
  proof -
    obtain found where "compare_log sha disk (StoreChain_read t) = Ok found"
      using rx by (cases "compare_log sha disk (StoreChain_read t)") (auto simp: recover_def Let_def map_err_def)
    then show ?thesis by (rule compare_log_sound [OF inv])
  qed
  show "(\<exists>k s. log_cut (audit_chain t) k s disk \<and> nat (flushed_seq t) \<le> k) \<longleftrightarrow>
      (\<exists>r. recover sha t disk = Ok (r, all_flushed t, log_bytes (audit_chain t)))"
    using cut recover_cut [OF inv _ _ e] by blast
  show "\<exists>k s. log_cut (audit_chain t) k s disk \<and> nat (flushed_seq t) \<le> k \<and> t' = all_flushed t \<and> disk' = log_bytes (audit_chain t)"
    if ok: "recover sha t disk = Ok (r, t', disk')"
  proof -
    obtain k s where k: "log_cut (audit_chain t) k s disk" "nat (flushed_seq t) \<le> k" using cut [OF ok] by blast
    then show ?thesis using recover_cut [OF inv k e] ok by auto
  qed
qed

end
