(* ===== verification/Auth_Flush.thy ===== *)
theory Auth_Flush
  imports Auth_Log_Laws
begin

text \<open>
  The audit writer (\<^verbatim>\<open>AuditWriter\<close> of \<^verbatim>\<open>state/audit.rs\<close>) and the life of the log across crashes. The
  crash hook, the writes and the sync answer as the argument \<open>env\<close> says: the \<open>i\<close>-th consultation of
  the hook, the \<open>i\<close>-th write (which may stop after some bytes), the sync. A file remembers how many of
  its bytes are synced: a loss of power keeps at least those, and a prefix of the rest.
\<close>

section \<open>The writer\<close>

record flush_env =
  crash_hook :: "nat \<Rightarrow> CrashPoint \<Rightarrow> (unit, AuthorityError) result"
  write_fails :: "nat \<Rightarrow> nat option"
  sync_fails :: bool

record LogFile =
  contents :: string
  synced :: nat

record AuditWriter =
  durable_seq :: nat
  durable_hash :: Sha256Hash

datatype FlushFailure = FlushIo | FlushSqlite SqliteError | Stopped AuthorityError | FlushDiverged string

definition AuditWriter_open :: "Recovered \<Rightarrow> AuditWriter" where
  "AuditWriter_open recovered = \<lparr>durable_seq = rec_durable_seq recovered, durable_hash = rec_durable_hash recovered\<rparr>"

definition write_all :: "flush_env \<Rightarrow> nat \<Rightarrow> string \<Rightarrow> string \<Rightarrow> bool \<times> string" where
  "write_all env i bytes contents' =
     (case write_fails env i of
        None \<Rightarrow> (True, contents' @ bytes)
      | Some n \<Rightarrow> (False, contents' @ take n bytes))"

fun flush_rows :: "flush_env \<Rightarrow> nat \<Rightarrow> AuditRow list \<Rightarrow> nat \<Rightarrow> Sha256Hash \<Rightarrow> string \<Rightarrow>
    (nat \<times> Sha256Hash, FlushFailure) result \<times> string" where
  "flush_rows env i [] seq hash out = (Ok (seq, hash), out)"
| "flush_rows env i (row # rows) seq hash out =
     (let next = saturating_add seq 1 in
      if u64_try_from (row_seq row) \<noteq> Some next \<or> row_prev row \<noteq> to_hex hash
      then (Err (FlushDiverged (''the outbox does not extend the durable chain at record '' @ show_nat next)), out)
      else let line = row_record row @ [CHR 0x0A]; half = drop_bit 1 (length line) in
        (case write_all env (2 * i) (take half line) out of
           (False, out) \<Rightarrow> (Err FlushIo, out)
         | (True, out) \<Rightarrow>
             (case crash_hook env (1 + i) MidAuditRecord of
                Inl stop \<Rightarrow> (Err (Stopped stop), out)
              | Inr _ \<Rightarrow>
                  (case write_all env (2 * i + 1) (drop half line) out of
                     (False, out) \<Rightarrow> (Err FlushIo, out)
                   | (True, out) \<Rightarrow>
                       (case from_hex (row_hash row) of
                          None \<Rightarrow> (Err (FlushDiverged (''record '' @ show_nat next @ '' has a malformed hash'')), out)
                        | Some h \<Rightarrow> flush_rows env (i + 1) rows next h out)))))"

definition flush_mark :: "flush_env \<Rightarrow> nat \<Rightarrow> AuditWriter \<Rightarrow> AuditTables \<Rightarrow> AuditTables \<times> (unit, FlushFailure) result" where
  "flush_mark env i writer conn =
     (case crash_hook env i AfterAuditSyncBeforeMark of
        Inl stop \<Rightarrow> (conn, Err (Stopped stop))
      | Inr _ \<Rightarrow>
          if I64_MAX < durable_seq writer then (conn, Err (FlushDiverged ''audit sequence overflow''))
          else (case (if flushed_seq conn < int (durable_seq writer)
                      then update_audit_state (int (durable_seq writer)) (to_hex (durable_hash writer)) conn
                      else Ok conn) of
              Inl error \<Rightarrow> (conn, Err (FlushSqlite error))
            | Inr conn \<Rightarrow>
                (case crash_hook env (i + 1) AfterAuditMark of
                   Inl stop \<Rightarrow> (conn, Err (Stopped stop))
                 | Inr _ \<Rightarrow> (conn, Ok ()))))"

definition flush_through :: "flush_env \<Rightarrow> nat \<Rightarrow> AuditWriter \<times> LogFile \<times> AuditTables \<Rightarrow>
    (AuditWriter \<times> LogFile \<times> AuditTables) \<times> (unit, FlushFailure) result" where
  "flush_through env target st =
     (case st of (self, log, conn) \<Rightarrow>
      if target \<le> durable_seq self then (st, Ok ())
      else (case crash_hook env 0 AfterCommitBeforeAudit of
         Inl stop \<Rightarrow> (st, Err (Stopped stop))
       | Inr _ \<Rightarrow>
           if I64_MAX < durable_seq self then (st, Err (FlushDiverged ''audit sequence overflow''))
           else let pending' = sort_key row_seq (filter (\<lambda>row. int (durable_seq self) < row_seq row) (audit_chain conn));
                    n = length pending' in
             (case flush_rows env 0 pending' (durable_seq self) (durable_hash self) (contents log) of
                (Inl failure, out) \<Rightarrow> ((self, log\<lparr>contents := out\<rparr>, conn), Err failure)
              | (Inr (seq, hash), out) \<Rightarrow>
                  let log = log\<lparr>contents := out\<rparr> in
                  if seq < target
                  then ((self, log, conn), Err (FlushDiverged (''record '' @ show_nat target @ '' is not in the outbox'')))
                  else (case crash_hook env (1 + n) AfterAuditWriteBeforeSync of
                     Inl stop \<Rightarrow> ((self, log, conn), Err (Stopped stop))
                   | Inr _ \<Rightarrow>
                       if sync_fails env then ((self, log, conn), Err FlushIo)
                       else let log = log\<lparr>synced := length (contents log)\<rparr>;
                                self = \<lparr>durable_seq = seq, durable_hash = hash\<rparr>
                         in (case flush_mark env (2 + n) self conn of (conn, r) \<Rightarrow> ((self, log, conn), r))))))"

definition no_faults :: flush_env where
  "no_faults = \<lparr>crash_hook = (\<lambda>_ _. Ok ()), write_fails = (\<lambda>_. None), sync_fails = False\<rparr>"

section \<open>The log across crashes\<close>

record audit_system =
  tables :: AuditTables
  log :: LogFile
  writer :: "AuditWriter option"

text \<open>
  A commit appends one record to the outbox, when the store is created or migrated, or while it
  serves; a flush that fails poisons the store, so that the writer
  is gone until the next start; a crash or a loss of power may come at any time, during recovery too.
\<close>

inductive audit_step :: "(string \<Rightarrow> string) \<Rightarrow> audit_system \<Rightarrow> audit_system \<Rightarrow> bool" for sha where
  Commit: "wf_fields fs \<Longrightarrow> audit_append sha ts event fs (tables s) = Ok (t, n) \<Longrightarrow>
    audit_step sha s (s\<lparr>tables := t\<rparr>)"
| Flush: "writer s = Some w \<Longrightarrow> flush_through env target (w, log s, tables s) = ((w', l, t), Ok ()) \<Longrightarrow>
    audit_step sha s \<lparr>tables = t, log = l, writer = Some w'\<rparr>"
| FlushFails: "writer s = Some w \<Longrightarrow> flush_through env target (w, log s, tables s) = ((w', l, t), Err failure) \<Longrightarrow>
    audit_step sha s \<lparr>tables = t, log = l, writer = None\<rparr>"
| Crash: "synced (log s) \<le> m \<Longrightarrow>
    audit_step sha s (s\<lparr>log := (log s)\<lparr>contents := take m (contents (log s))\<rparr>, writer := None\<rparr>)"
| Start: "recover sha (tables s) (contents (log s)) = Ok (r, t, f) \<Longrightarrow>
    audit_step sha s \<lparr>tables = t, log = \<lparr>contents = f, synced = length f\<rparr>, writer = Some (AuditWriter_open r)\<rparr>"
| StartCrash: "recover sha (tables s) (contents (log s)) = Ok (r, t, f) \<Longrightarrow> synced (log s) \<le> m \<Longrightarrow>
    audit_step sha s (s\<lparr>log := (log s)\<lparr>contents := take m f\<rparr>, writer := None\<rparr>)"

definition audit_init :: audit_system where
  "audit_init = \<lparr>tables = genesis, log = \<lparr>contents = [], synced = 0\<rparr>, writer = None\<rparr>"

inductive audit_reachable :: "(string \<Rightarrow> string) \<Rightarrow> audit_system \<Rightarrow> bool" for sha where
  reachable_init: "audit_reachable sha audit_init"
| reachable_step: "audit_reachable sha s \<Longrightarrow> audit_step sha s s' \<Longrightarrow> audit_reachable sha s'"

inductive_cases audit_stepE: "audit_step sha s s'"

section \<open>The pending rows\<close>

lemma chain_end_Cons:
  assumes "chain_end sha n h (r # rows) = Some e"
  obtains v where "verify_line sha (row_record r) (n + 1) h = Ok v" "row_seq r = int (n + 1)" "row_prev r = to_hex h"
    "row_hash r = to_hex (verified_hash v)" "from_hex (row_hash r) = Some (verified_hash v)"
    "chain_end sha (n + 1) (verified_hash v) rows = Some e"
proof -
  obtain v where v: "verify_line sha (row_record r) (n + 1) h = Ok v" "row_seq r = int (n + 1)" "row_prev r = to_hex h"
      "row_hash r = to_hex (verified_hash v)" "chain_end sha (n + 1) (verified_hash v) rows = Some e"
    using assms by (auto split: sum.splits if_splits)
  moreover have "wf_hash (verified_hash v)" using verify_line_Ok [OF v(1)] by metis
  ultimately show ?thesis using that from_hex_to_hex by metis
qed

lemma chain_seqs: "chain_end sha n h rows = Some e \<Longrightarrow> map row_seq rows = map int [n + 1..<n + 1 + length rows]"
proof (induction rows arbitrary: n h)
  case (Cons r rows)
  from Cons.prems obtain v :: Verified where "row_seq r = int (n + 1)" "chain_end sha (n + 1) (verified_hash v) rows = Some e"
    by (rule chain_end_Cons) blast
  with Cons.IH show ?case by (simp add: upt_conv_Cons del: upt_Suc)
qed simp

lemma pending_rows:
  assumes "chain_end sha 0 h rows = Some e"
  shows "sort_key row_seq (filter (\<lambda>row. int d < row_seq row) rows) = drop d rows"
proof -
  have seq: "row_seq (rows ! i) = int (i + 1)" if "i < length rows" for i
    using chain_end_nth [OF assms that] by metis
  have "filter (\<lambda>row. int d < row_seq row) (take d rows) = []"
    using seq by (auto simp: filter_empty_conv in_set_conv_nth)
  moreover have "filter (\<lambda>row. int d < row_seq row) (drop d rows) = drop d rows"
    using seq by (auto simp: filter_id_conv in_set_conv_nth)
  ultimately have "filter (\<lambda>row. int d < row_seq row) rows = drop d rows"
    by (metis append_Nil append_take_drop_id filter_append)
  moreover have "sorted (map int [1..<1 + length rows])" by (simp add: sorted_wrt_map del: upt_Suc)
  then have "sorted (map row_seq (drop d rows))"
    using chain_seqs [OF assms] by (metis add_0 drop_map sorted_wrt_drop)
  ultimately show ?thesis by (simp add: sort_key_id_if_sorted)
qed

section \<open>What a flush writes\<close>

lemma write_all_prefix: "write_all env i b out = (ok, out') \<Longrightarrow> \<exists>u v. b = u @ v \<and> out' = out @ u \<and> (ok \<longrightarrow> v = [])"
  by (auto simp: write_all_def split: option.splits) (metis append_take_drop_id)

lemma flush_rows_chain:
  "chain_end sha n h rows = Some e \<Longrightarrow> n + length rows < U64_MAX \<Longrightarrow> flush_rows env i rows n h out = (r, out') \<Longrightarrow>
     (\<exists>u v. log_bytes rows = u @ v \<and> out' = out @ u) \<and>
     (case r of Inr p \<Rightarrow> p = (n + length rows, e) \<and> out' = out @ log_bytes rows | Inl f \<Rightarrow> env \<noteq> no_faults \<and> (\<forall>w. f \<noteq> FlushDiverged w))"
proof (induction rows arbitrary: i n h out)
  case (Cons row rows)
  from Cons.prems(1) obtain v :: Verified where v: "row_seq row = int (n + 1)" "row_prev row = to_hex h"
      "from_hex (row_hash row) = Some (verified_hash v)" "chain_end sha (n + 1) (verified_hash v) rows = Some e"
    by (rule chain_end_Cons) blast
  have sat: "saturating_add n 1 = n + 1" using Cons.prems(2) by (simp add: saturating_add_def)
  let ?line = "row_record row @ [nl]" let ?half = "drop_bit 1 (length ?line)"
  have log: "log_bytes (row # rows) = take ?half ?line @ drop ?half ?line @ log_bytes rows"
    using append_take_drop_id [of ?half ?line] by (metis append.assoc append_Cons append_Nil log_bytes_simps(2))
  obtain ok1 out1 where w1: "write_all env (2 * i) (take ?half ?line) out = (ok1, out1)" by fastforce
  obtain ok2 out2 where w2: "write_all env (2 * i + 1) (drop ?half ?line) out1 = (ok2, out2)" by fastforce
  note step = Cons.prems(3) [unfolded flush_rows.simps Let_def sat, unfolded v(1,2,3) u64_try_from_int w1 prod.case simp_thms if_False]
  show ?case
  proof (cases ok1)
    case False
    with step have "r = Err FlushIo" "out' = out1" by (simp_all split: bool.splits)
    moreover have "env \<noteq> no_faults" using False w1 by (auto simp: write_all_def no_faults_def)
    moreover obtain u v' where uv: "take ?half ?line = u @ v'" "out1 = out @ u" using write_all_prefix [OF w1] by blast
    have "log_bytes (row # rows) = u @ (v' @ drop ?half ?line @ log_bytes rows)" unfolding log uv(1) by (rule append.assoc)
    then have "\<exists>u v. log_bytes (row # rows) = u @ v \<and> out1 = out @ u" using uv(2) by blast
    ultimately show ?thesis by (simp del: log_bytes_simps)
  next
    case True
    then have o1: "out1 = out @ take ?half ?line" using write_all_prefix [OF w1] by auto
    show ?thesis
    proof (cases "crash_hook env (1 + i) MidAuditRecord")
      case (Inl stop)
      then have "r = Err (Stopped stop)" "out' = out1" using step True by simp_all
      moreover have "env \<noteq> no_faults" using Inl by (auto simp: no_faults_def)
      moreover have "\<exists>u v. log_bytes (row # rows) = u @ v \<and> out1 = out @ u" using o1 log by blast
      ultimately show ?thesis by (simp del: log_bytes_simps)
    next
      case (Inr x)
      show ?thesis
      proof (cases ok2)
        case False
        then have "r = Err FlushIo" "out' = out2" using step True Inr w2 by simp_all
        have "env \<noteq> no_faults" using False w2 by (auto simp: write_all_def no_faults_def)
        obtain u v' where uv: "drop ?half ?line = u @ v'" "out2 = out1 @ u" using write_all_prefix [OF w2] by blast
        have "log_bytes (row # rows) = (take ?half ?line @ u) @ (v' @ log_bytes rows)" unfolding log uv(1) by (simp only: append.assoc)
        moreover have "out2 = out @ (take ?half ?line @ u)" using uv(2) o1 by (simp only: append.assoc)
        ultimately have "\<exists>u v. log_bytes (row # rows) = u @ v \<and> out2 = out @ u" by blast
        with \<open>r = Err FlushIo\<close> \<open>out' = out2\<close> \<open>env \<noteq> no_faults\<close> show ?thesis by (simp del: log_bytes_simps)
      next
        case ok: True
        then have "out2 = out1 @ drop ?half ?line" using write_all_prefix [OF w2] by auto
        then have o2: "out2 = out @ ?line" unfolding o1 append.assoc append_take_drop_id .
        have "flush_rows env (i + 1) rows (n + 1) (verified_hash v) out2 = (r, out')"
          using step True Inr w2 ok v(3) by simp
        from Cons.IH [OF v(4) _ this] Cons.prems(2) o2 show ?thesis by (auto split: sum.splits)
      qed
    qed
  qed
qed (auto split: sum.splits)

section \<open>The invariant\<close>

definition writer_ok :: "(string \<Rightarrow> string) \<Rightarrow> AuditTables \<Rightarrow> LogFile \<Rightarrow> AuditWriter \<Rightarrow> bool" where
  "writer_ok sha t l w \<longleftrightarrow> durable_seq w \<le> length (audit_chain t) \<and> nat (flushed_seq t) \<le> durable_seq w \<and>
     contents l = log_bytes (take (durable_seq w) (audit_chain t)) \<and> synced l = length (contents l) \<and>
     chain_end sha 0 Sha256Hash_ZERO (take (durable_seq w) (audit_chain t)) = Some (durable_hash w)"

definition log_ok :: "AuditTables \<Rightarrow> LogFile \<Rightarrow> bool" where
  "log_ok t l \<longleftrightarrow> (\<exists>u. log_bytes (audit_chain t) = contents l @ u) \<and>
     length (log_bytes (take (nat (flushed_seq t)) (audit_chain t))) \<le> synced l \<and> synced l \<le> length (contents l)"

definition sys_inv :: "(string \<Rightarrow> string) \<Rightarrow> audit_system \<Rightarrow> bool" where
  "sys_inv sha s \<longleftrightarrow> audit_inv sha (tables s) \<and> log_ok (tables s) (log s) \<and>
     pred_option (writer_ok sha (tables s) (log s)) (writer s)"

text \<open>What a flush leaves: the outbox untouched, the log a longer prefix of it, the marks in step.\<close>

lemma flush_mark_inv:
  assumes inv: "audit_inv sha t" and w: "durable_seq w \<le> length (audit_chain t)" "flushed_seq t \<le> int (durable_seq w)"
    and e: "chain_end sha 0 Sha256Hash_ZERO (take (durable_seq w) (audit_chain t)) = Some (durable_hash w)"
    and m: "flush_mark env i w t = (t', r)"
  shows "audit_inv sha t' \<and> audit_chain t' = audit_chain t \<and> (flushed_seq t' = flushed_seq t \<or> flushed_seq t' = int (durable_seq w)) \<and>
    (\<exists>x. (t' = t \<or> t' = t\<lparr>flushed_seq := int (durable_seq w), flushed_hash := x\<rparr>)) \<and>
    (r = Ok () \<longrightarrow> flushed_seq t' = int (durable_seq w)) \<and> (env = no_faults \<longrightarrow> r = Ok ())"
proof -
  have h: "length (to_hex (durable_hash w)) = 64" using chain_end_wf [OF e wf_ZERO] by (simp add: length_to_hex wf_hash_def)
  have u: "update_audit_state (int (durable_seq w)) (to_hex (durable_hash w)) t =
      Ok (t\<lparr>flushed_seq := int (durable_seq w), flushed_hash := to_hex (durable_hash w)\<rparr>)"
    using inv w h by (simp add: update_audit_state_def audit_inv_def)
  have i: "audit_inv sha (t\<lparr>flushed_seq := int (durable_seq w), flushed_hash := to_hex (durable_hash w)\<rparr>)"
    using inv w e by (simp add: audit_inv_def)
  have b: "\<not> I64_MAX < durable_seq w"
    using inv w(1) by (simp add: audit_inv_def AUDIT_MAX_SAFE_INTEGER_def I64_MAX_def)
  show ?thesis
    using m b u i inv w(2)
    by (auto simp: flush_mark_def no_faults_def split: sum.splits if_splits)
qed

lemma length_log_take: "length (log_bytes (take n rows)) \<le> length (log_bytes rows)"
  by (metis append_take_drop_id le_add1 length_append log_bytes_simps(3))

lemma flush_through_inv:
  assumes inv: "audit_inv sha t" and l: "log_ok t l" and w: "writer_ok sha t l w"
    and f: "flush_through env target (w, l, t) = ((w', l', t'), r)"
  shows "audit_inv sha t' \<and> audit_chain t' = audit_chain t \<and> log_ok t' l' \<and> synced l \<le> synced l' \<and>
    (r = Ok () \<longrightarrow> writer_ok sha t' l' w' \<and> target \<le> durable_seq w') \<and>
    (env = no_faults \<longrightarrow> target \<le> length (audit_chain t) \<longrightarrow> r = Ok ())"
proof -
  let ?rows = "audit_chain t" let ?d = "durable_seq w" let ?n = "length (audit_chain t)"
  obtain e where e: "chain_end sha 0 Sha256Hash_ZERO ?rows = Some e" using audit_inv_end [OF inv] .
  have d: "?d \<le> length ?rows" "nat (flushed_seq t) \<le> ?d" "contents l = log_bytes (take ?d ?rows)"
      "chain_end sha 0 Sha256Hash_ZERO (take ?d ?rows) = Some (durable_hash w)" "synced l = length (contents l)"
    using w by (auto simp: writer_ok_def)
  have rest: "chain_end sha ?d (durable_hash w) (drop ?d ?rows) = Some e"
    using e d(1,4) chain_end_append [of sha 0 Sha256Hash_ZERO "take ?d ?rows" "drop ?d ?rows"] by simp
  have b: "\<not> I64_MAX < ?d" "?d + length (drop ?d ?rows) < U64_MAX"
    using inv d(1) by (simp_all add: audit_inv_def AUDIT_MAX_SAFE_INTEGER_def I64_MAX_def U64_MAX_def)
  have all: "log_bytes ?rows = contents l @ log_bytes (drop ?d ?rows)"
    unfolding d(3) by (metis append_take_drop_id log_bytes_simps(3))
  obtain fr out where fr: "flush_rows env 0 (drop ?d ?rows) ?d (durable_hash w) (contents l) = (fr, out)" by fastforce
  note rows = flush_rows_chain [OF rest b(2) fr]
  obtain u where u: "log_bytes ?rows = out @ u" using rows all by auto
  have lo: "log_ok t (l\<lparr>contents := out\<rparr>)" using l u rows by (auto simp: log_ok_def)
  let ?q = "length (drop ?d ?rows)" let ?w = "\<lparr>durable_seq = ?n, durable_hash = e\<rparr>"
  let ?l = "l\<lparr>contents := out, synced := length out\<rparr>"
  have flush: "((w', l', t'), r) =
     (if target \<le> ?d then ((w, l, t), Ok ()) else
      case crash_hook env 0 AfterCommitBeforeAudit of Inl stop \<Rightarrow> ((w, l, t), Err (Stopped stop)) | Inr _ \<Rightarrow>
      (case fr of Inl failure \<Rightarrow> ((w, l\<lparr>contents := out\<rparr>, t), Err failure) | Inr _ \<Rightarrow>
       if ?n < target
       then ((w, l\<lparr>contents := out\<rparr>, t), Err (FlushDiverged (''record '' @ show_nat target @ '' is not in the outbox'')))
       else case crash_hook env (1 + ?q) AfterAuditWriteBeforeSync of
           Inl stop \<Rightarrow> ((w, l\<lparr>contents := out\<rparr>, t), Err (Stopped stop)) | Inr _ \<Rightarrow>
         if sync_fails env then ((w, l\<lparr>contents := out\<rparr>, t), Err FlushIo)
         else (case flush_mark env (2 + ?q) ?w t of (conn, r) \<Rightarrow> ((?w, ?l, conn), r))))"
  proof (cases fr)
    case (Inr p)
    then have p: "fr = Ok (?n, e)" using rows d(1) by simp
    show ?thesis
      unfolding f [symmetric] flush_through_def prod.case pending_rows [OF e] fr Let_def p sum.case
      using b(1)
      by (cases "crash_hook env 0 AfterCommitBeforeAudit"; cases "crash_hook env (1 + ?q) AfterAuditWriteBeforeSync") simp_all
  next
    case (Inl failure)
    then show ?thesis
      unfolding f [symmetric] flush_through_def prod.case pending_rows [OF e] fr Let_def
      using b(1) by (cases "crash_hook env 0 AfterCommitBeforeAudit") simp_all
  qed
  obtain t2 r2 where m: "flush_mark env (2 + ?q) ?w t = (t2, r2)" by fastforce
  have mark: "audit_inv sha t2 \<and> audit_chain t2 = audit_chain t \<and> flushed_seq t2 \<le> int ?n \<and>
      (r2 = Ok () \<longrightarrow> flushed_seq t2 = int ?n) \<and> (env = no_faults \<longrightarrow> r2 = Ok ())"
    using flush_mark_inv [OF inv _ _ _ m] e inv by (auto simp: audit_inv_def)
  show ?thesis
  proof (cases fr)
    case (Inl failure)
    then show ?thesis using flush inv l w lo rows by (auto split: if_splits sum.splits)
  next
    case (Inr p)
    then have out: "out = log_bytes ?rows" using rows all by simp
    have l2: "log_ok t2 ?l" using out mark l by (simp add: log_ok_def length_log_take)
    have w2: "writer_ok sha t2 ?l ?w" using out mark e by (auto simp: writer_ok_def)
    have s2: "synced l \<le> synced ?l" using d(5) all out by simp
    show ?thesis
      using flush Inr inv l w lo m mark l2 w2 s2 by (auto simp: no_faults_def split: if_splits sum.splits)
  qed
qed

lemma log_ok_cut:
  assumes inv: "audit_inv sha t" and l: "log_ok t l"
  shows "\<exists>k s. log_cut (audit_chain t) k s (contents l) \<and> nat (flushed_seq t) \<le> k"
proof -
  let ?rows = "audit_chain t" let ?f = "nat (flushed_seq t)"
  obtain k s where c: "log_cut ?rows k s (contents l)" using prefix_log_cut l unfolding log_ok_def by blast
  have "?f \<le> k"
  proof (rule ccontr)
    assume "\<not> ?f \<le> k"
    then have k: "k < length ?rows" "k + 1 \<le> ?f" using chain_head_read [OF inv] by simp_all
    have "length s < length (row_record (?rows ! k) @ [nl])"
      using c by (cases "s = []") (auto simp: log_cut_def dest!: arg_cong [of _ _ length])
    then have "length (contents l) < length (log_bytes (take (k + 1) ?rows))"
      using c k(1) by (simp add: log_cut_def take_Suc_conv_app_nth)
    also have "\<dots> \<le> length (log_bytes (take ?f ?rows))"
      using length_log_take [of "k + 1" "take ?f ?rows"] k(2) by (simp add: min_absorb1)
    also have "\<dots> \<le> length (contents l)" using l by (simp add: log_ok_def)
    finally show False by simp
  qed
  then show ?thesis using c by blast
qed

lemma recover_writer_ok:
  assumes inv: "audit_inv sha t" and l: "log_ok t l" and r: "recover sha t (contents l) = Ok (r, t', f)"
  shows "t' = all_flushed t \<and> f = log_bytes (audit_chain t) \<and> audit_inv sha t' \<and>
    log_ok t' \<lparr>contents = f, synced = length f\<rparr> \<and> writer_ok sha t' \<lparr>contents = f, synced = length f\<rparr> (AuditWriter_open r)"
proof -
  obtain e where e: "chain_end sha 0 Sha256Hash_ZERO (audit_chain t) = Some e" using audit_inv_end [OF inv] .
  obtain k s where k: "log_cut (audit_chain t) k s (contents l)" "nat (flushed_seq t) \<le> k" using log_ok_cut [OF inv l] by blast
  have n: "head_seq t = int (length (audit_chain t))" using inv by (simp add: audit_inv_def)
  show ?thesis
    using recover_cut [OF inv k e] r e audit_inv_all_flushed [OF inv] n
    by (auto simp: all_flushed_def log_ok_def writer_ok_def AuditWriter_open_def)
qed

lemma audit_step_inv:
  assumes step: "audit_step sha s s'" and inv: "sys_inv sha s"
  shows "sys_inv sha s' \<and> synced (log s) \<le> synced (log s') \<and> (\<exists>ext. audit_chain (tables s') = audit_chain (tables s) @ ext)"
  using step
proof cases
  case (Commit fs ts event t n)
  have a: "audit_inv sha t \<and> flushed_seq t = flushed_seq (tables s) \<and> (\<exists>row. audit_chain t = audit_chain (tables s) @ [row])"
    using audit_append_inv [OF _ Commit(3,2)] inv by (simp add: sys_inv_def)
  have "nat (flushed_seq (tables s)) \<le> length (audit_chain (tables s))"
    using inv chain_head_read by (auto simp: sys_inv_def)
  then have "log_ok t (log s)" using a inv by (auto simp: sys_inv_def log_ok_def)
  moreover have "pred_option (writer_ok sha t (log s)) (writer s)"
    using a inv by (cases "writer s") (auto simp: sys_inv_def writer_ok_def)
  ultimately show ?thesis using Commit(1) a by (auto simp: sys_inv_def)
next
  case (Flush w env target w' l t)
  then show ?thesis
    using flush_through_inv [of sha "tables s" "log s" w env target w' l t "Ok ()"] inv by (auto simp: sys_inv_def)
next
  case (FlushFails w env target w' l t failure)
  then show ?thesis
    using flush_through_inv [of sha "tables s" "log s" w env target w' l t "Err failure"] inv by (auto simp: sys_inv_def)
next
  case (Crash m)
  have "\<exists>u. contents (log s) @ v = take m (contents (log s)) @ u" for v by (metis append.assoc append_take_drop_id)
  then have "log_ok (tables s) ((log s)\<lparr>contents := take m (contents (log s))\<rparr>)"
    using inv Crash(2) by (auto simp: sys_inv_def log_ok_def)
  then show ?thesis using Crash(1) inv by (simp add: sys_inv_def)
next
  case (Start r t f)
  have i: "audit_inv sha (tables s)" "log_ok (tables s) (log s)" using inv by (simp_all add: sys_inv_def)
  obtain u where "log_bytes (audit_chain (tables s)) = contents (log s) @ u" "synced (log s) \<le> length (contents (log s))"
    using i(2) by (auto simp: log_ok_def)
  then have "synced (log s) \<le> length (log_bytes (audit_chain (tables s)))" by simp
  then show ?thesis using recover_writer_ok [OF i Start(2)] Start(1) by (auto simp: sys_inv_def all_flushed_def)
next
  case (StartCrash r t f m)
  have i: "audit_inv sha (tables s)" "log_ok (tables s) (log s)" using inv by (simp_all add: sys_inv_def)
  have f: "f = log_bytes (audit_chain (tables s))" using recover_writer_ok [OF i StartCrash(2)] by simp
  obtain u where "log_bytes (audit_chain (tables s)) = contents (log s) @ u" "synced (log s) \<le> length (contents (log s))"
    using i(2) by (auto simp: log_ok_def)
  then have "synced (log s) \<le> length (take m f)" using f StartCrash(3) by simp
  moreover have "\<exists>u. f = take m f @ u" by (metis append_take_drop_id)
  ultimately have "log_ok (tables s) ((log s)\<lparr>contents := take m f\<rparr>)" using i(2) f by (simp add: log_ok_def)
  then show ?thesis using StartCrash(1) i by (simp add: sys_inv_def)
qed

lemma audit_reachable_inv: "audit_reachable sha s \<Longrightarrow> sys_inv sha s"
proof (induction rule: audit_reachable.induct)
  case reachable_init
  show ?case using audit_inv_genesis by (simp add: sys_inv_def audit_init_def log_ok_def genesis_def)
qed (use audit_step_inv in blast)

lemma audit_steps_inv:
  "(audit_step sha)\<^sup>*\<^sup>* s s' \<Longrightarrow> sys_inv sha s \<Longrightarrow>
     sys_inv sha s' \<and> synced (log s) \<le> synced (log s') \<and> (\<exists>ext. audit_chain (tables s') = audit_chain (tables s) @ ext)"
proof (induction rule: rtranclp_induct)
  case (step y z)
  then show ?case using audit_step_inv [OF step.hyps(2)] by (metis append.assoc le_trans)
qed simp

lemma synced_prefix:
  assumes "sys_inv sha s" "audit_chain (tables s) = rows @ ext" "length (log_bytes rows) \<le> synced (log s)"
  shows "\<exists>u. contents (log s) = log_bytes rows @ u"
proof -
  obtain u where u: "log_bytes (rows @ ext) = contents (log s) @ u" "length (log_bytes rows) \<le> length (contents (log s))"
    using assms by (auto simp: sys_inv_def log_ok_def)
  then have "contents (log s) = take (length (contents (log s))) (log_bytes rows @ log_bytes ext)"
    by (metis append_eq_conv_conj log_bytes_simps(3))
  then show ?thesis using u(2) by (metis take_all_iff take_append)
qed

lemma verify_chain_log:
  assumes "audit_inv sha t"
  shows "\<exists>h. verify_audit_log sha (log_bytes (audit_chain t)) =
      Ok \<lparr>summary_records = length (audit_chain t), summary_head = h\<rparr> \<and> to_hex h = head_hash t"
proof -
  obtain h where h: "chain_end sha 0 Sha256Hash_ZERO (audit_chain t) = Some h" "head_hash t = to_hex h"
    using audit_inv_end [OF assms] .
  have "length (audit_chain t) \<le> U64_MAX"
    using chain_steps [OF assms, of "length (audit_chain t)"] by simp
  then have "verify_log_loop sha 0 Sha256Hash_ZERO (log_bytes (audit_chain t)) =
      verify_log_loop sha (length (audit_chain t)) h []"
    using verify_log_chain [OF h(1), of "[]"] by simp
  moreover have "verify_log_loop sha n g [] = Ok \<lparr>summary_records = n, summary_head = g\<rparr>" for n g
    by (subst verify_log_loop.simps) (simp add: read_chunk_Nil)
  ultimately show ?thesis using h(2) by (simp add: verify_audit_log_def)
qed

end
