(* ===== verification/Auth_Properties.thy ===== *)
theory Auth_Properties
  imports Auth_Flush
begin

text \<open>
  The correctness properties of the durable authority: identifiers, the audit chain, the log across
  crashes.
\<close>

section \<open>Tamper evidence\<close>

text \<open>The inputs the verifier gives to the digest while it reads a log, in order.\<close>

function log_inputs :: "(string \<Rightarrow> string) \<Rightarrow> nat \<Rightarrow> Sha256Hash \<Rightarrow> string \<Rightarrow> DomainHash list" where
  "log_inputs sha n head reader =
     (case read_chunk reader of
        Some (Line bytes, rest) \<Rightarrow>
          (case verify_line sha bytes (n + 1) head of
             Inl _ \<Rightarrow> []
           | Inr v \<Rightarrow> line_input head bytes # log_inputs sha (n + 1) (verified_hash v) rest)
      | _ \<Rightarrow> [])"
  by pat_completeness auto
termination
  by (relation "measure (\<lambda>(sha, n, head, reader). length reader)") (auto dest: read_chunk_shorter)

declare log_inputs.simps [simp del]

lemma log_inputs_line:
  assumes "verify_line sha b (n + 1) h = Ok v"
  shows "log_inputs sha n h (b @ nl # rest) = line_input h b # log_inputs sha (n + 1) (verified_hash v) rest"
  using assms read_chunk_line [of b rest] verified_line [OF assms] by (subst log_inputs.simps) simp

lemma log_inputs_nth:
  "chain_end sha n h rows = Some e \<Longrightarrow> i < length rows \<Longrightarrow> chain_end sha n h (take i rows) = Some g \<Longrightarrow>
     log_inputs sha n h (log_bytes rows) ! i = line_input g (row_record (rows ! i))"
proof (induction rows arbitrary: n h i)
  case (Cons r rows)
  from Cons.prems(1) obtain v :: Verified where v: "verify_line sha (row_record r) (n + 1) h = Ok v" "row_seq r = int (n + 1)"
      "row_prev r = to_hex h" "row_hash r = to_hex (verified_hash v)" "chain_end sha (n + 1) (verified_hash v) rows = Some e"
    by (rule chain_end_Cons) blast
  show ?case
    using Cons.IH [OF v(5), of "i - 1"] Cons.prems(2,3) v log_inputs_line [OF v(1)] by (cases i) auto
qed simp

lemma verified_log_rows:
  "verify_log_loop sha n h disk = Ok summary \<Longrightarrow> n + length disk < U64_MAX \<Longrightarrow>
     \<exists>rows. disk = log_bytes rows \<and> chain_end sha n h rows = Some (summary_head summary) \<and>
       summary_records summary = n + length rows"
proof (induction "length disk" arbitrary: n h disk rule: less_induct)
  case less
  have sat: "saturating_add n 1 = n + 1" using less.prems(2) by (simp add: saturating_add_def)
  show ?case
  proof (cases "read_chunk disk")
    case None
    then have "disk = []" by (simp add: read_chunk_None)
    moreover have "summary = \<lparr>summary_records = n, summary_head = h\<rparr>"
      using less.prems(1) None by (subst (asm) verify_log_loop.simps) simp
    ultimately show ?thesis by (intro exI [of _ "[]"]) simp
  next
    case (Some cr)
    obtain c rest where cr: "cr = (c, rest)" by (cases cr)
    note loop = less.prems(1) [unfolded verify_log_loop.simps [of _ _ _ disk] Some cr option.case prod.case]
    obtain b v where b: "c = Line b" "verify_line sha b (n + 1) h = Ok v"
        "verify_log_loop sha (verified_seq v) (verified_hash v) rest = Ok summary"
      using loop sat by (cases c) (auto simp: Let_def split: sum.splits)
    have disk: "disk = b @ nl # rest" using read_chunk_Line Some cr b(1) by simp
    have q: "verified_seq v = n + 1" using verify_line_Ok [OF b(2)] by metis
    obtain rows where r: "rest = log_bytes rows" "chain_end sha (n + 1) (verified_hash v) rows = Some (summary_head summary)"
        "summary_records summary = n + 1 + length rows"
      using less.hyps [OF _ b(3) [unfolded q]] less.prems(2) disk by auto
    let ?row = "\<lparr>row_seq = int (n + 1), row_prev = to_hex h, row_hash = to_hex (verified_hash v), row_record = b\<rparr>"
    show ?thesis using disk b(2) r by (intro exI [of _ "?row # rows"]) simp
  qed
qed

lemma chains_agree:
  "chain_end sha 0 h rows = Some e \<Longrightarrow> chain_end sha 0 h rows' = Some e \<Longrightarrow> length rows = length rows' \<Longrightarrow>
     log_bytes rows = log_bytes rows' \<or>
     (\<exists>i<length rows. \<exists>g g'. chain_end sha 0 h (take i rows) = Some g \<and> chain_end sha 0 h (take i rows') = Some g' \<and>
        line_input g (row_record (rows ! i)) \<noteq> line_input g' (row_record (rows' ! i)) \<and>
        DomainHash_finish sha (line_input g (row_record (rows ! i))) =
        DomainHash_finish sha (line_input g' (row_record (rows' ! i))))"
proof (induction rows arbitrary: rows' e rule: rev_induct)
  case (snoc r rows)
  then obtain rows2 r' where rows': "rows' = rows2 @ [r']" "length rows2 = length rows"
    by (cases rows' rule: rev_cases) auto
  obtain g v where g: "chain_end sha 0 h rows = Some g" "verify_line sha (row_record r) (length rows + 1) g = Ok v"
      "verified_hash v = e"
    using snoc.prems(1) by (auto simp: chain_end_append split: option.splits sum.splits if_splits)
  obtain g' v' where g': "chain_end sha 0 h rows2 = Some g'" "verify_line sha (row_record r') (length rows + 1) g' = Ok v'"
      "verified_hash v' = e"
    using snoc.prems(2) rows' by (auto simp: chain_end_append split: option.splits sum.splits if_splits)
  consider "row_record r = row_record r'" "g = g'"
    | "line_input g (row_record r) \<noteq> line_input g' (row_record r')"
      "DomainHash_finish sha (line_input g (row_record r)) = DomainHash_finish sha (line_input g' (row_record r'))"
    using verified_lines_agree [OF g(2) g'(2)] g(3) g'(3) by (metis (no_types))
  then show ?case
  proof cases
    case 1
    show ?thesis
    proof (rule disjE [OF snoc.IH [OF g(1) _ rows'(2) [symmetric]]])
      show "chain_end sha 0 h rows2 = Some g" using g'(1) 1(2) by simp
    next
      assume "log_bytes rows = log_bytes rows2"
      then show ?thesis using rows' 1 by simp
    next
      assume "\<exists>i<length rows. \<exists>g g'. chain_end sha 0 h (take i rows) = Some g \<and> chain_end sha 0 h (take i rows2) = Some g' \<and>
        line_input g (row_record (rows ! i)) \<noteq> line_input g' (row_record (rows2 ! i)) \<and>
        DomainHash_finish sha (line_input g (row_record (rows ! i))) =
        DomainHash_finish sha (line_input g' (row_record (rows2 ! i)))"
      then obtain i where i: "i < length rows" "\<exists>g g'. chain_end sha 0 h (take i rows) = Some g \<and> chain_end sha 0 h (take i rows2) = Some g' \<and>
        line_input g (row_record (rows ! i)) \<noteq> line_input g' (row_record (rows2 ! i)) \<and>
        DomainHash_finish sha (line_input g (row_record (rows ! i))) =
        DomainHash_finish sha (line_input g' (row_record (rows2 ! i)))" by blast
      then show ?thesis using rows' by (intro disjI2 exI [of _ i]) (simp add: nth_append)
    qed
  next
    case 2
    then show ?thesis using g(1) g'(1) rows' by (intro disjI2 exI [of _ "length rows"]) (simp add: nth_append)
  qed
qed simp

text \<open>
  C30. The audit log is tamper evident: two logs that verify with the same number of records and the
  same head hash are equal byte for byte, or there is a record position at which the two inputs
  given to SHA-256 are different and have the same digest, that is, a collision of SHA-256 that the
  two logs exhibit.
\<close>

theorem audit_log_tamper_evident:
  assumes "verify_audit_log sha a = Ok summary" "verify_audit_log sha b = Ok summary"
    and "length a < U64_MAX" "length b < U64_MAX"
  shows "a = b \<or> (\<exists>i < summary_records summary.
    log_inputs sha 0 Sha256Hash_ZERO a ! i \<noteq> log_inputs sha 0 Sha256Hash_ZERO b ! i \<and>
    DomainHash_finish sha (log_inputs sha 0 Sha256Hash_ZERO a ! i) =
    DomainHash_finish sha (log_inputs sha 0 Sha256Hash_ZERO b ! i))"
proof -
  obtain rows where r: "a = log_bytes rows" "chain_end sha 0 Sha256Hash_ZERO rows = Some (summary_head summary)"
      "summary_records summary = length rows"
    using verified_log_rows [OF assms(1) [unfolded verify_audit_log_def]] assms(3) by auto
  obtain rows' where r': "b = log_bytes rows'" "chain_end sha 0 Sha256Hash_ZERO rows' = Some (summary_head summary)"
      "summary_records summary = length rows'"
    using verified_log_rows [OF assms(2) [unfolded verify_audit_log_def]] assms(4) by auto
  from chains_agree [OF r(2) r'(2)] r(3) r'(3) show ?thesis
    using log_inputs_nth [OF r(2)] log_inputs_nth [OF r'(2)] r(1) r'(1) by metis
qed

definition ex_sha :: "string \<Rightarrow> string" where "ex_sha x = []"

definition ex_zeros :: string where "ex_zeros = replicate 64 (CHR ''0'')"

definition ex_line :: "AuditEvent \<Rightarrow> string" where
  "ex_line e = ''{'' @ write_string ''event'' @ '':'' @ write_string (AuditEvent_as_str e) @ '','' @
     write_string ''hash'' @ '':'' @ write_string ex_zeros @ '','' @ write_string ''k'' @ '':'' @ write_string ''x'' @ '','' @
     write_string ''prev'' @ '':'' @ write_string ex_zeros @ '','' @ write_string ''seq'' @ '':1,'' @
     write_string ''ts_ms'' @ '':5,'' @ write_string ''v'' @ '':1}''"

definition ex_tables :: "AuditEvent \<Rightarrow> AuditTables" where
  "ex_tables e = \<lparr>head_seq = 1, head_hash = ex_zeros,
     audit_chain = [\<lparr>row_seq = 1, row_prev = ex_zeros, row_hash = ex_zeros, row_record = ex_line e\<rparr>],
     flushed_seq = 0, flushed_hash = ex_zeros\<rparr>"

lemma ex_append:
  "audit_append ex_sha 5 LeaseAcquired (Fields_text ''k'' ''x'' Fields_new) genesis = Ok (ex_tables LeaseAcquired, 1)"
  "audit_append ex_sha 5 RunReaped (Fields_text ''k'' ''x'' Fields_new) genesis = Ok (ex_tables RunReaped, 1)"
  by code_simp+

lemma ex_fields: "wf_fields (Fields_text ''k'' ''x'' Fields_new)"
  by (simp add: wf_fields_def Fields_text_def Fields_new_def MAX_DEPTH_def)

lemma ex_tables_inv: "audit_inv ex_sha (ex_tables LeaseAcquired)" "audit_inv ex_sha (ex_tables RunReaped)"
  using audit_append_inv [OF audit_inv_genesis ex_append(1) ex_fields]
    audit_append_inv [OF audit_inv_genesis ex_append(2) ex_fields] by blast+

lemma ex_line_length: "length (ex_line LeaseAcquired) < 999" "length (ex_line RunReaped) < length (ex_line LeaseAcquired)"
  by code_simp+

theorem audit_log_tamper_evident_witness:
  "log_inputs ex_sha 0 Sha256Hash_ZERO (log_bytes (audit_chain (ex_tables LeaseAcquired))) ! 0 \<noteq>
   log_inputs ex_sha 0 Sha256Hash_ZERO (log_bytes (audit_chain (ex_tables RunReaped))) ! 0"
proof -
  let ?a = "log_bytes (audit_chain (ex_tables LeaseAcquired))" and ?b = "log_bytes (audit_chain (ex_tables RunReaped))"
  obtain h k where "verify_audit_log ex_sha ?a = Ok \<lparr>summary_records = 1, summary_head = h\<rparr>" "to_hex h = ex_zeros"
      "verify_audit_log ex_sha ?b = Ok \<lparr>summary_records = 1, summary_head = k\<rparr>" "to_hex k = ex_zeros"
    using verify_chain_log [OF ex_tables_inv(1)] verify_chain_log [OF ex_tables_inv(2)] by (auto simp: ex_tables_def)
  moreover from this have "h = k" using to_hex_inject by metis
  moreover have "length ?a < U64_MAX" "length ?b < U64_MAX" "length ?a \<noteq> length ?b"
    using ex_line_length by (simp_all add: ex_tables_def U64_MAX_def)
  moreover from this have "?a \<noteq> ?b" by metis
  ultimately show ?thesis
    using audit_log_tamper_evident [of ex_sha ?a "\<lparr>summary_records = 1, summary_head = h\<rparr>" ?b] by auto
qed

section \<open>The log across crashes\<close>

text \<open>
  C31. In every reachable state of the store, the log file and the writer, whatever crashes, losses of
  power, failed writes and restarts came before: the log is a prefix of the outbox that holds every
  record marked as flushed, and the outbox, written out, passes the verifier with the number and the
  head hash the store records.
\<close>

theorem audit_log_invariant:
  assumes "audit_reachable sha s"
  shows "(\<exists>u. log_bytes (audit_chain (tables s)) = contents (log s) @ u) \<and>
    (\<exists>u. contents (log s) = log_bytes (take (nat (flushed_seq (tables s))) (audit_chain (tables s))) @ u) \<and>
    (\<exists>h. verify_audit_log sha (log_bytes (audit_chain (tables s))) =
       Ok \<lparr>summary_records = nat (head_seq (tables s)), summary_head = h\<rparr> \<and> to_hex h = head_hash (tables s))"
proof -
  have i: "sys_inv sha s" "audit_inv sha (tables s)" "log_ok (tables s) (log s)"
    using audit_reachable_inv [OF assms] by (simp_all add: sys_inv_def)
  have "\<exists>u. contents (log s) = log_bytes (take (nat (flushed_seq (tables s))) (audit_chain (tables s))) @ u"
    by (rule synced_prefix [OF i(1) append_take_drop_id [symmetric]]) (use i(3) in \<open>simp add: log_ok_def\<close>)
  moreover have "nat (head_seq (tables s)) = length (audit_chain (tables s))" using i(2) by (simp add: audit_inv_def)
  ultimately show ?thesis using i verify_chain_log [OF i(2)] by (simp add: log_ok_def)
qed

lemma ex_reachable: "audit_reachable ex_sha (audit_init\<lparr>tables := ex_tables LeaseAcquired\<rparr>)"
proof (rule reachable_step [OF reachable_init])
  show "audit_step ex_sha audit_init (audit_init\<lparr>tables := ex_tables LeaseAcquired\<rparr>)"
    by (rule Commit [of "Fields_text ''k'' ''x'' Fields_new" _ 5 LeaseAcquired _ _ 1])
      (use ex_append(1) ex_fields in \<open>simp_all add: audit_init_def\<close>)
qed

theorem audit_log_invariant_witness:
  "\<exists>h. verify_audit_log ex_sha (ex_line LeaseAcquired @ [nl]) = Ok \<lparr>summary_records = 1, summary_head = h\<rparr> \<and> to_hex h = ex_zeros"
  using audit_log_invariant [OF ex_reachable] by (simp add: ex_tables_def)

text \<open>
  C32. The authority always comes back: from every reachable state, recovery succeeds, leaves a log that
  is exactly the outbox, passes the verifier and is marked as flushed, and the writer it opens then
  flushes every later record, as long as the environment does not fail again.
\<close>

theorem recovery_always_succeeds:
  assumes "audit_reachable sha s"
  shows "\<exists>r t. recover sha (tables s) (contents (log s)) = Ok (r, t, log_bytes (audit_chain (tables s))) \<and>
    audit_chain t = audit_chain (tables s) \<and> flushed_seq t = head_seq (tables s) \<and>
    is_ok (verify_audit_log sha (log_bytes (audit_chain t))) \<and>
    (\<forall>ts event fs t' n. wf_fields fs \<and> audit_append sha ts event fs t = Ok (t', n) \<longrightarrow>
       (\<exists>w l t''. flush_through no_faults n
          (AuditWriter_open r, \<lparr>contents = log_bytes (audit_chain t), synced = length (log_bytes (audit_chain t))\<rparr>, t') =
            ((w, l, t''), Ok ()) \<and> contents l = log_bytes (audit_chain t')))"
proof -
  have i: "audit_inv sha (tables s)" "log_ok (tables s) (log s)"
    using audit_reachable_inv [OF assms] by (simp_all add: sys_inv_def)
  obtain r where r: "recover sha (tables s) (contents (log s)) =
      Ok (r, all_flushed (tables s), log_bytes (audit_chain (tables s)))"
    using recover_exact(1) [OF i(1)] log_ok_cut [OF i] by blast
  let ?t = "all_flushed (tables s)" and ?f = "log_bytes (audit_chain (tables s))"
  have t: "audit_inv sha ?t" "log_ok ?t \<lparr>contents = ?f, synced = length ?f\<rparr>"
      "writer_ok sha ?t \<lparr>contents = ?f, synced = length ?f\<rparr> (AuditWriter_open r)"
    using recover_writer_ok [OF i r] by simp_all
  have c: "audit_chain ?t = audit_chain (tables s)" "flushed_seq ?t = head_seq (tables s)" by (simp_all add: all_flushed_def)
  have flush: "\<exists>w l t''. flush_through no_faults n (AuditWriter_open r, \<lparr>contents = ?f, synced = length ?f\<rparr>, t') =
      ((w, l, t''), Ok ()) \<and> contents l = log_bytes (audit_chain t')"
    if fs: "wf_fields fs" and a: "audit_append sha ts event fs ?t = Ok (t', n)" for ts event fs t' n
  proof -
    have t': "audit_inv sha t'" "n = length (audit_chain t')" "flushed_seq t' = flushed_seq ?t"
        "\<exists>row. audit_chain t' = audit_chain ?t @ [row]"
      using audit_append_inv [OF t(1) a fs] by blast+
    let ?l = "\<lparr>contents = ?f, synced = length ?f\<rparr>"
    have "nat (flushed_seq ?t) \<le> length (audit_chain ?t)" using chain_head_read [OF t(1)] by blast
    then have ok: "log_ok t' ?l" "writer_ok sha t' ?l (AuditWriter_open r)"
      using t t'(3,4) by (auto simp: log_ok_def writer_ok_def)
    obtain w l t'' q where fl: "flush_through no_faults n (AuditWriter_open r, ?l, t') = ((w, l, t''), q)"
      by (metis prod_cases3 surj_pair)
    have "q = Ok ()" "audit_chain t'' = audit_chain t'" "writer_ok sha t'' l w" "n \<le> durable_seq w"
      using flush_through_inv [OF t'(1) ok fl] t'(2) by auto
    then show ?thesis using fl t'(2) by (auto simp: writer_ok_def)
  qed
  have "is_ok (verify_audit_log sha ?f)" using verify_chain_log [OF i(1)] by (auto simp: is_ok_def)
  then show ?thesis using r c flush by (intro exI [of _ r] exI [of _ ?t]) (simp only: c, blast)
qed

theorem recovery_always_succeeds_witness:
  "is_ok (recover ex_sha (ex_tables LeaseAcquired) [])"
  using recovery_always_succeeds [OF ex_reachable] by (auto simp: audit_init_def is_ok_def)

text \<open>
  C33. What was acknowledged stays: once a flush through record \<open>n\<close> has returned without error, every
  later state of the log, after any crashes and restarts, begins with the first \<open>n\<close> records.
\<close>

theorem acknowledged_records_survive:
  assumes "audit_reachable sha s" "writer s = Some w"
    and "flush_through env n (w, log s, tables s) = ((w', l, t), Ok ())"
    and "(audit_step sha)\<^sup>*\<^sup>* \<lparr>tables = t, log = l, writer = Some w'\<rparr> s'"
  shows "\<exists>u. contents (log s') = log_bytes (take n (audit_chain (tables s))) @ u"
proof -
  have i: "sys_inv sha s" by (rule audit_reachable_inv [OF assms(1)])
  then have f: "audit_chain t = audit_chain (tables s)" "writer_ok sha t l w'" "n \<le> durable_seq w'"
    using flush_through_inv [OF _ _ _ assms(3)] assms(2) by (auto simp: sys_inv_def)
  let ?s = "\<lparr>tables = t, log = l, writer = Some w'\<rparr>"
  have "sys_inv sha ?s" using audit_step_inv [OF Flush [OF assms(2,3)] i] by blast
  then obtain ext where s': "sys_inv sha s'" "synced l \<le> synced (log s')" "audit_chain (tables s') = audit_chain t @ ext"
    using audit_steps_inv [OF assms(4)] by auto
  have "length (log_bytes (take n (audit_chain t))) \<le> length (log_bytes (take (durable_seq w') (audit_chain t)))"
    using length_log_take [of n "take (durable_seq w') (audit_chain t)"] f(3) by (simp add: min_absorb1)
  also have "\<dots> \<le> synced (log s')" using f(2) s'(2) by (simp add: writer_ok_def)
  finally have "length (log_bytes (take n (audit_chain t))) \<le> synced (log s')" .
  moreover have "audit_chain (tables s') = take n (audit_chain t) @ (drop n (audit_chain t) @ ext)"
    using s'(3) by simp
  ultimately show ?thesis using synced_prefix [OF s'(1)] f(1) by metis
qed

definition ex_serving :: audit_system where
  "ex_serving = \<lparr>tables = ex_tables LeaseAcquired, log = \<lparr>contents = [], synced = 0\<rparr>,
     writer = Some \<lparr>durable_seq = 0, durable_hash = Sha256Hash_ZERO\<rparr>\<rparr>"

lemma ex_serving_reachable: "audit_reachable ex_sha ex_serving"
proof (rule reachable_step [OF reachable_step [OF reachable_init]])
  let ?s = "\<lparr>tables = genesis, log = \<lparr>contents = [], synced = 0\<rparr>,
     writer = Some \<lparr>durable_seq = 0, durable_hash = Sha256Hash_ZERO\<rparr>\<rparr>"
  have "recover ex_sha genesis [] = Ok (\<lparr>rec_durable_seq = 0, rec_durable_hash = Sha256Hash_ZERO, reconciled = 0,
      appended = 0, torn_tail_bytes = 0\<rparr>, genesis, [])"
    using recover_cut [OF audit_inv_genesis, of 0 "[]" "[]" ex_sha Sha256Hash_ZERO]
    by (simp add: genesis_def log_cut_def all_flushed_def)
  then show "audit_step ex_sha audit_init ?s"
    using Start [of ex_sha audit_init] by (simp add: audit_init_def AuditWriter_open_def)
  show "audit_step ex_sha ?s ex_serving"
    using Commit [OF ex_fields, of ex_sha 5 LeaseAcquired ?s] ex_append(1) by (simp add: ex_serving_def)
qed

theorem acknowledged_records_survive_witness:
  "\<exists>u. contents (fst (snd (fst (flush_through no_faults 1
      (\<lparr>durable_seq = 0, durable_hash = Sha256Hash_ZERO\<rparr>, \<lparr>contents = [], synced = 0\<rparr>, ex_tables LeaseAcquired))))) =
    ex_line LeaseAcquired @ nl # u"
proof -
  let ?w = "\<lparr>durable_seq = 0, durable_hash = Sha256Hash_ZERO\<rparr>"
  obtain w l t q where f: "flush_through no_faults 1 (?w, log ex_serving, tables ex_serving) = ((w, l, t), q)"
    by (metis prod_cases3 surj_pair)
  have i: "sys_inv ex_sha ex_serving" by (rule audit_reachable_inv [OF ex_serving_reachable])
  then have "q = Ok ()"
    using flush_through_inv [OF _ _ _ f, of ex_sha] by (simp add: sys_inv_def ex_serving_def ex_tables_def)
  then show ?thesis
    using acknowledged_records_survive [OF ex_serving_reachable _ f [unfolded \<open>q = Ok ()\<close>] rtranclp.rtrancl_refl] f
    by (simp add: ex_serving_def ex_tables_def)
qed

text \<open>
  C34. Recovery accepts exactly what a crash can leave: with an intact outbox it succeeds if and only if
  the log is a prefix of the outbox that holds every record marked as flushed; then the log becomes
  exactly the outbox. Every other log, truncated, extended, altered or with a foreign tail, is refused.
\<close>

theorem recovery_accepts_exactly:
  assumes "audit_inv sha t"
  shows "is_ok (recover sha t disk) \<longleftrightarrow>
    (\<exists>u. log_bytes (audit_chain t) = disk @ u) \<and>
    length (log_bytes (take (nat (flushed_seq t)) (audit_chain t))) \<le> length disk"
    (is "?ok \<longleftrightarrow> ?prefix")
proof
  assume ?ok
  then obtain r t' f where "recover sha t disk = Ok (r, t', f)" by (auto simp: is_ok_def split: sum.splits)
  then obtain k s where k: "log_cut (audit_chain t) k s disk" "nat (flushed_seq t) \<le> k"
    using recover_exact(2) [OF assms] by blast
  have "length (log_bytes (take (nat (flushed_seq t)) (audit_chain t))) \<le> length (log_bytes (take k (audit_chain t)))"
    using length_log_take [of "nat (flushed_seq t)" "take k (audit_chain t)"] k(2) by (simp add: min_absorb1)
  also have "\<dots> \<le> length disk" using k(1) by (simp add: log_cut_def)
  finally show ?prefix using log_cut_prefix [OF k(1)] by blast
next
  assume ?prefix
  then have "log_ok t \<lparr>contents = disk, synced = length disk\<rparr>" by (simp add: log_ok_def)
  from log_ok_cut [OF assms this] obtain r where "recover sha t disk = Ok (r, all_flushed t, log_bytes (audit_chain t))"
    using recover_exact(1) [OF assms, of disk] by auto
  then show ?ok by (simp add: is_ok_def)
qed

theorem recovery_accepts_exactly_witness:
  "is_ok (recover ex_sha (ex_tables LeaseAcquired) (take 7 (ex_line LeaseAcquired))) \<and>
   \<not> is_ok (recover ex_sha (ex_tables LeaseAcquired) ''x'')"
proof -
  have "ex_line LeaseAcquired @ [nl] = take 7 (ex_line LeaseAcquired) @ (drop 7 (ex_line LeaseAcquired) @ [nl])"
    by (metis append.assoc append_take_drop_id)
  then have "\<exists>u. ex_line LeaseAcquired @ [nl] = take 7 (ex_line LeaseAcquired) @ u" by blast
  moreover have "\<nexists>u. ex_line LeaseAcquired @ [nl] = ''x'' @ u" by (simp add: ex_line_def)
  ultimately show ?thesis
    using recovery_accepts_exactly [OF ex_tables_inv(1), of "take 7 (ex_line LeaseAcquired)"]
      recovery_accepts_exactly [OF ex_tables_inv(1), of "''x''"]
    by (simp add: ex_tables_def)
qed

section \<open>Identifiers\<close>




end
