(* ===== verification/Auth_Store.thy ===== *)
theory Auth_Store
  imports Auth_Flush
begin

text \<open>
  The tables of \<^verbatim>\<open>kernel.db\<close> that leases, runs and execution environments live in
  (\<^verbatim>\<open>state/schema.rs\<close>), with the constraints and triggers of the schema, and the working context of
  one transaction (\<^verbatim>\<open>Work\<close> of \<^verbatim>\<open>state/mod.rs\<close>). A table is the list of its rows in the order of
  their insertion. A statement fails, and changes nothing, when a trigger or a constraint refuses
  one of the rows it writes.
\<close>

section \<open>Statements\<close>

fun first_refusal :: "('r \<Rightarrow> string option) \<Rightarrow> 'r list \<Rightarrow> string option" where
  "first_refusal refuses [] = None"
| "first_refusal refuses (r # rows) = (case refuses r of Some why \<Rightarrow> Some why | None \<Rightarrow> first_refusal refuses rows)"

text \<open>\<open>UPDATE \<dots> WHERE wh\<close>: the new table and how many rows changed.\<close>

definition sql_update :: "('r \<Rightarrow> 'r \<Rightarrow> string option) \<Rightarrow> ('r \<Rightarrow> bool) \<Rightarrow> ('r \<Rightarrow> 'r) \<Rightarrow> 'r list \<Rightarrow> ('r list \<times> nat, SqliteError) result" where
  "sql_update refuses wh upd rows =
     (case first_refusal (\<lambda>r. refuses r (upd r)) (filter wh rows) of
        Some why \<Rightarrow> Err (constraint_error why)
      | None \<Rightarrow> Ok (map (\<lambda>r. if wh r then upd r else r) rows, length (filter wh rows)))"

text \<open>\<open>INSERT\<close> into a table whose primary key is \<open>key\<close>.\<close>

definition sql_insert :: "('r \<Rightarrow> 'k) \<Rightarrow> ('r \<Rightarrow> string option) \<Rightarrow> 'r \<Rightarrow> 'r list \<Rightarrow> ('r list, SqliteError) result" where
  "sql_insert key refuses row rows =
     (case refuses row of
        Some why \<Rightarrow> Err (constraint_error why)
      | None \<Rightarrow> if key row \<in> key ` set rows then Err (constraint_error ''UNIQUE constraint failed'')
                else Ok (rows @ [row]))"

lemma first_refusal_None: "first_refusal f rows = None \<longleftrightarrow> (\<forall>r \<in> set rows. f r = None)"
  by (induction rows) (auto split: option.splits)

lemma sql_update_Ok:
  "sql_update refuses wh upd rows = Ok (rows', n) \<longleftrightarrow>
     (\<forall>r \<in> set rows. wh r \<longrightarrow> refuses r (upd r) = None) \<and>
     rows' = map (\<lambda>r. if wh r then upd r else r) rows \<and> n = length (filter wh rows)"
  using first_refusal_None [of "\<lambda>r. refuses r (upd r)" "filter wh rows"]
  by (cases "first_refusal (\<lambda>r. refuses r (upd r)) (filter wh rows)") (auto simp: sql_update_def)

lemma sql_insert_Ok:
  "sql_insert key refuses row rows = Ok rows' \<longleftrightarrow>
     refuses row = None \<and> key row \<notin> key ` set rows \<and> rows' = rows @ [row]"
  by (auto simp: sql_insert_def split: option.splits)

lemma pred_option_code [code]: "pred_option P x = (case x of None \<Rightarrow> True | Some v \<Rightarrow> P v)"
  by (cases x) simp_all

section \<open>Session leases\<close>

record LeaseRow =
  lease_session :: string
  lease_epoch :: int
  lease_state :: string
  holder_subject :: "string option"
  holder_incarnation :: "int option"
  holder_connection :: "int option"
  expires_ms :: "int option"
  last_holder_incarnation :: "int option"
  last_holder_connection :: "int option"

definition lease_checks :: "LeaseRow \<Rightarrow> bool" where
  "lease_checks r \<longleftrightarrow> 1 \<le> lease_epoch r \<and> lease_epoch r \<le> 9007199254740991 \<and>
     lease_state r \<in> {''HELD'', ''RELEASED'', ''INVALIDATED''} \<and>
     (lease_state r = ''HELD'' \<longleftrightarrow> holder_subject r \<noteq> None \<and> holder_incarnation r \<noteq> None \<and>
        holder_connection r \<noteq> None \<and> expires_ms r \<noteq> None) \<and>
     (lease_state r = ''HELD'' \<or> holder_subject r = None \<and> holder_incarnation r = None \<and>
        holder_connection r = None \<and> expires_ms r = None)"

definition insert_lease_refuses :: "LeaseRow \<Rightarrow> string option" where
  "insert_lease_refuses r = (if lease_checks r then None else Some ''CHECK constraint failed: session_lease'')"

definition update_lease_refuses :: "LeaseRow \<Rightarrow> LeaseRow \<Rightarrow> string option" where
  "update_lease_refuses old new =
     (if lease_epoch new < lease_epoch old then Some ''a session epoch never decreases''
      else if lease_state new = ''HELD'' \<and>
              \<not> (lease_state old = ''HELD'' \<and> holder_incarnation old = holder_incarnation new \<and>
                 holder_connection old = holder_connection new \<and> lease_epoch old = lease_epoch new) \<and>
              lease_epoch new \<le> lease_epoch old
      then Some ''a new lease tenure requires a new epoch''
      else insert_lease_refuses new)"

lemma insert_lease_refuses_None [simp]: "insert_lease_refuses r = None \<longleftrightarrow> lease_checks r"
  by (simp add: insert_lease_refuses_def)

lemma update_lease_refuses_None:
  "update_lease_refuses old new = None \<longleftrightarrow> lease_epoch old \<le> lease_epoch new \<and> lease_checks new \<and>
     (lease_state new = ''HELD'' \<longrightarrow> lease_epoch old < lease_epoch new \<or>
        lease_state old = ''HELD'' \<and> holder_incarnation old = holder_incarnation new \<and>
        holder_connection old = holder_connection new \<and> lease_epoch old = lease_epoch new)"
  by (auto simp: update_lease_refuses_def)

section \<open>Runs\<close>

record RunRow =
  run_run_id :: string
  run_session :: string
  run_subject :: string
  run_epoch :: int
  run_profile :: string
  run_profile_revision :: int
  run_activation :: int
  run_state :: string
  run_admitted_ms :: int
  run_ended_ms :: "int option"

definition run_checks :: "RunRow \<Rightarrow> bool" where
  "run_checks r \<longleftrightarrow> 1 \<le> run_epoch r \<and> run_state r \<in> {''ACTIVE'', ''RELEASED'', ''REAPED''} \<and>
     (run_state r = ''ACTIVE'' \<longleftrightarrow> run_ended_ms r = None)"

text \<open>The table's foreign key to its session; the rows of profiles and activations are not modelled.\<close>

definition insert_run_refuses :: "LeaseRow list \<Rightarrow> RunRow \<Rightarrow> string option" where
  "insert_run_refuses leases r =
     (if \<not> run_checks r then Some ''CHECK constraint failed: run''
      else if run_session r \<notin> lease_session ` set leases then Some ''FOREIGN KEY constraint failed''
      else None)"

text \<open>Every statement that updates a run sets its state.\<close>

definition update_run_refuses :: "RunRow \<Rightarrow> RunRow \<Rightarrow> string option" where
  "update_run_refuses old new =
     (if run_state old \<noteq> ''ACTIVE'' then Some ''a released run never becomes active again''
      else if \<not> run_checks new then Some ''CHECK constraint failed: run''
      else None)"

lemma insert_run_refuses_None [simp]:
  "insert_run_refuses leases r = None \<longleftrightarrow> run_checks r \<and> run_session r \<in> lease_session ` set leases"
  by (simp add: insert_run_refuses_def)

lemma update_run_refuses_None [simp]: "update_run_refuses old new = None \<longleftrightarrow> run_state old = ''ACTIVE'' \<and> run_checks new"
  by (simp add: update_run_refuses_def)

section \<open>Environments\<close>

record EnvRow =
  env_environment_id :: string
  env_run_id :: string
  env_profile :: string
  env_network :: string
  env_image :: string
  env_probe_sha256 :: string
  env_declared :: string
  env_measured :: "string option"
  env_effective :: "string option"
  env_container :: "string option"
  env_state :: string
  env_failure :: "string option"
  env_incarnation :: int
  env_intent_ms :: int
  env_ended_ms :: "int option"

definition is_lower_hex :: "string \<Rightarrow> bool" where
  "is_lower_hex s \<longleftrightarrow> list_all (\<lambda>c. is_ascii_digit c \<or> 97 \<le> byte_of c \<and> byte_of c \<le> 102) s"

definition is_failure_class :: "string \<Rightarrow> bool" where
  "is_failure_class s \<longleftrightarrow> 1 \<le> length s \<and> length s \<le> 64 \<and>
     list_all (\<lambda>c. is_ascii_uppercase c \<or> is_ascii_digit c \<or> c = CHR ''_'') s"

definition ASSURANCE_LEVELS :: "string list" where
  "ASSURANCE_LEVELS = [''NONE'', ''PROCESS_ISOLATION'', ''CONTAINER_ISOLATION'', ''VM_ISOLATION'']"

definition LIVE_STATES :: "string list" where
  "LIVE_STATES = [''PREPARING'', ''READY'', ''DESTROYING'', ''UNKNOWN'']"

definition FINAL_STATES :: "string list" where
  "FINAL_STATES = [''REFUSED'', ''DESTROYED'', ''LOST'']"

definition env_checks :: "EnvRow \<Rightarrow> bool" where
  "env_checks r \<longleftrightarrow>
     length (env_environment_id r) = 30 \<and> take 4 (env_environment_id r) = ''env_'' \<and>
     env_profile r = ''OCI_STRICT'' \<and> env_network r \<in> {''NO_NETWORK'', ''PROXY_ONLY''} \<and>
     length (env_image r) = 71 \<and> take 7 (env_image r) = ''sha256:'' \<and> is_lower_hex (drop 7 (env_image r)) \<and>
     length (env_probe_sha256 r) = 64 \<and> is_lower_hex (env_probe_sha256 r) \<and>
     env_declared r \<in> set ASSURANCE_LEVELS \<and>
     pred_option (\<lambda>l. l \<in> set ASSURANCE_LEVELS) (env_measured r) \<and>
     pred_option (\<lambda>l. l \<in> set ASSURANCE_LEVELS) (env_effective r) \<and>
     pred_option (\<lambda>c. length c = 64 \<and> is_lower_hex c) (env_container r) \<and>
     env_state r \<in> set LIVE_STATES \<union> set FINAL_STATES \<and>
     pred_option is_failure_class (env_failure r) \<and>
     1 \<le> env_incarnation r \<and>
     (env_state r \<in> set FINAL_STATES \<longleftrightarrow> env_ended_ms r \<noteq> None) \<and>
     (env_state r \<noteq> ''READY'' \<or> env_container r \<noteq> None \<and> env_effective r \<noteq> None) \<and>
     (env_state r \<noteq> ''REFUSED'' \<or> env_failure r \<noteq> None)"

definition env_live :: "EnvRow \<Rightarrow> bool" where
  "env_live r \<longleftrightarrow> env_state r \<in> set LIVE_STATES"

definition moves_forward :: "string \<Rightarrow> string \<Rightarrow> bool" where
  "moves_forward old new \<longleftrightarrow>
     old = ''PREPARING'' \<and> new \<in> {''READY'', ''REFUSED'', ''UNKNOWN'', ''DESTROYING''} \<or>
     old = ''READY'' \<and> new \<in> {''DESTROYING'', ''LOST''} \<or>
     old = ''UNKNOWN'' \<and> new \<in> {''DESTROYING'', ''DESTROYED'', ''LOST''} \<or>
     old = ''DESTROYING'' \<and> new \<in> {''DESTROYING'', ''DESTROYED'', ''LOST''}"

definition insert_env_refuses :: "RunRow list \<Rightarrow> EnvRow list \<Rightarrow> EnvRow \<Rightarrow> string option" where
  "insert_env_refuses runs envs r =
     (if \<not> env_checks r then Some ''CHECK constraint failed: environment''
      else if env_run_id r \<notin> run_run_id ` set runs then Some ''FOREIGN KEY constraint failed''
      else if env_live r \<and> env_run_id r \<in> env_run_id ` set (filter env_live envs)
      then Some ''UNIQUE constraint failed: environment.run_id''
      else None)"

text \<open>
  Every statement that updates an environment sets its state. None brings an ended one back to
  life, so that the partial unique index on the live rows of a run cannot refuse an update.
\<close>

definition update_env_refuses :: "EnvRow \<Rightarrow> EnvRow \<Rightarrow> string option" where
  "update_env_refuses old new =
     (if env_container old \<noteq> None \<and> env_container new \<noteq> env_container old
      then Some ''an environment's container, once known, is fixed''
      else if \<not> moves_forward (env_state old) (env_state new)
      then Some ''an environment moves only forward through its lifecycle''
      else if \<not> env_checks new then Some ''CHECK constraint failed: environment''
      else None)"

lemma insert_env_refuses_None:
  "insert_env_refuses runs envs r = None \<longleftrightarrow> env_checks r \<and> env_run_id r \<in> run_run_id ` set runs \<and>
     (env_live r \<longrightarrow> env_run_id r \<notin> env_run_id ` set (filter env_live envs))"
  by (auto simp: insert_env_refuses_def)

lemma update_env_refuses_None:
  "update_env_refuses old new = None \<longleftrightarrow> (env_container old \<noteq> None \<longrightarrow> env_container new = env_container old) \<and>
     moves_forward (env_state old) (env_state new) \<and> env_checks new"
  by (auto simp: update_env_refuses_def)

lemma moves_forward_live: "moves_forward old new \<Longrightarrow> old \<in> set LIVE_STATES"
  by (auto simp: moves_forward_def LIVE_STATES_def)

section \<open>The store and a transaction on it\<close>

record Store =
  meta_incarnation :: int
  id_counter :: int
  audit :: AuditTables
  session_lease :: "LeaseRow list"
  runs :: "RunRow list"
  environments :: "EnvRow list"

definition new_store :: Store where
  "new_store = \<lparr>meta_incarnation = 0, id_counter = 0, audit = genesis, session_lease = [], runs = [], environments = []\<rparr>"

definition update_store_meta :: "int \<Rightarrow> int \<Rightarrow> Store \<Rightarrow> (Store, SqliteError) result" where
  "update_store_meta inc cnt s =
     (if inc < meta_incarnation s \<or> cnt < id_counter s then Err (constraint_error ''store counters never decrease'')
      else if int I64_MAX < inc \<or> int I64_MAX < cnt then Err (constraint_error ''cannot store REAL value in INTEGER column'')
      else if \<not> (0 \<le> inc \<and> 0 \<le> cnt \<and> cnt \<le> 4398046511103) then Err (constraint_error ''CHECK constraint failed: store_meta'')
      else Ok (s\<lparr>meta_incarnation := inc, id_counter := cnt\<rparr>))"

text \<open>
  Of the shared state a transaction's context reads the process's incarnation and the store's
  instance number.
\<close>

record Work =
  tx :: Store
  now :: nat
  last_seq :: "nat option"
  work_incarnation :: nat
  store_instance :: nat

definition work_db :: "('a, SqliteError) result \<Rightarrow> ('a, AuthorityError) result" where
  "work_db r = map_err (\<lambda>error. to_error (classify error)) r"

definition work_audit :: "(string \<Rightarrow> string) \<Rightarrow> AuditEvent \<Rightarrow> Fields \<Rightarrow> Work \<Rightarrow> (Work, AuthorityError) result" where
  "work_audit sha event flds work =
     (case audit_append sha (now work) event flds (audit (tx work)) of
        Inr (t, seq) \<Rightarrow> Ok (work\<lparr>tx := (tx work)\<lparr>audit := t\<rparr>, last_seq := Some seq\<rparr>)
      | Inl (AppendSqlite error) \<Rightarrow> Err (to_error (classify error))
      | Inl (AppendAuthority error) \<Rightarrow> Err error)"

definition next_uuid :: "Work \<Rightarrow> (128 word \<times> Work, AuthorityError) result" where
  "next_uuid work =
     and_then (ok_or (u64_try_from (id_counter (tx work))) (Invariant ''the id counter is negative'')) (\<lambda>current.
     if MAX_ID_COUNTER \<le> current then Err IdSpaceExhausted
     else and_then (work_db (update_store_meta (meta_incarnation (tx work)) (id_counter (tx work) + 1) (tx work))) (\<lambda>tx'.
       and_then (ok_or (u64_try_from (id_counter tx')) (Invariant ''the id counter is negative'')) (\<lambda>next.
       and_then (ok_or (uuid7 (now work) next (store_instance work)) IdSpaceExhausted) (\<lambda>uuid.
         Ok (uuid, work\<lparr>tx := tx'\<rparr>)))))"

definition work_mint :: "(nat \<Rightarrow> string option) \<Rightarrow> string \<Rightarrow> Work \<Rightarrow> (string \<times> Work, AuthorityError) result" where
  "work_mint from_uuid why work =
     and_then (next_uuid work) (\<lambda>(uuid, work). and_then (ok_or (from_uuid (unat uuid)) (Invariant why)) (\<lambda>i. Ok (i, work)))"

definition work_run_id :: "Work \<Rightarrow> (string \<times> Work, AuthorityError) result" where
  "work_run_id = work_mint RunId_from_uuid ''a minted run id is not a UUIDv7''"

definition work_cap_id :: "Work \<Rightarrow> (string \<times> Work, AuthorityError) result" where
  "work_cap_id = work_mint CapId_from_uuid ''a minted cap id is not a UUIDv7''"

definition work_invocation_id :: "Work \<Rightarrow> (string \<times> Work, AuthorityError) result" where
  "work_invocation_id = work_mint InvocationId_from_uuid ''a minted invocation id is not a UUIDv7''"

definition work_process_id :: "Work \<Rightarrow> (string \<times> Work, AuthorityError) result" where
  "work_process_id = work_mint ProcessId_from_uuid ''a minted process id is not a UUIDv7''"

definition work_environment_id :: "Work \<Rightarrow> (string \<times> Work, AuthorityError) result" where
  "work_environment_id = work_mint EnvironmentId_from_uuid ''a minted environment id is not a UUIDv7''"

end
