(* ===== verification/Auth_Env.thy ===== *)
theory Auth_Env
  imports Auth_Store
begin

text \<open>
  The life cycle of execution environments in the store (\<^verbatim>\<open>state/environment.rs\<close>): the record, its
  destruction with the end of its run, what a new incarnation makes of the records a previous one
  left, and the comparison of the records with what the container runtime lists. Preparing and
  measuring an environment, whose inputs come from the broker, are not modelled.
\<close>

section \<open>States and records\<close>

datatype EnvironmentState = Preparing | Ready | RefusedState | Destroying | Destroyed | Lost | UnknownState

fun EnvironmentState_as_str :: "EnvironmentState \<Rightarrow> string" where
  "EnvironmentState_as_str Preparing = ''PREPARING''"
| "EnvironmentState_as_str Ready = ''READY''"
| "EnvironmentState_as_str RefusedState = ''REFUSED''"
| "EnvironmentState_as_str Destroying = ''DESTROYING''"
| "EnvironmentState_as_str Destroyed = ''DESTROYED''"
| "EnvironmentState_as_str Lost = ''LOST''"
| "EnvironmentState_as_str UnknownState = ''UNKNOWN''"

definition EnvironmentState_parse :: "string \<Rightarrow> EnvironmentState option" where
  "EnvironmentState_parse t =
     (if t = ''PREPARING'' then Some Preparing
      else if t = ''READY'' then Some Ready
      else if t = ''REFUSED'' then Some RefusedState
      else if t = ''DESTROYING'' then Some Destroying
      else if t = ''DESTROYED'' then Some Destroyed
      else if t = ''LOST'' then Some Lost
      else if t = ''UNKNOWN'' then Some UnknownState
      else None)"

definition is_final :: "EnvironmentState \<Rightarrow> bool" where
  "is_final s \<longleftrightarrow> s \<in> {RefusedState, Destroyed, Lost}"

lemma EnvironmentState_parse_iff: "EnvironmentState_parse t = Some s \<longleftrightarrow> t = EnvironmentState_as_str s"
  by (cases s) (auto simp: EnvironmentState_parse_def)

lemma is_final_state: "is_final s \<longleftrightarrow> EnvironmentState_as_str s \<in> set FINAL_STATES"
  by (cases s) (auto simp: is_final_def FINAL_STATES_def)

datatype NetworkTopology = ProxyOnly | NoNetwork

fun NetworkTopology_as_str :: "NetworkTopology \<Rightarrow> string" where
  "NetworkTopology_as_str ProxyOnly = ''PROXY_ONLY''"
| "NetworkTopology_as_str NoNetwork = ''NO_NETWORK''"

definition ContainerRef_new :: "string \<Rightarrow> string option" where
  "ContainerRef_new s = (if chars_count s \<le> 64 \<and> length s = 64 \<and> is_lower_hex s then Some s else None)"

definition EnvironmentId_parse :: "string \<Rightarrow> string option" where
  "EnvironmentId_parse = id_parse ''env''"

record EnvironmentRecord =
  er_environment :: string
  er_run :: string
  er_state :: EnvironmentState
  er_container :: "string option"
  er_network :: NetworkTopology
  er_incarnation :: nat
  er_failure :: "string option"

definition malformed :: AuthorityError where
  "malformed = Invariant ''a stored environment is malformed''"

definition record_of :: "EnvRow \<Rightarrow> (EnvironmentRecord, AuthorityError) result" where
  "record_of row =
     and_then (ok_or (EnvironmentId_parse (env_environment_id row)) malformed) (\<lambda>e.
     and_then (ok_or (RunId_parse (env_run_id row)) malformed) (\<lambda>r.
     and_then (ok_or (EnvironmentState_parse (env_state row)) malformed) (\<lambda>s.
     and_then (case env_container row of
         Some c \<Rightarrow> and_then (ok_or (ContainerRef_new c) malformed) (\<lambda>c. Ok (Some c))
       | None \<Rightarrow> Ok None) (\<lambda>c.
     and_then (ok_or (find (\<lambda>n. NetworkTopology_as_str n = env_network row) [ProxyOnly, NoNetwork]) malformed) (\<lambda>n.
     and_then (ok_or (u64_try_from (env_incarnation row)) malformed) (\<lambda>i.
       Ok \<lparr>er_environment = e, er_run = r, er_state = s, er_container = c, er_network = n,
            er_incarnation = i, er_failure = env_failure row\<rparr>))))))"

text \<open>One environment's record.\<close>

definition environment_record :: "Work \<Rightarrow> string \<Rightarrow> (EnvironmentRecord option, AuthorityError) result" where
  "environment_record work e =
     (case find (\<lambda>r. env_environment_id r = e) (environments (tx work)) of
        None \<Rightarrow> Ok None
      | Some row \<Rightarrow> and_then (record_of row) (\<lambda>r. Ok (Some r)))"

fun records_of :: "EnvRow list \<Rightarrow> (EnvironmentRecord list, AuthorityError) result" where
  "records_of [] = Ok []"
| "records_of (row # rows) = and_then (record_of row) (\<lambda>r. and_then (records_of rows) (\<lambda>rs. Ok (r # rs)))"

text \<open>Every record that is not final.\<close>

definition live_records :: "Work \<Rightarrow> (EnvironmentRecord list, AuthorityError) result" where
  "live_records work =
     records_of (sort_key (\<lambda>r. key_str (env_environment_id r)) (filter env_live (environments (tx work))))"

section \<open>Destruction\<close>

datatype DestroyBegun = DestroyRefused string | DestroyPending EnvironmentRecord string

definition update_environments ::
  "(EnvRow \<Rightarrow> bool) \<Rightarrow> (EnvRow \<Rightarrow> EnvRow) \<Rightarrow> Work \<Rightarrow> (Work, AuthorityError) result" where
  "update_environments wh upd work =
     and_then (work_db (sql_update update_env_refuses wh upd (environments (tx work)))) (\<lambda>(rows, _).
       Ok (work\<lparr>tx := (tx work)\<lparr>environments := rows\<rparr>\<rparr>))"

definition coalesce :: "'a option \<Rightarrow> 'a option \<Rightarrow> 'a option" where
  "coalesce a b = (case a of Some x \<Rightarrow> Some x | None \<Rightarrow> b)"

text \<open>Record that an environment is to be destroyed, for \<open>reason\<close>.\<close>

definition begin_destroy :: "(string \<Rightarrow> string) \<Rightarrow> Work \<Rightarrow> string \<Rightarrow> string \<Rightarrow> (DestroyBegun \<times> Work, AuthorityError) result" where
  "begin_destroy sha work e reason =
     and_then (environment_record work e) (\<lambda>found.
       case found of
         None \<Rightarrow> Ok (DestroyRefused ''UNKNOWN_ENVIRONMENT'', work)
       | Some record' \<Rightarrow>
           if is_final (er_state record') then Ok (DestroyRefused ''ENVIRONMENT_ENDED'', work)
           else if er_state record' = Preparing then Ok (DestroyRefused ''ENVIRONMENT_PREPARING'', work)
           else and_then (work_invocation_id work) (\<lambda>(invocation, work).
             and_then (update_environments (\<lambda>r. env_environment_id r = e)
               (\<lambda>r. r\<lparr>env_state := ''DESTROYING'', env_failure := coalesce (env_failure r) (Some reason)\<rparr>) work) (\<lambda>work.
             and_then (work_audit sha EnvironmentDestroyIntent
               (Fields_text ''from'' (EnvironmentState_as_str (er_state record'))
               (Fields_text ''reason'' reason
               (Fields_text ''invocation_id'' invocation
               (Fields_text ''run_id'' (er_run record')
               (Fields_text ''environment_id'' e Fields_new))))) work) (\<lambda>work.
               Ok (DestroyPending record' invocation, work)))))"

fun begin_destroy_all :: "(string \<Rightarrow> string) \<Rightarrow> Work \<Rightarrow> string list \<Rightarrow> string \<Rightarrow> (DestroyBegun list \<times> Work, AuthorityError) result" where
  "begin_destroy_all sha work [] reason = Ok ([], work)"
| "begin_destroy_all sha work (i # ids) reason =
     and_then (ok_or (EnvironmentId_parse i) (Invariant ''a stored environment id is malformed'')) (\<lambda>e.
     and_then (begin_destroy sha work e reason) (\<lambda>(b, work).
     and_then (begin_destroy_all sha work ids reason) (\<lambda>(bs, work). Ok (b # bs, work))))"

text \<open>A run's end: the destruction of every live environment of it.\<close>

definition begin_run_end :: "(string \<Rightarrow> string) \<Rightarrow> Work \<Rightarrow> string \<Rightarrow> string \<Rightarrow> (DestroyBegun list \<times> Work, AuthorityError) result" where
  "begin_run_end sha work run reason =
     begin_destroy_all sha work
       (map env_environment_id (sort_key (\<lambda>r. key_str (env_environment_id r))
          (filter (\<lambda>r. env_live r \<and> env_run_id r = run) (environments (tx work))))) reason"

text \<open>A new incarnation's start: the \<^verbatim>\<open>READY\<close> environments of runs that are not active.\<close>

definition begin_reaped_at_start :: "(string \<Rightarrow> string) \<Rightarrow> Work \<Rightarrow> (nat \<times> Work, AuthorityError) result" where
  "begin_reaped_at_start sha work =
     (let ended = map env_environment_id (sort_key (\<lambda>r. key_str (env_environment_id r))
            (filter (\<lambda>e. env_state e = ''READY'' \<and>
               list_ex (\<lambda>r. run_run_id r = env_run_id e \<and> run_state r \<noteq> ''ACTIVE'') (runs (tx work))) (environments (tx work))))
      in and_then (begin_destroy_all sha work ended ''REAPED'') (\<lambda>(_, work). Ok (length ended, work)))"

text \<open>
  A preparation's outcome in a run that ended meanwhile. The query for the run's state fails when no
  row has its id.
\<close>

definition end_with_its_run :: "(string \<Rightarrow> string) \<Rightarrow> Work \<Rightarrow> string \<Rightarrow> string \<Rightarrow> (DestroyBegun option \<times> Work, AuthorityError) result" where
  "end_with_its_run sha work e run =
     (case find (\<lambda>r. run_run_id r = run) (runs (tx work)) of
        None \<Rightarrow> Err (Sqlite ''Query returned no rows'')
      | Some row \<Rightarrow>
          if run_state row = ''ACTIVE'' then Ok (None, work)
          else and_then (environment_record work e) (\<lambda>found.
            case found of
              Some r \<Rightarrow>
                if er_state r = Ready \<or> er_state r = UnknownState
                then and_then (begin_destroy sha work e ''RUN_ENDED'') (\<lambda>(b, work). Ok (Some b, work))
                else Ok (None, work)
            | None \<Rightarrow> Ok (None, work)))"

text \<open>What an environment's proxy did: each disposition by its spelling, with its count.\<close>

record EgressCounters =
  dispositions :: "(string \<times> nat) list"
  bytes_upstream :: nat
  bytes_downstream :: nat

definition egress_fields :: "Fields \<Rightarrow> EgressCounters \<Rightarrow> Fields" where
  "egress_fields flds counters =
     Fields_int ''egress_bytes_downstream'' (bytes_downstream counters)
     (Fields_int ''egress_bytes_upstream'' (bytes_upstream counters)
     (Fields_list ''egress_dispositions''
        (map (\<lambda>(d, n). Text (d @ ''='' @ show_nat n)) (dispositions counters)) flds))"

datatype DestroyEnding = Gone "string option" bool "EgressCounters option" | StillPending string

text \<open>Record how a destruction ended.\<close>

definition record_destroyed :: "(string \<Rightarrow> string) \<Rightarrow> Work \<Rightarrow> EnvironmentRecord \<Rightarrow> DestroyEnding \<Rightarrow> Fields \<Rightarrow> (Work, AuthorityError) result" where
  "record_destroyed sha work r ending timing =
     (if I64_MAX < now work then Err (Invariant ''the clock does not fit'')
      else let base = Fields_text ''run_id'' (er_run r) (Fields_text ''environment_id'' (er_environment r) Fields_new) in
        case ending of
          Gone container already egress \<Rightarrow>
            let container = coalesce container (er_container r) in
            and_then (update_environments (\<lambda>row. env_environment_id row = er_environment r \<and> env_state row = ''DESTROYING'')
              (\<lambda>row. row\<lparr>env_state := ''DESTROYED'', env_container := coalesce (env_container row) container,
                         env_ended_ms := Some (int (now work))\<rparr>) work) (\<lambda>work.
            let flds = Fields_maybe_text ''container'' container (Fields_flag ''already_gone'' already base);
                flds = (case egress of Some counters \<Rightarrow> egress_fields flds counters | None \<Rightarrow> flds)
            in work_audit sha EnvironmentDestroyed (Fields_extend timing flds) work)
        | StillPending reason \<Rightarrow> work_audit sha EnvironmentDestroyFailed (Fields_text ''reason'' reason base) work)"

text \<open>Record that reconciliation found a recorded environment gone.\<close>

definition record_lost :: "(string \<Rightarrow> string) \<Rightarrow> Work \<Rightarrow> EnvironmentRecord \<Rightarrow> (Work, AuthorityError) result" where
  "record_lost sha work r =
     (if I64_MAX < now work then Err (Invariant ''the clock does not fit'')
      else let (state, event) = (if er_state r = Destroying then (''DESTROYED'', EnvironmentDestroyed) else (''LOST'', EnvironmentLost)) in
        and_then (update_environments (\<lambda>row. env_environment_id row = er_environment r)
          (\<lambda>row. row\<lparr>env_state := state, env_failure := coalesce (env_failure row) (Some ''MISSING''),
                     env_ended_ms := Some (int (now work))\<rparr>) work) (\<lambda>work.
          work_audit sha event
            (Fields_text ''class'' ''MISSING''
            (Fields_text ''was'' (EnvironmentState_as_str (er_state r))
            (Fields_text ''run_id'' (er_run r)
            (Fields_text ''environment_id'' (er_environment r) Fields_new)))) work))"

fun audit_interrupted :: "(string \<Rightarrow> string) \<Rightarrow> EnvRow list \<Rightarrow> Work \<Rightarrow> (Work, AuthorityError) result" where
  "audit_interrupted sha [] work = Ok work"
| "audit_interrupted sha (row # rows) work =
     and_then (work_audit sha EnvironmentOutcomeUnknown
       (Fields_text ''reason'' ''INTERRUPTED''
       (Fields_text ''run_id'' (env_run_id row)
       (Fields_text ''environment_id'' (env_environment_id row) Fields_new))) work) (audit_interrupted sha rows)"

text \<open>A preparation a previous incarnation left open: it may exist.\<close>

definition environment_reconcile_open :: "(string \<Rightarrow> string) \<Rightarrow> Work \<Rightarrow> (nat \<times> Work, AuthorityError) result" where
  "environment_reconcile_open sha work =
     (let found = filter (\<lambda>r. env_state r = ''PREPARING'') (environments (tx work)) in
      and_then (update_environments (\<lambda>r. env_state r = ''PREPARING'')
        (\<lambda>r. r\<lparr>env_state := ''UNKNOWN'', env_failure := Some ''INTERRUPTED''\<rparr>) work) (\<lambda>work.
      and_then (audit_interrupted sha found work) (\<lambda>work. Ok (length found, work))))"

section \<open>Reconciliation\<close>

datatype ContainerRole = EnvironmentRole | RelayRole | SetupRole
datatype ContainerState = Created | Running | Paused | Restarting | Exited | Dead | Removing

text \<open>One container the runtime lists under this store's labels.\<close>

record OwnedEnvironment =
  ow_container :: string
  ow_state :: ContainerState
  ow_image :: "string option"
  ow_environment_id :: "string option"
  ow_run_id :: "string option"
  ow_role :: "ContainerRole option"
  ow_labels_exact :: bool

datatype ReconcileClass = StillRunning EnvironmentRecord | StoppedClass EnvironmentRecord
  | Missing EnvironmentRecord | Pending EnvironmentRecord | Ambiguous string
  | Foreign string | Orphan OwnedEnvironment

definition environment_role :: "OwnedEnvironment \<Rightarrow> bool" where
  "environment_role owned \<longleftrightarrow> ow_role owned = Some EnvironmentRole"

definition is_twin :: "string \<Rightarrow> EnvironmentRecord \<Rightarrow> OwnedEnvironment \<Rightarrow> bool" where
  "is_twin e r owned \<longleftrightarrow> ow_labels_exact owned \<and> environment_role owned \<and>
     ow_environment_id owned = Some e \<and> ow_run_id owned = Some (er_run r)"

record Classified =
  classes :: "ReconcileClass list"
  claimed :: "string list"
  helped :: "string list"
  orphaned :: "string list"

definition push_class :: "ReconcileClass \<Rightarrow> Classified \<Rightarrow> Classified" where
  "push_class c acc = acc\<lparr>classes := classes acc @ [c]\<rparr>"

text \<open>What the one container of an environment's role is classified as, by the record's state.\<close>

definition classify_claimed :: "nat \<Rightarrow> EnvironmentRecord \<Rightarrow> string \<Rightarrow> OwnedEnvironment \<Rightarrow> Classified \<Rightarrow> Classified" where
  "classify_claimed current r e owned acc =
     (let acc = acc\<lparr>claimed := claimed acc @ [e]\<rparr> in
      case er_state r of
        Preparing \<Rightarrow> if current \<le> er_incarnation r then acc else push_class (Pending r) acc
      | Ready \<Rightarrow>
          if er_container r \<noteq> Some (ow_container owned) then push_class (Ambiguous e) acc
          else if ow_state owned = Running then push_class (StillRunning r) acc
          else push_class (StoppedClass r) acc
      | RefusedState \<Rightarrow> push_class (Orphan owned) (acc\<lparr>orphaned := orphaned acc @ [e]\<rparr>)
      | Destroyed \<Rightarrow> push_class (Orphan owned) (acc\<lparr>orphaned := orphaned acc @ [e]\<rparr>)
      | Lost \<Rightarrow> push_class (Orphan owned) (acc\<lparr>orphaned := orphaned acc @ [e]\<rparr>)
      | UnknownState \<Rightarrow> push_class (Pending r) acc
      | Destroying \<Rightarrow> push_class (Pending r) acc)"

definition classify_owned :: "EnvironmentRecord list \<Rightarrow> OwnedEnvironment list \<Rightarrow> nat \<Rightarrow> OwnedEnvironment \<Rightarrow> Classified \<Rightarrow> Classified" where
  "classify_owned records listed current owned acc =
     (case (if ow_labels_exact owned then ow_environment_id owned else None) of
        None \<Rightarrow> push_class (Foreign (ow_container owned)) acc
      | Some e \<Rightarrow>
          (case find (\<lambda>r. er_environment r = e) records of
             None \<Rightarrow> push_class (Foreign (ow_container owned)) acc
           | Some r \<Rightarrow>
               if ow_run_id owned \<noteq> Some (er_run r) then push_class (Foreign (ow_container owned)) acc
               else if \<not> environment_role owned then
                 (if is_final (er_state r) then
                    (if \<not> list_ex (is_twin e r) listed \<and> e \<notin> set (orphaned acc)
                     then push_class (Orphan owned) (acc\<lparr>orphaned := orphaned acc @ [e]\<rparr>)
                     else acc)
                  else if e \<notin> set (helped acc) then acc\<lparr>helped := helped acc @ [e]\<rparr>
                  else acc)
               else if 1 < length (filter (is_twin e r) listed) then
                 (if e \<notin> set (claimed acc)
                  then (push_class (Ambiguous e) acc)\<lparr>claimed := claimed acc @ [e]\<rparr>
                  else acc)
               else classify_claimed current r e owned acc))"

definition classify_record :: "nat \<Rightarrow> EnvironmentRecord \<Rightarrow> Classified \<Rightarrow> Classified" where
  "classify_record current r acc =
     (if \<not> is_final (er_state r) \<and> \<not> (er_state r = Preparing \<and> current \<le> er_incarnation r) \<and>
         er_environment r \<notin> set (claimed acc)
      then (if er_environment r \<in> set (helped acc) then push_class (Pending r) acc
            else push_class (Missing r) acc)
      else acc)"

definition classify_environments :: "EnvironmentRecord list \<Rightarrow> OwnedEnvironment list \<Rightarrow> nat \<Rightarrow> ReconcileClass list" where
  "classify_environments records listed current =
     classes (fold (classify_record current) records
       (fold (classify_owned records listed current) listed
          \<lparr>classes = [], claimed = [], helped = [], orphaned = []\<rparr>))"

end
