(* ===== verification/Auth_Lease.thy ===== *)
theory Auth_Lease
  imports Auth_Env
begin

text \<open>
  Session leases and epoch fencing: the whole of \<^verbatim>\<open>state/lease.rs\<close>, and the release of a run
  (\<^verbatim>\<open>release\<close> of \<^verbatim>\<open>state/admission.rs\<close>).
\<close>

section \<open>The lease row\<close>

definition DEFAULT_LEASE_TTL_MS :: nat where "DEFAULT_LEASE_TTL_MS = 60000"
definition MIN_LEASE_TTL_MS :: nat where "MIN_LEASE_TTL_MS = 1000"
definition MAX_LEASE_TTL_MS :: nat where "MAX_LEASE_TTL_MS = 600000"
definition Epoch_MIN :: nat where "Epoch_MIN = 1"
definition Epoch_MAX :: nat where "Epoch_MAX = 9007199254740991"
definition MAX_EPOCH :: nat where "MAX_EPOCH = Epoch_MAX"

definition Epoch_new :: "nat \<Rightarrow> nat option" where
  "Epoch_new v = (if Epoch_MIN \<le> v \<and> v \<le> Epoch_MAX then Some v else None)"

record Lease =
  l_epoch :: nat
  l_state :: string
  l_holder_subject :: "string option"
  l_holder :: "(nat \<times> nat) option"
  l_expires_ms :: "nat option"
  l_last_holder :: "(nat \<times> nat) option"

definition load_pair :: "int option \<Rightarrow> int option \<Rightarrow> (nat \<times> nat) option" where
  "load_pair a b = Option.bind a (\<lambda>a. Option.bind (u64_try_from a) (\<lambda>a.
     Option.bind b (\<lambda>b. Option.bind (u64_try_from b) (\<lambda>b. Some (a, b)))))"

definition lease_of :: "LeaseRow \<Rightarrow> (Lease, AuthorityError) result" where
  "lease_of r =
     and_then (ok_or (u64_try_from (lease_epoch r)) (Invariant ''a stored epoch is negative'')) (\<lambda>e.
       Ok \<lparr>l_epoch = e, l_state = lease_state r, l_holder_subject = holder_subject r,
            l_holder = load_pair (holder_incarnation r) (holder_connection r),
            l_expires_ms = Option.bind (expires_ms r) u64_try_from,
            l_last_holder = load_pair (last_holder_incarnation r) (last_holder_connection r)\<rparr>)"

definition lease_load :: "Work \<Rightarrow> string \<Rightarrow> (Lease option, AuthorityError) result" where
  "lease_load work session =
     (case find (\<lambda>r. lease_session r = session) (session_lease (tx work)) of
        None \<Rightarrow> Ok None
      | Some r \<Rightarrow> and_then (lease_of r) (\<lambda>l. Ok (Some l)))"

section \<open>The fence\<close>

definition fenced_ok :: "Lease \<Rightarrow> CallerContext \<Rightarrow> nat \<Rightarrow> nat \<Rightarrow> bool" where
  "fenced_ok lease caller epoch now' \<longleftrightarrow>
     l_state lease = ''HELD'' \<and> l_epoch lease = epoch \<and> l_holder lease = Some (holder_pair caller) \<and>
     l_holder_subject lease = Some (storage_key (subject caller)) \<and>
     (case l_expires_ms lease of Some expires \<Rightarrow> now' < expires | None \<Rightarrow> False)"

definition fence :: "Work \<Rightarrow> CallerContext \<Rightarrow> string \<Rightarrow> nat \<Rightarrow> (bool, AuthorityError) result" where
  "fence work caller session epoch =
     and_then (lease_load work session) (\<lambda>lease.
       Ok (case lease of Some lease \<Rightarrow> fenced_ok lease caller epoch (now work) | None \<Rightarrow> False))"

definition refusal_fields :: "CallerContext \<Rightarrow> RefusedOperation \<Rightarrow> RefusalReason \<Rightarrow> string \<Rightarrow> nat option \<Rightarrow> Fields" where
  "refusal_fields caller operation reason session presented_epoch =
     Fields_maybe_int ''presented_epoch'' presented_epoch
     (Fields_text ''session_id'' session
     (Fields_text ''holder'' (LeaseHolder_to_string (holder caller))
     (Fields_text ''subject'' (storage_key (subject caller))
     (Fields_text ''reason'' (RefusalReason_as_str reason)
     (Fields_text ''operation'' (RefusedOperation_as_str operation) Fields_new)))))"

section \<open>Ending runs\<close>

definition update_runs :: "(RunRow \<Rightarrow> bool) \<Rightarrow> (RunRow \<Rightarrow> RunRow) \<Rightarrow> Work \<Rightarrow> (nat \<times> Work, AuthorityError) result" where
  "update_runs wh upd work =
     and_then (work_db (sql_update update_run_refuses wh upd (runs (tx work)))) (\<lambda>(rows, n).
       Ok (n, work\<lparr>tx := (tx work)\<lparr>runs := rows\<rparr>\<rparr>))"

fun reap_loop :: "(string \<Rightarrow> string) \<Rightarrow> string \<Rightarrow> string \<Rightarrow> string list \<Rightarrow> Work \<Rightarrow> (DestroyBegun list \<times> Work, AuthorityError) result" where
  "reap_loop sha session cause [] work = Ok ([], work)"
| "reap_loop sha session cause (run # reaped) work =
     and_then (ok_or (RunId_parse run) (Invariant ''a stored run_id is malformed'')) (\<lambda>i.
     and_then (work_audit sha RunReaped
       (Fields_text ''cause'' cause (Fields_text ''run_id'' run (Fields_text ''session_id'' session Fields_new))) work) (\<lambda>work.
     and_then (begin_run_end sha work i ''REAPED'') (\<lambda>(bs, work).
     and_then (reap_loop sha session cause reaped work) (\<lambda>(bs', work). Ok (bs @ bs', work)))))"

definition reap :: "(string \<Rightarrow> string) \<Rightarrow> Work \<Rightarrow> string \<Rightarrow> nat \<Rightarrow> string \<Rightarrow> (DestroyBegun list \<times> Work, AuthorityError) result" where
  "reap sha work session below_epoch cause =
     and_then (to_sql below_epoch) (\<lambda>below.
     and_then (to_sql (now work)) (\<lambda>ended.
     let wh = (\<lambda>r. run_session r = session \<and> run_state r = ''ACTIVE'' \<and> run_epoch r < below);
         reaped = map run_run_id (filter wh (runs (tx work)))
     in and_then (update_runs wh (\<lambda>r. r\<lparr>run_state := ''REAPED'', run_ended_ms := Some ended\<rparr>) work) (\<lambda>(_, work).
        reap_loop sha session cause reaped work)))"

section \<open>The operations\<close>

definition update_leases :: "(LeaseRow \<Rightarrow> bool) \<Rightarrow> (LeaseRow \<Rightarrow> LeaseRow) \<Rightarrow> Work \<Rightarrow> (nat \<times> Work, AuthorityError) result" where
  "update_leases wh upd work =
     and_then (work_db (sql_update update_lease_refuses wh upd (session_lease (tx work)))) (\<lambda>(rows, n).
       Ok (n, work\<lparr>tx := (tx work)\<lparr>session_lease := rows\<rparr>\<rparr>))"

definition insert_lease :: "LeaseRow \<Rightarrow> Work \<Rightarrow> (Work, AuthorityError) result" where
  "insert_lease row work =
     and_then (work_db (sql_insert lease_session insert_lease_refuses row (session_lease (tx work)))) (\<lambda>rows.
       Ok (work\<lparr>tx := (tx work)\<lparr>session_lease := rows\<rparr>\<rparr>))"

text \<open>What an acquisition finds: the refusal of a live lease of another holder, or the next epoch.\<close>

definition acquire_decision :: "Lease option \<Rightarrow> nat \<times> nat \<Rightarrow> nat \<Rightarrow> ((nat \<times> string) option, AuthorityError) result" where
  "acquire_decision current pair now' =
     (case current of
        None \<Rightarrow> Ok (Some (1, ''none''))
      | Some lease \<Rightarrow>
          let live = (l_state lease = ''HELD'' \<and> (case l_expires_ms lease of Some e \<Rightarrow> now' < e | None \<Rightarrow> False)) in
          if live \<and> l_holder lease \<noteq> Some pair then Ok None
          else if MAX_EPOCH \<le> l_epoch lease then Err EpochExhausted
          else Ok (Some (saturating_add (l_epoch lease) 1,
                 if l_state lease = ''HELD'' \<and> live then ''reissued''
                 else if l_state lease = ''HELD'' then ''expired''
                 else if l_state lease = ''RELEASED'' then ''released''
                 else ''invalidated'')))"

text \<open>The new tenure: the row written, the runs of the old tenure reaped, the record.\<close>

definition acquire_tenure :: "(string \<Rightarrow> string) \<Rightarrow> Work \<Rightarrow> CallerContext \<Rightarrow> string \<Rightarrow> nat \<Rightarrow> bool \<Rightarrow> nat \<Rightarrow> string \<Rightarrow>
    ((nat Reply \<times> DestroyBegun list) \<times> Work, AuthorityError) result" where
  "acquire_tenure sha work caller session expires fresh epoch prior =
     (case holder_pair caller of (inc, conn) \<Rightarrow>
      and_then (to_sql epoch) (\<lambda>epoch_sql.
      and_then (to_sql inc) (\<lambda>inc_sql.
      and_then (to_sql conn) (\<lambda>conn_sql.
      and_then (to_sql expires) (\<lambda>expires_sql.
      and_then
        (if fresh
         then and_then (insert_lease \<lparr>lease_session = session, lease_epoch = epoch_sql, lease_state = ''HELD'',
                holder_subject = Some (storage_key (subject caller)), holder_incarnation = Some inc_sql,
                holder_connection = Some conn_sql, expires_ms = Some expires_sql,
                last_holder_incarnation = None, last_holder_connection = None\<rparr> work) (\<lambda>work. Ok ([], work))
         else and_then (update_leases (\<lambda>r. lease_session r = session)
                (\<lambda>r. r\<lparr>lease_epoch := epoch_sql, lease_state := ''HELD'',
                  holder_subject := Some (storage_key (subject caller)), holder_incarnation := Some inc_sql,
                  holder_connection := Some conn_sql, expires_ms := Some expires_sql\<rparr>) work) (\<lambda>(_, work).
              reap sha work session epoch ''lease_reacquired'')) (\<lambda>(teardown, work).
      and_then (work_audit sha LeaseAcquired
        (Fields_int ''expires_ms'' expires
        (Fields_text ''prior'' prior
        (Fields_int ''epoch'' epoch
        (Fields_text ''session_id'' session
        (Fields_text ''holder'' (LeaseHolder_to_string (holder caller))
        (Fields_text ''subject'' (storage_key (subject caller)) Fields_new)))))) work) (\<lambda>work.
      and_then (ok_or (Epoch_new epoch) EpochExhausted) (\<lambda>epoch. Ok ((Done epoch, teardown), work)))))))))"

definition acquire :: "(string \<Rightarrow> string) \<Rightarrow> Work \<Rightarrow> CallerContext \<Rightarrow> string \<Rightarrow> nat \<Rightarrow>
    ((nat Reply \<times> DestroyBegun list) \<times> Work, AuthorityError) result" where
  "acquire sha work caller session ttl_ms =
     (let expires = saturating_add (now work) ttl_ms in
      and_then (lease_load work session) (\<lambda>current.
      and_then (acquire_decision current (holder_pair caller) (now work)) (\<lambda>decision.
        case decision of
          None \<Rightarrow>
            and_then (work_audit sha LeaseRefused (refusal_fields caller AcquireLease LeaseHeld session None) work) (\<lambda>work.
              Ok ((Refused LeaseHeld, []), work))
        | Some (epoch, prior) \<Rightarrow> acquire_tenure sha work caller session expires (current = None) epoch prior)))"

definition heartbeat :: "(string \<Rightarrow> string) \<Rightarrow> Work \<Rightarrow> CallerContext \<Rightarrow> string \<Rightarrow> nat \<Rightarrow> nat \<Rightarrow> (unit Reply \<times> Work, AuthorityError) result" where
  "heartbeat sha work caller session epoch ttl_ms =
     and_then (fence work caller session epoch) (\<lambda>ok.
       if \<not> ok then
         and_then (work_audit sha LeaseRefused (refusal_fields caller Heartbeat StaleEpoch session (Some epoch)) work) (\<lambda>work.
           Ok (Refused StaleEpoch, work))
       else and_then (to_sql (saturating_add (now work) ttl_ms)) (\<lambda>expires.
         and_then (update_leases (\<lambda>r. lease_session r = session) (\<lambda>r. r\<lparr>expires_ms := Some expires\<rparr>) work) (\<lambda>(_, work).
           Ok (Done (), work))))"

definition release_held :: "(string \<Rightarrow> string) \<Rightarrow> Work \<Rightarrow> CallerContext \<Rightarrow> string \<Rightarrow> Lease \<Rightarrow>
    ((unit Reply \<times> DestroyBegun list) \<times> Work, AuthorityError) result" where
  "release_held sha work caller session lease =
     (case holder_pair caller of (inc, conn) \<Rightarrow>
      and_then (to_sql inc) (\<lambda>inc_sql.
      and_then (to_sql conn) (\<lambda>conn_sql.
      and_then (update_leases (\<lambda>r. lease_session r = session)
        (\<lambda>r. r\<lparr>lease_state := ''RELEASED'', holder_subject := None, holder_incarnation := None, holder_connection := None,
               expires_ms := None, last_holder_incarnation := Some inc_sql, last_holder_connection := Some conn_sql\<rparr>) work) (\<lambda>(_, work).
      and_then (reap sha work session (saturating_add (l_epoch lease) 1) ''lease_released'') (\<lambda>(teardown, work).
      and_then (work_audit sha LeaseReleased
        (Fields_int ''epoch'' (l_epoch lease)
        (Fields_text ''session_id'' session
        (Fields_text ''holder'' (LeaseHolder_to_string (holder caller))
        (Fields_text ''subject'' (storage_key (subject caller)) Fields_new)))) work) (\<lambda>work.
        Ok ((Done (), teardown), work)))))))"

definition lease_release :: "(string \<Rightarrow> string) \<Rightarrow> Work \<Rightarrow> CallerContext \<Rightarrow> string \<Rightarrow> nat \<Rightarrow>
    ((unit Reply \<times> DestroyBegun list) \<times> Work, AuthorityError) result" where
  "lease_release sha work caller session epoch =
     and_then (lease_load work session) (\<lambda>lease.
     let refuse = and_then (work_audit sha LeaseRefused (refusal_fields caller ReleaseLease StaleEpoch session (Some epoch)) work) (\<lambda>work.
           Ok ((Refused StaleEpoch, []), work))
     in case lease of
          Some lease \<Rightarrow>
            if fenced_ok lease caller epoch (now work) then release_held sha work caller session lease
            else if l_state lease = ''RELEASED'' \<and> l_epoch lease = epoch \<and> l_last_holder lease = Some (holder_pair caller)
            then Ok ((Done (), []), work)
            else refuse
        | None \<Rightarrow> refuse)"

definition invalidate_all :: "Work \<Rightarrow> ((nat \<times> nat) \<times> Work, AuthorityError) result" where
  "invalidate_all work =
     and_then (update_leases (\<lambda>r. lease_state r = ''HELD'')
       (\<lambda>r. r\<lparr>lease_state := ''INVALIDATED'', last_holder_incarnation := holder_incarnation r,
              last_holder_connection := holder_connection r, holder_subject := None, holder_incarnation := None,
              holder_connection := None, expires_ms := None\<rparr>) work) (\<lambda>(leases, work).
     and_then (to_sql (now work)) (\<lambda>ended.
     and_then (update_runs (\<lambda>r. run_state r = ''ACTIVE'') (\<lambda>r. r\<lparr>run_state := ''REAPED'', run_ended_ms := Some ended\<rparr>) work) (\<lambda>(n, work).
       Ok ((leases, n), work))))"

text \<open>The release of one run; \<open>Done True\<close> when this request released it.\<close>

definition run_release :: "(string \<Rightarrow> string) \<Rightarrow> Work \<Rightarrow> CallerContext \<Rightarrow> string \<Rightarrow> string \<Rightarrow> nat \<Rightarrow> (bool Reply \<times> Work, AuthorityError) result" where
  "run_release sha work caller session run epoch =
     and_then (fence work caller session epoch) (\<lambda>ok.
       if \<not> ok then
         and_then (work_audit sha RunReleaseRefused (refusal_fields caller ReleaseRun StaleEpoch session (Some epoch)) work) (\<lambda>work.
           Ok (Refused StaleEpoch, work))
       else
         and_then (to_sql epoch) (\<lambda>epoch_sql.
         and_then (to_sql (now work)) (\<lambda>ended.
         and_then (update_runs (\<lambda>r. run_run_id r = run \<and> run_session r = session \<and>
               run_subject r = storage_key (subject caller) \<and> run_epoch r = epoch_sql \<and> run_state r = ''ACTIVE'')
             (\<lambda>r. r\<lparr>run_state := ''RELEASED'', run_ended_ms := Some ended\<rparr>) work) (\<lambda>(changed, work).
           if changed = 1 then
             and_then (work_audit sha RunReleased
               (Fields_text ''run_id'' run
               (Fields_int ''epoch'' epoch
               (Fields_text ''session_id'' session
               (Fields_text ''holder'' (LeaseHolder_to_string (holder caller))
               (Fields_text ''subject'' (storage_key (subject caller)) Fields_new))))) work) (\<lambda>work.
               Ok (Done True, work))
           else Ok (Done False, work)))))"

end
