(* ===== verification/Auth_Kernel.thy ===== *)
theory Auth_Kernel
  imports Auth_Lease
begin

text \<open>
  The durable authority (\<^verbatim>\<open>state/mod.rs\<close>): poisoning, the transaction that commits and then makes
  its audit records durable, and the lease operations around it. What the clock, the crash hook,
  SQLite's begin and commit, the log file and the broker answer is an argument: the environment of
  one transaction and of one destruction. A transaction that does not commit leaves the store as it
  was.
\<close>

section \<open>The shared state\<close>

record Authority =
  poison_reason :: "PoisonReason option"
  quarantined :: bool
  auth_incarnation :: nat
  auth_instance :: nat
  next_connection :: nat
  lease_ttl_ms :: nat
  store :: Store
  audit_log :: LogFile
  audit_writer :: "AuditWriter option"

record tx_env =
  clock_now :: nat
  hook :: "nat \<Rightarrow> CrashPoint \<Rightarrow> HookAction"
  begin_error :: "SqliteError option"
  commit_error :: "SqliteError option"
  log_write_fails :: "nat \<Rightarrow> nat option"
  log_sync_fails :: bool

definition Shared_check :: "Authority \<Rightarrow> (unit, AuthorityError) result" where
  "Shared_check self = (case poison_reason self of None \<Rightarrow> Ok () | Some reason \<Rightarrow> Err (Poisoned reason))"

text \<open>The first reason is kept; structural damage also writes the quarantine marker.\<close>

definition Shared_poison :: "PoisonReason \<Rightarrow> Authority \<Rightarrow> AuthorityError \<times> Authority" where
  "Shared_poison reason self =
     (Poisoned reason,
      self\<lparr>poison_reason := (case poison_reason self of None \<Rightarrow> Some reason | Some first \<Rightarrow> Some first),
           quarantined := quarantined self \<or> is_structural reason\<rparr>)"

definition Shared_sql :: "SqliteError \<Rightarrow> Authority \<Rightarrow> AuthorityError \<times> Authority" where
  "Shared_sql error self =
     (case classify error of
        ClassPoison reason \<Rightarrow> Shared_poison reason self
      | other \<Rightarrow> (to_error other, self))"

definition Shared_crash :: "HookAction \<Rightarrow> CrashPoint \<Rightarrow> Authority \<Rightarrow> (unit, AuthorityError) result \<times> Authority" where
  "Shared_crash action point self =
     (if action = Stop then (case Shared_poison (Interrupted point) self of (e, self) \<Rightarrow> (Err e, self))
      else (Ok (), self))"

definition err_of :: "AuthorityError \<times> Authority \<Rightarrow> ('a, AuthorityError) result \<times> Authority" where
  "err_of p = (Err (fst p), snd p)"

text \<open>
  The flush of the records through \<open>target\<close>. The hook inside it is the same crash hook: its stop has
  poisoned the store when the flush returns.
\<close>

definition flush_env_of :: "tx_env \<Rightarrow> flush_env" where
  "flush_env_of env =
     \<lparr>crash_hook = (\<lambda>i point. if hook env (2 + i) point = Stop then Err (Poisoned (Interrupted point)) else Ok ()),
      write_fails = log_write_fails env, sync_fails = log_sync_fails env\<rparr>"

definition stopped :: "AuthorityError \<Rightarrow> Authority \<Rightarrow> Authority" where
  "stopped error self = (case error of Poisoned reason \<Rightarrow> snd (Shared_poison reason self) | _ \<Rightarrow> self)"

definition Shared_flush :: "tx_env \<Rightarrow> nat \<Rightarrow> Authority \<Rightarrow> (unit, AuthorityError) result \<times> Authority" where
  "Shared_flush env target self =
     (case Shared_check self of
        Inl e \<Rightarrow> (Err e, self)
      | Inr _ \<Rightarrow>
          (case audit_writer self of
             None \<Rightarrow> (Err (Invariant ''the audit writer is not open''), self)
           | Some w \<Rightarrow>
               (case flush_through (flush_env_of env) target (w, audit_log self, audit (store self)) of
                  ((w, l, t), r) \<Rightarrow>
                    let self = self\<lparr>audit_writer := Some w, audit_log := l, store := (store self)\<lparr>audit := t\<rparr>\<rparr> in
                    (case r of
                       Inr _ \<Rightarrow> (Ok (), self)
                     | Inl (Stopped error) \<Rightarrow> (Err error, stopped error self)
                     | Inl FlushIo \<Rightarrow> err_of (Shared_poison AuditIo self)
                     | Inl (FlushSqlite error) \<Rightarrow> err_of (Shared_sql error self)
                     | Inl (FlushDiverged why) \<Rightarrow> err_of (Shared_poison (AuditDiverged why) self)))))"

definition work_of :: "tx_env \<Rightarrow> Authority \<Rightarrow> Work" where
  "work_of env self =
     \<lparr>tx = store self, now = clock_now env, last_seq = None,
      work_incarnation = auth_incarnation self, store_instance = auth_instance self\<rparr>"

text \<open>Run the body in one transaction, then make its audit records durable before returning.\<close>

definition transact :: "tx_env \<Rightarrow> (Work \<Rightarrow> ('a \<times> Work, AuthorityError) result) \<Rightarrow> Authority \<Rightarrow>
    ('a, AuthorityError) result \<times> Authority" where
  "transact env body self =
     (case Shared_check self of
        Inl e \<Rightarrow> (Err e, self)
      | Inr _ \<Rightarrow>
     (case Shared_crash (hook env 0 BeforeTransaction) BeforeTransaction self of
        (Inl e, self) \<Rightarrow> (Err e, self)
      | (Inr _, self) \<Rightarrow>
     (case begin_error env of
        Some error \<Rightarrow> err_of (Shared_sql error self)
      | None \<Rightarrow>
     (case body (work_of env self) of
        Inl error \<Rightarrow> (Err error, stopped error self)
      | Inr (result, work) \<Rightarrow>
     (case Shared_crash (hook env 1 BeforeCommit) BeforeCommit self of
        (Inl e, self) \<Rightarrow> (Err e, self)
      | (Inr _, self) \<Rightarrow>
     (case commit_error env of
        Some error \<Rightarrow> err_of (Shared_sql error self)
      | None \<Rightarrow>
          let self = self\<lparr>store := tx work\<rparr> in
          (case last_seq work of
             None \<Rightarrow> (Ok result, self)
           | Some seq \<Rightarrow>
               (case Shared_flush env seq self of
                  (Inl e, self) \<Rightarrow> (Err e, self)
                | (Inr _, self) \<Rightarrow> (Ok result, self)))))))))"

section \<open>Destroying what runs left\<close>

datatype BrokerAnswer = EnvironmentDestroyedAnswer "string option" bool "EgressCounters option" nat
  | OtherDelivery | BrokerFails string

text \<open>
  One destruction: whether a sandbox is attached and its runtime client can be handed over, what
  the broker answers, the crash hook, the elapsed time, and the transaction that records the outcome.
\<close>

record destroy_env =
  attached :: bool
  runtime_handoff :: "(unit, string) result"
  broker_answer :: "string \<Rightarrow> string \<Rightarrow> string option \<Rightarrow> string \<Rightarrow> BrokerAnswer"
  destroy_hook :: "CrashPoint \<Rightarrow> HookAction"
  authority_ms :: nat
  destroy_tx :: tx_env

definition broker_destroy :: "destroy_env \<Rightarrow> string \<Rightarrow> string \<Rightarrow> string option \<Rightarrow> string \<Rightarrow> DestroyEnding \<times> nat" where
  "broker_destroy denv e run container invocation =
     (case runtime_handoff denv of
        Inl reason \<Rightarrow> (StillPending reason, 0)
      | Inr _ \<Rightarrow>
          (case broker_answer denv e run container invocation of
             EnvironmentDestroyedAnswer c already egress ms \<Rightarrow> (Gone c already egress, ms)
           | OtherDelivery \<Rightarrow> (StillPending ''BROKER_PROTOCOL_ERROR'', 0)
           | BrokerFails reason \<Rightarrow> (StillPending reason, 0)))"

datatype EnvironmentReply = ReplyRefused string
  | ReplyDestroyed string "string option" bool nat "EgressCounters option"
  | ReplyDestroyPending string string

definition perform_destroy :: "(string \<Rightarrow> string) \<Rightarrow> destroy_env \<Rightarrow> EnvironmentRecord \<Rightarrow> string \<Rightarrow> Authority \<Rightarrow>
    (EnvironmentReply, AuthorityError) result \<times> Authority" where
  "perform_destroy sha denv r invocation self =
     (if \<not> attached denv then (Ok (ReplyDestroyPending (er_environment r) ''SANDBOX_NOT_ATTACHED''), self)
      else
     (case Shared_crash (destroy_hook denv EnvironmentDestroyAfterIntent) EnvironmentDestroyAfterIntent self of
        (Inl e, self) \<Rightarrow> (Err e, self)
      | (Inr _, self) \<Rightarrow>
     (case broker_destroy denv (er_environment r) (er_run r) (er_container r) invocation of
        (ending, destroy_ms) \<Rightarrow>
     (case Shared_crash (destroy_hook denv EnvironmentDestroyAfterBroker) EnvironmentDestroyAfterBroker self of
        (Inl e, self) \<Rightarrow> (Err e, self)
      | (Inr _, self) \<Rightarrow>
          let timing = Fields_int ''authority_ms'' (authority_ms denv) (Fields_int ''destroy_ms'' destroy_ms Fields_new) in
          (case transact (destroy_tx denv)
              (\<lambda>work. and_then (record_destroyed sha work r ending timing) (\<lambda>work. Ok ((), work))) self of
             (Inl e, self) \<Rightarrow> (Err e, self)
           | (Inr _, self) \<Rightarrow>
               (Ok (case ending of
                      Gone container already egress \<Rightarrow>
                        ReplyDestroyed (er_environment r) (coalesce container (er_container r)) already destroy_ms egress
                    | StillPending reason \<Rightarrow> ReplyDestroyPending (er_environment r) reason), self))))))"

fun is_pending :: "DestroyBegun \<Rightarrow> bool" where
  "is_pending (DestroyPending _ _) = True"
| "is_pending (DestroyRefused _) = False"

text \<open>What the end of runs left to the broker: at most one destruction is performed now.\<close>

definition end_runs :: "(string \<Rightarrow> string) \<Rightarrow> destroy_env \<Rightarrow> DestroyBegun list \<Rightarrow> CrashPoint \<Rightarrow> Authority \<Rightarrow>
    (unit, AuthorityError) result \<times> Authority" where
  "end_runs sha denv teardown point self =
     (if teardown = [] then (Ok (), self)
      else (case Shared_crash (destroy_hook denv point) point self of
         (Inl e, self) \<Rightarrow> (Err e, self)
       | (Inr _, self) \<Rightarrow>
           (case find is_pending teardown of
              Some (DestroyPending r invocation) \<Rightarrow>
                (case perform_destroy sha denv r invocation self of
                   (Inl e, self) \<Rightarrow> (Err e, self)
                 | (Inr _, self) \<Rightarrow> (Ok (), self))
            | _ \<Rightarrow> (Ok (), self))))"

section \<open>The operations\<close>

definition connect :: "AuthenticatedSubject \<Rightarrow> Authority \<Rightarrow> CallerContext \<times> Authority" where
  "connect subj self =
     (\<lparr>subject = subj, holder = \<lparr>incarnation = auth_incarnation self, connection = saturating_add (next_connection self) 1\<rparr>\<rparr>,
      self\<lparr>next_connection := (next_connection self + 1) mod 2 ^ 64\<rparr>)"

definition acquire_lease :: "(string \<Rightarrow> string) \<Rightarrow> tx_env \<Rightarrow> destroy_env \<Rightarrow> CallerContext \<Rightarrow> string \<Rightarrow> Authority \<Rightarrow>
    (nat Reply, AuthorityError) result \<times> Authority" where
  "acquire_lease sha env denv caller session self =
     (case transact env (\<lambda>work. acquire sha work caller session (lease_ttl_ms self)) self of
        (Inl e, self) \<Rightarrow> (Err e, self)
      | (Inr (reply, teardown), self) \<Rightarrow>
          (case end_runs sha denv teardown ReapAfterIntent self of
             (Inl e, self) \<Rightarrow> (Err e, self)
           | (Inr _, self) \<Rightarrow> (Ok reply, self)))"

definition heartbeat_lease :: "(string \<Rightarrow> string) \<Rightarrow> tx_env \<Rightarrow> CallerContext \<Rightarrow> string \<Rightarrow> nat \<Rightarrow> Authority \<Rightarrow>
    (unit Reply, AuthorityError) result \<times> Authority" where
  "heartbeat_lease sha env caller session epoch self =
     transact env (\<lambda>work. heartbeat sha work caller session epoch (lease_ttl_ms self)) self"

definition release_lease :: "(string \<Rightarrow> string) \<Rightarrow> tx_env \<Rightarrow> destroy_env \<Rightarrow> CallerContext \<Rightarrow> string \<Rightarrow> nat \<Rightarrow> Authority \<Rightarrow>
    (unit Reply, AuthorityError) result \<times> Authority" where
  "release_lease sha env denv caller session epoch self =
     (case transact env (\<lambda>work. lease_release sha work caller session epoch) self of
        (Inl e, self) \<Rightarrow> (Err e, self)
      | (Inr (reply, teardown), self) \<Rightarrow>
          (case end_runs sha denv teardown ReapAfterIntent self of
             (Inl e, self) \<Rightarrow> (Err e, self)
           | (Inr _, self) \<Rightarrow> (Ok reply, self)))"

text \<open>The body of \<^verbatim>\<open>release_run\<close>: only the request that released the run ends its environment.\<close>

definition release_run_body :: "(string \<Rightarrow> string) \<Rightarrow> CallerContext \<Rightarrow> string \<Rightarrow> string \<Rightarrow> nat \<Rightarrow> Work \<Rightarrow>
    ((unit Reply \<times> DestroyBegun list) \<times> Work, AuthorityError) result" where
  "release_run_body sha caller session run epoch work =
     and_then (run_release sha work caller session run epoch) (\<lambda>(released, work).
     and_then (case released of
         Done True \<Rightarrow> begin_run_end sha work run ''RELEASED''
       | _ \<Rightarrow> Ok ([], work)) (\<lambda>(teardown, work).
       Ok ((case released of Done _ \<Rightarrow> Done () | Refused reason \<Rightarrow> Refused reason, teardown), work)))"

definition release_run :: "(string \<Rightarrow> string) \<Rightarrow> tx_env \<Rightarrow> destroy_env \<Rightarrow> CallerContext \<Rightarrow> string \<Rightarrow> string \<Rightarrow> nat \<Rightarrow> Authority \<Rightarrow>
    (unit Reply, AuthorityError) result \<times> Authority" where
  "release_run sha env denv caller session run epoch self =
     (case transact env (release_run_body sha caller session run epoch) self of
        (Inl e, self) \<Rightarrow> (Err e, self)
      | (Inr (reply, teardown), self) \<Rightarrow>
          (case end_runs sha denv teardown ReleaseAfterIntent self of
             (Inl e, self) \<Rightarrow> (Err e, self)
           | (Inr _, self) \<Rightarrow> (Ok reply, self)))"

definition environment_destroy :: "(string \<Rightarrow> string) \<Rightarrow> tx_env \<Rightarrow> destroy_env \<Rightarrow> string \<Rightarrow> Authority \<Rightarrow>
    (EnvironmentReply, AuthorityError) result \<times> Authority" where
  "environment_destroy sha env denv e self =
     (if \<not> attached denv then (Ok (ReplyRefused ''SANDBOX_NOT_ATTACHED''), self)
      else (case transact env (\<lambda>work. begin_destroy sha work e ''REQUESTED'') self of
         (Inl err, self) \<Rightarrow> (Err err, self)
       | (Inr (DestroyRefused reason), self) \<Rightarrow> (Ok (ReplyRefused reason), self)
       | (Inr (DestroyPending r invocation), self) \<Rightarrow> perform_destroy sha denv r invocation self))"

text \<open>
  The start of an incarnation: the counter moves, every lease is invalidated and every run reaped,
  open preparations become unknown, and the ready environments of ended runs are to be destroyed.
  The store modelled here has no rows of tools, processes, secret uses, requests and workloads; on
  such a store the reconciliation of these ledgers, which stands between the two, does nothing and
  counts nothing.
\<close>

definition CURRENT_VERSION :: nat where "CURRENT_VERSION = 11"

definition next_incarnation :: "Work \<Rightarrow> (nat \<times> Work, AuthorityError) result" where
  "next_incarnation work =
     and_then (work_db (update_store_meta (meta_incarnation (tx work) + 1) (id_counter (tx work)) (tx work))) (\<lambda>tx'.
     and_then (ok_or (u64_try_from (meta_incarnation tx')) (Invariant ''the incarnation is negative'')) (\<lambda>inc.
       Ok (inc, work\<lparr>tx := tx'\<rparr>)))"

definition begin_incarnation_body :: "(string \<Rightarrow> string) \<Rightarrow> bool \<Rightarrow> Recovered \<Rightarrow> Work \<Rightarrow> ((nat \<times> nat \<times> nat) \<times> Work, AuthorityError) result" where
  "begin_incarnation_body sha created recovered work =
     and_then (next_incarnation work) (\<lambda>(inc, work).
     and_then (invalidate_all work) (\<lambda>((leases, runs'), work).
     and_then (environment_reconcile_open sha work) (\<lambda>(environment_unknown, work).
     and_then (begin_reaped_at_start sha work) (\<lambda>(_, work).
     and_then (work_audit sha StoreOpened
       (Fields_int ''audit_torn_tail_bytes'' (torn_tail_bytes recovered)
       (Fields_int ''audit_appended'' (appended recovered)
       (Fields_int ''audit_reconciled'' (reconciled recovered)
       (Fields_int ''invocations_unknown'' environment_unknown
       (Fields_int ''invocations_interrupted'' 0
       (Fields_int ''runs_reaped'' runs'
       (Fields_int ''leases_invalidated'' leases
       (Fields_flag ''created'' created
       (Fields_int ''schema_version'' CURRENT_VERSION
       (Fields_int ''incarnation'' inc Fields_new)))))))))) work) (\<lambda>work.
       Ok ((inc, leases, runs'), work))))))"

definition begin_incarnation :: "(string \<Rightarrow> string) \<Rightarrow> tx_env \<Rightarrow> bool \<Rightarrow> Recovered \<Rightarrow> Authority \<Rightarrow>
    (nat \<times> nat \<times> nat, AuthorityError) result \<times> Authority" where
  "begin_incarnation sha env created recovered self =
     (case transact env (begin_incarnation_body sha created recovered) self of
        (Inl e, self) \<Rightarrow> (Err e, self)
      | (Inr (inc, leases, runs'), self) \<Rightarrow> (Ok (inc, leases, runs'), self\<lparr>auth_incarnation := inc\<rparr>))"

end
