(* ===== verification/Auth_Store_Laws.thy ===== *)
theory Auth_Store_Laws
  imports Auth_Kernel
begin

text \<open>
  The laws of the tables: which part of the store a call can touch (\<open>quiet\<close> calls mint identifiers,
  append audit records and move environments forward, and leave leases and runs alone), and the
  invariant of the store that every operation keeps.
\<close>

section \<open>Fields of records\<close>

lemma wf_fields_simps [simp]:
  "wf_fields Fields_new"
  "wf_fields (Fields_text k v fs) \<longleftrightarrow> wf_fields fs \<and> utf8_ok k \<and> utf8_ok v"
  "wf_fields (Fields_int k n fs) \<longleftrightarrow> wf_fields fs \<and> utf8_ok k"
  "wf_fields (Fields_flag k b fs) \<longleftrightarrow> wf_fields fs \<and> utf8_ok k"
  "wf_fields (Fields_maybe_int k no fs) \<longleftrightarrow> wf_fields fs \<and> (no \<noteq> None \<longrightarrow> utf8_ok k)"
  "wf_fields (Fields_maybe_text k vo fs) \<longleftrightarrow> wf_fields fs \<and> (\<forall>v. vo = Some v \<longrightarrow> utf8_ok k \<and> utf8_ok v)"
  "wf_fields (Fields_extend gs fs) \<longleftrightarrow> wf_fields fs \<and> wf_fields gs"
  by (auto simp: wf_fields_def Fields_new_def Fields_text_def Fields_int_def Fields_flag_def Fields_maybe_int_def
      Fields_maybe_text_def Fields_extend_def MAX_DEPTH_def split: option.splits)

lemma alphabet_ascii: "c \<in> set ALPHABET \<Longrightarrow> byte_of c < 128"
  by (auto simp: ALPHABET_def)

lemma encode_digits_ascii: "c \<in> set (encode_digits n v) \<Longrightarrow> byte_of c < 128"
proof (induction n arbitrary: v)
  case (Suc n)
  have "v AND 31 < length ALPHABET" by (simp add: ALPHABET_def and31)
  then have "ALPHABET ! (v AND 31) \<in> set ALPHABET" by (rule nth_mem)
  then show ?case using Suc alphabet_ascii by auto
qed simp

lemma utf8_ok_encode_uuid [simp]: "utf8_ok (encode_uuid v)"
  unfolding encode_uuid_def using encode_digits_ascii by (rule utf8_ok_all_ascii)

lemma utf8_ok_id_parse: "id_parse p s = Some t \<Longrightarrow> utf8_ok p \<Longrightarrow> t = s \<and> utf8_ok s"
  by (auto simp: id_parse_iff utf8_ok_append)

lemma parsed_ids:
  "RunId_parse s = Some t \<Longrightarrow> t = s \<and> utf8_ok s"
  "SessionId_parse s = Some t \<Longrightarrow> t = s \<and> utf8_ok s"
  "EnvironmentId_parse s = Some t \<Longrightarrow> t = s \<and> utf8_ok s"
  by (auto simp: RunId_parse_def SessionId_parse_def EnvironmentId_parse_def dest: utf8_ok_id_parse)

lemma minted_utf8:
  "InvocationId_from_uuid n = Some t \<Longrightarrow> utf8_ok t"
  "RunId_from_uuid n = Some t \<Longrightarrow> RunId_parse t = Some t"
  by (auto simp: InvocationId_from_uuid_def RunId_from_uuid_def RunId_parse_def id_from_uuid_def id_parse_iff
      dest: utf8_ok_id_parse)

section \<open>The outbox of a transaction\<close>

inductive appends :: "(string \<Rightarrow> string) \<Rightarrow> AuditTables \<Rightarrow> AuditTables \<Rightarrow> bool" for sha where
  appends_refl: "appends sha t t"
| appends_step: "appends sha t u \<Longrightarrow> wf_fields fs \<Longrightarrow> audit_append sha ts event fs u = Ok (v, n) \<Longrightarrow> appends sha t v"

lemma appends_trans: "appends sha u v \<Longrightarrow> appends sha t u \<Longrightarrow> appends sha t v"
  by (induction rule: appends.induct) (auto intro: appends_step)

lemma appends_inv:
  "appends sha t u \<Longrightarrow> audit_inv sha t \<Longrightarrow>
     audit_inv sha u \<and> flushed_seq u = flushed_seq t \<and> (\<exists>ext. audit_chain u = audit_chain t @ ext)"
proof (induction rule: appends.induct)
  case (appends_step t u fs ts event v n)
  then show ?case using audit_append_inv [OF _ appends_step.hyps(3,2)] by (metis append.assoc)
qed simp

text \<open>What a call adds to the outbox: nothing, or records the last of which it remembers.\<close>

definition outbox :: "(string \<Rightarrow> string) \<Rightarrow> Work \<Rightarrow> Work \<Rightarrow> bool" where
  "outbox sha w w' \<longleftrightarrow> appends sha (audit (tx w)) (audit (tx w')) \<and>
     (audit (tx w') = audit (tx w) \<and> last_seq w' = last_seq w \<or>
      (audit_inv sha (audit (tx w)) \<longrightarrow> last_seq w' = Some (length (audit_chain (audit (tx w'))))))"

lemma outbox_refl: "audit (tx w') = audit (tx w) \<Longrightarrow> last_seq w' = last_seq w \<Longrightarrow> outbox sha w w'"
  by (simp add: outbox_def appends_refl)

lemma outbox_trans: "outbox sha u v \<Longrightarrow> outbox sha v w \<Longrightarrow> outbox sha u w"
  unfolding outbox_def by (metis appends_trans appends_inv)

lemma work_audit_Ok:
  assumes "work_audit sha event fs w = Ok w'"
  obtains t n where "audit_append sha (now w) event fs (audit (tx w)) = Ok (t, n)"
    "w' = w\<lparr>tx := (tx w)\<lparr>audit := t\<rparr>, last_seq := Some n\<rparr>"
  using assms by (auto simp: work_audit_def split: sum.splits AuditAppendError.splits)

lemma work_audit_outbox: "work_audit sha event fs w = Ok w' \<Longrightarrow> wf_fields fs \<Longrightarrow> outbox sha w w'"
  by (erule work_audit_Ok)
    (auto simp: outbox_def intro: appends_step [OF appends_refl] dest: audit_append_inv)

section \<open>Quiet calls\<close>

definition same_identity :: "(EnvRow \<Rightarrow> EnvRow) \<Rightarrow> bool" where
  "same_identity upd \<longleftrightarrow> (\<forall>r. env_environment_id (upd r) = env_environment_id r \<and> env_run_id (upd r) = env_run_id r)"

inductive quiet :: "(string \<Rightarrow> string) \<Rightarrow> Work \<Rightarrow> Work \<Rightarrow> bool" for sha where
  quiet_refl: "quiet sha w w"
| quiet_audit: "quiet sha u v \<Longrightarrow> wf_fields fs \<Longrightarrow> work_audit sha event fs v = Ok w \<Longrightarrow> quiet sha u w"
| quiet_mint: "quiet sha u v \<Longrightarrow> next_uuid v = Ok (x, w) \<Longrightarrow> quiet sha u w"
| quiet_env: "quiet sha u v \<Longrightarrow> same_identity upd \<Longrightarrow> update_environments wh upd v = Ok w \<Longrightarrow> quiet sha u w"
| quiet_prepare: "quiet sha u v \<Longrightarrow> EnvironmentId_parse (env_environment_id r) = Some (env_environment_id r) \<Longrightarrow>
    sql_insert env_environment_id (insert_env_refuses (runs (tx v)) (environments (tx v))) r (environments (tx v)) = Ok rows \<Longrightarrow>
    quiet sha u (v\<lparr>tx := (tx v)\<lparr>environments := rows\<rparr>\<rparr>)"

lemma quiet_trans: "quiet sha v w \<Longrightarrow> quiet sha u v \<Longrightarrow> quiet sha u w"
  by (induction rule: quiet.induct) (auto intro: quiet.intros)

lemma next_uuid_Ok:
  assumes "next_uuid w = Ok (x, w')"
  obtains "w' = w\<lparr>tx := (tx w)\<lparr>id_counter := id_counter (tx w) + 1\<rparr>\<rparr>"
    "uuid7 (now w) (nat (id_counter (tx w) + 1)) (store_instance w) = Some x" "0 \<le> id_counter (tx w)"
  using assms
  by (auto simp: next_uuid_def and_then_Ok_iff work_db_def update_store_meta_def u64_try_from_def split: if_splits)

lemma update_environments_Ok:
  assumes "update_environments wh upd w = Ok w'"
  obtains rows n where "sql_update update_env_refuses wh upd (environments (tx w)) = Ok (rows, n)"
    "w' = w\<lparr>tx := (tx w)\<lparr>environments := rows\<rparr>\<rparr>"
  using assms by (auto simp: update_environments_def and_then_Ok_iff work_db_def)

lemma quiet_frame:
  "quiet sha w w' \<Longrightarrow> session_lease (tx w') = session_lease (tx w) \<and> runs (tx w') = runs (tx w) \<and>
     meta_incarnation (tx w') = meta_incarnation (tx w) \<and> now w' = now w \<and>
     work_incarnation w' = work_incarnation w \<and> store_instance w' = store_instance w"
  by (induction rule: quiet.induct) (auto elim!: work_audit_Ok next_uuid_Ok update_environments_Ok)

lemma quiet_outbox: "quiet sha w w' \<Longrightarrow> outbox sha w w'"
proof (induction rule: quiet.induct)
  case (quiet_audit u v fs event w)
  then show ?case using work_audit_outbox outbox_trans by blast
next
  case (quiet_mint u v x w)
  then show ?case by (auto elim!: next_uuid_Ok intro: outbox_trans [OF _ outbox_refl])
next
  case (quiet_env u v upd wh w)
  then show ?case by (auto elim!: update_environments_Ok intro: outbox_trans [OF _ outbox_refl])
next
  case (quiet_prepare u v r rows)
  then show ?case by (auto intro: outbox_trans [OF _ outbox_refl])
qed (simp add: outbox_refl)

section \<open>The invariant of the store\<close>

definition leases_inv :: "LeaseRow list \<Rightarrow> bool" where
  "leases_inv ls \<longleftrightarrow> distinct (map lease_session ls) \<and> (\<forall>l \<in> set ls. lease_checks l \<and> utf8_ok (lease_session l))"

definition runs_inv :: "LeaseRow list \<Rightarrow> RunRow list \<Rightarrow> bool" where
  "runs_inv ls rs \<longleftrightarrow> distinct (map run_run_id rs) \<and>
     (\<forall>r \<in> set rs. run_checks r \<and> RunId_parse (run_run_id r) = Some (run_run_id r) \<and>
        (\<exists>l \<in> set ls. lease_session l = run_session r \<and> run_epoch r \<le> lease_epoch l \<and>
           (run_state r = ''ACTIVE'' \<longrightarrow> lease_state l = ''HELD'' \<and> lease_epoch l = run_epoch r)))"

definition envs_inv :: "RunRow list \<Rightarrow> EnvRow list \<Rightarrow> bool" where
  "envs_inv rs es \<longleftrightarrow> distinct (map env_environment_id es) \<and> distinct (map env_run_id (filter env_live es)) \<and>
     (\<forall>e \<in> set es. env_checks e \<and> EnvironmentId_parse (env_environment_id e) = Some (env_environment_id e) \<and>
        env_run_id e \<in> run_run_id ` set rs)"

definition store_inv :: "(string \<Rightarrow> string) \<Rightarrow> Store \<Rightarrow> bool" where
  "store_inv sha s \<longleftrightarrow> leases_inv (session_lease s) \<and> runs_inv (session_lease s) (runs s) \<and>
     envs_inv (runs s) (environments s) \<and> 0 \<le> meta_incarnation s \<and> 0 \<le> id_counter s \<and> audit_inv sha (audit s)"

lemma store_inv_new: "store_inv sha new_store"
  by (simp add: store_inv_def new_store_def leases_inv_def runs_inv_def envs_inv_def audit_inv_genesis)

lemma distinct_map_filter_map:
  "distinct (map g (filter P xs)) \<Longrightarrow> (\<And>x. x \<in> set xs \<Longrightarrow> g (f x) = g x) \<Longrightarrow> (\<And>x. x \<in> set xs \<Longrightarrow> P (f x) \<Longrightarrow> P x) \<Longrightarrow>
     distinct (map g (filter P (map f xs)))"
  by (induction xs) (auto split: if_splits)

lemma map_updated: "(\<And>r. wh r \<Longrightarrow> g (upd r) = g r) \<Longrightarrow> map g (map (\<lambda>r. if wh r then upd r else r) rows) = map g rows"
  by simp

lemma envs_inv_update:
  assumes inv: "envs_inv rs es" and upd: "same_identity upd"
    and ok: "sql_update update_env_refuses wh upd es = Ok (es', n)"
  shows "envs_inv rs es'"
proof -
  let ?f = "\<lambda>r. if wh r then upd r else r"
  have es': "es' = map ?f es" and acc: "\<forall>r \<in> set es. wh r \<longrightarrow> update_env_refuses r (upd r) = None"
    using ok by (simp_all add: sql_update_Ok)
  have live: "env_live r" if "r \<in> set es" "env_live (?f r)" for r
    using that acc by (auto simp: update_env_refuses_None env_live_def dest: moves_forward_live split: if_splits)
  have "distinct (map env_run_id (filter env_live es'))" unfolding es'
    by (rule distinct_map_filter_map) (use inv upd live in \<open>auto simp: envs_inv_def same_identity_def\<close>)
  moreover have "map env_environment_id es' = map env_environment_id es"
    unfolding es' using upd by (simp add: same_identity_def)
  moreover have "\<forall>e \<in> set es'. env_checks e \<and> EnvironmentId_parse (env_environment_id e) = Some (env_environment_id e) \<and>
      env_run_id e \<in> run_run_id ` set rs"
    using inv acc upd unfolding envs_inv_def es' same_identity_def by (auto simp: update_env_refuses_None)
  ultimately show ?thesis using inv by (simp add: envs_inv_def)
qed

lemma envs_inv_insert:
  assumes "envs_inv rs es" "EnvironmentId_parse (env_environment_id r) = Some (env_environment_id r)"
    "sql_insert env_environment_id (insert_env_refuses rs es) r es = Ok es'"
  shows "envs_inv rs es'"
  using assms by (auto simp: envs_inv_def sql_insert_Ok insert_env_refuses_None)

lemma envs_inv_runs: "envs_inv rs es \<Longrightarrow> run_run_id ` set rs \<subseteq> run_run_id ` set rs' \<Longrightarrow> envs_inv rs' es"
  by (auto simp: envs_inv_def)

lemma quiet_inv: "quiet sha w w' \<Longrightarrow> store_inv sha (tx w) \<Longrightarrow> store_inv sha (tx w')"
proof (induction rule: quiet.induct)
  case (quiet_audit u v fs event w)
  then show ?case by (auto elim!: work_audit_Ok simp: store_inv_def dest: audit_append_inv)
next
  case (quiet_mint u v x w)
  then show ?case by (auto elim!: next_uuid_Ok simp: store_inv_def)
next
  case (quiet_env u v upd wh w)
  then show ?case by (auto elim!: update_environments_Ok simp: store_inv_def intro: envs_inv_update)
next
  case (quiet_prepare u v r rows)
  then show ?case by (auto simp: store_inv_def intro: envs_inv_insert)
qed

section \<open>The calls on environments are quiet\<close>

lemma environment_record_Some:
  assumes "environment_record w e = Ok (Some r)"
  obtains row where "find (\<lambda>x. env_environment_id x = e) (environments (tx w)) = Some row" "record_of row = Ok r"
    "env_environment_id row = e"
  using assms by (auto simp: environment_record_def and_then_Ok_iff find_Some_iff split: option.splits)

lemma record_of_Ok:
  assumes "record_of row = Ok r"
  shows "er_environment r = env_environment_id row" "er_run r = env_run_id row" "env_state row = EnvironmentState_as_str (er_state r)"
    "er_container r = env_container row" "utf8_ok (env_environment_id row)" "utf8_ok (env_run_id row)"
  using assms by (auto simp: record_of_def and_then_Ok_iff EnvironmentState_parse_iff ContainerRef_new_def
      dest: parsed_ids split: option.splits if_splits)

lemma utf8_ok_state [simp]: "utf8_ok (EnvironmentState_as_str s)"
  by (cases s) simp_all

lemma work_invocation_id_Ok:
  assumes "work_invocation_id w = Ok (i, w')"
  obtains x where "next_uuid w = Ok (x, w')" "utf8_ok i"
  using assms by (auto simp: work_invocation_id_def work_mint_def and_then_Ok_iff split: prod.splits dest: minted_utf8)

lemma begin_destroy_cases:
  assumes "begin_destroy sha w e reason = Ok (b, w')"
  obtains (refused) why where "b = DestroyRefused why" "w' = w"
      "\<And>row. find (\<lambda>x. env_environment_id x = e) (environments (tx w)) = Some row \<Longrightarrow> env_state row \<notin> {''READY'', ''UNKNOWN'', ''DESTROYING''}"
  | (pending) row r i x u v where "find (\<lambda>x. env_environment_id x = e) (environments (tx w)) = Some row" "record_of row = Ok r"
      "b = DestroyPending r i" "env_state row \<in> {''READY'', ''UNKNOWN'', ''DESTROYING''}" "next_uuid w = Ok (x, u)" "utf8_ok i"
      "update_environments (\<lambda>r. env_environment_id r = e)
         (\<lambda>r. r\<lparr>env_state := ''DESTROYING'', env_failure := coalesce (env_failure r) (Some reason)\<rparr>) u = Ok v"
      "work_audit sha EnvironmentDestroyIntent
         (Fields_text ''from'' (EnvironmentState_as_str (er_state r)) (Fields_text ''reason'' reason
         (Fields_text ''invocation_id'' i (Fields_text ''run_id'' (er_run r) (Fields_text ''environment_id'' e Fields_new))))) v = Ok w'"
proof -
  obtain found where f: "environment_record w e = Ok found"
    using assms by (auto simp: begin_destroy_def and_then_Ok_iff)
  show thesis
  proof (cases found)
    case None
    with f have "find (\<lambda>x. env_environment_id x = e) (environments (tx w)) = None"
      by (auto simp: environment_record_def and_then_Ok_iff split: option.splits)
    with assms f None show thesis by (auto simp: begin_destroy_def intro: refused)
  next
    case (Some r)
    with f obtain row where row: "find (\<lambda>x. env_environment_id x = e) (environments (tx w)) = Some row" "record_of row = Ok r"
      using environment_record_Some by blast
    note st = record_of_Ok(3) [OF row(2)]
    show thesis
    proof (cases "is_final (er_state r) \<or> er_state r = Preparing")
      case True
      then have "env_state row \<notin> {''READY'', ''UNKNOWN'', ''DESTROYING''}"
        using st by (auto simp: is_final_def)
      with assms f Some True row show thesis by (auto simp: begin_destroy_def split: if_splits intro: refused)
    next
      case False
      then have "env_state row \<in> {''READY'', ''UNKNOWN'', ''DESTROYING''}"
        using st by (cases "er_state r") (auto simp: is_final_def)
      with assms f Some False row show thesis
        by (auto simp: begin_destroy_def and_then_Ok_iff split: prod.splits elim!: work_invocation_id_Ok intro: pending)
    qed
  qed
qed

lemma same_identity_state: "same_identity (\<lambda>r. r\<lparr>env_state := a, env_failure := f r\<rparr>)"
  by (simp add: same_identity_def)

lemma quiet_audit1: "work_audit sha event fs v = Ok w \<Longrightarrow> wf_fields fs \<Longrightarrow> quiet sha v w"
  using quiet_audit [OF quiet_refl] .

lemma begin_destroy_quiet:
  assumes "begin_destroy sha w e reason = Ok (b, w')" "utf8_ok reason"
  shows "quiet sha w w'"
  using assms(1)
proof (cases rule: begin_destroy_cases)
  case (pending row r i x u v)
  have "quiet sha w v" using quiet_env [OF quiet_mint [OF quiet_refl pending(5)] same_identity_state pending(7)] .
  moreover have "env_environment_id row = e" using pending(1) by (auto simp: find_Some_iff)
  ultimately show ?thesis using quiet_audit [OF _ _ pending(8)] record_of_Ok [OF pending(2)] assms(2) pending(6) by simp
qed (simp add: quiet_refl)

lemma begin_destroy_all_quiet:
  "begin_destroy_all sha w ids reason = Ok (bs, w') \<Longrightarrow> utf8_ok reason \<Longrightarrow> quiet sha w w'"
proof (induction ids arbitrary: w bs)
  case (Cons i ids)
  from Cons.prems(1) obtain e b v bs' where s: "begin_destroy sha w e reason = Ok (b, v)"
      "begin_destroy_all sha v ids reason = Ok (bs', w')"
    by (auto simp: and_then_Ok_iff split: prod.splits)
  show ?case using quiet_trans [OF Cons.IH [OF s(2)] begin_destroy_quiet [OF s(1)]] Cons.prems(2) by simp
qed (simp add: quiet_refl)

text \<open>Which rows a destruction moves, and to what.\<close>

definition destroy_row :: "(EnvRow \<Rightarrow> bool) \<Rightarrow> string \<Rightarrow> EnvRow \<Rightarrow> EnvRow" where
  "destroy_row P reason r =
     (if P r \<and> env_state r \<in> {''READY'', ''UNKNOWN'', ''DESTROYING''}
      then r\<lparr>env_state := ''DESTROYING'', env_failure := coalesce (env_failure r) (Some reason)\<rparr> else r)"

lemma destroy_row_ids [simp]:
  "env_environment_id (destroy_row P reason r) = env_environment_id r" "env_run_id (destroy_row P reason r) = env_run_id r"
  by (simp_all add: destroy_row_def)

lemma destroy_row_destroy_row:
  "destroy_row (\<lambda>r. env_environment_id r \<in> B) reason (destroy_row (\<lambda>r. env_environment_id r \<in> A) reason r) =
   destroy_row (\<lambda>r. env_environment_id r \<in> A \<union> B) reason r"
  by (auto simp: destroy_row_def coalesce_def split: option.splits)

lemma find_row: "find P xs = Some r \<Longrightarrow> r \<in> set xs \<and> P r"
  by (induction xs) (auto split: if_splits)

lemma find_unique_row:
  "find (\<lambda>x. k x = e) rows = Some row \<Longrightarrow> distinct (map k rows) \<Longrightarrow> r \<in> set rows \<Longrightarrow> k r = e \<Longrightarrow> r = row"
  by (induction rows) (auto split: if_splits)

lemma begin_destroy_envs:
  assumes "begin_destroy sha w e reason = Ok (b, w')" and d: "distinct (map env_environment_id (environments (tx w)))"
  shows "environments (tx w') = map (destroy_row (\<lambda>r. env_environment_id r \<in> {e}) reason) (environments (tx w))"
  using assms(1)
proof (cases rule: begin_destroy_cases)
  case (refused why)
  have "destroy_row (\<lambda>r. env_environment_id r \<in> {e}) reason r = r" if r: "r \<in> set (environments (tx w))" for r
  proof (cases "env_environment_id r = e")
    case True
    then obtain row where row: "find (\<lambda>x. env_environment_id x = e) (environments (tx w)) = Some row"
      using r by (cases "find (\<lambda>x. env_environment_id x = e) (environments (tx w))") (auto simp: find_None_iff)
    then have "r = row" using find_unique_row [OF row d r True] by simp
    then show ?thesis using refused(3) [OF row] by (simp add: destroy_row_def)
  qed (simp add: destroy_row_def)
  then show ?thesis using refused(2) by (simp add: map_idI)
next
  case (pending row r i x u v)
  have "environments (tx w') = environments (tx v)" "environments (tx u) = environments (tx w)"
    using pending(5,8) by (auto elim!: work_audit_Ok next_uuid_Ok)
  moreover have "environments (tx v) = map (\<lambda>r. if env_environment_id r = e
      then r\<lparr>env_state := ''DESTROYING'', env_failure := coalesce (env_failure r) (Some reason)\<rparr> else r) (environments (tx u))"
    using pending(7) by (auto elim!: update_environments_Ok simp: sql_update_Ok)
  ultimately show ?thesis
    using find_unique_row [OF pending(1) d] pending(4) by (auto simp: destroy_row_def)
qed

lemma begin_destroy_all_envs:
  "begin_destroy_all sha w ids reason = Ok (bs, w') \<Longrightarrow> distinct (map env_environment_id (environments (tx w))) \<Longrightarrow>
     environments (tx w') = map (destroy_row (\<lambda>r. env_environment_id r \<in> set ids) reason) (environments (tx w))"
proof (induction ids arbitrary: w bs)
  case Nil
  then show ?case by (simp add: destroy_row_def map_idI)
next
  case (Cons i ids)
  from Cons.prems(1) obtain e b v bs' where s: "EnvironmentId_parse i = Some e" "begin_destroy sha w e reason = Ok (b, v)"
      "begin_destroy_all sha v ids reason = Ok (bs', w')"
    by (auto simp: and_then_Ok_iff split: prod.splits)
  have "e = i" using parsed_ids(3) [OF s(1)] by simp
  then have v: "environments (tx v) = map (destroy_row (\<lambda>r. env_environment_id r \<in> {i}) reason) (environments (tx w))"
    using begin_destroy_envs [OF s(2) Cons.prems(2)] by simp
  then have "environments (tx w') = map (destroy_row (\<lambda>r. env_environment_id r \<in> set ids) reason) (environments (tx v))"
    by (intro Cons.IH [OF s(3)]) (use Cons.prems(2) in \<open>simp add: comp_def\<close>)
  then show ?case unfolding v using destroy_row_destroy_row [of "set ids" reason "{i}"] by simp
qed

lemma distinct_key_eq: "distinct (map k xs) \<Longrightarrow> x \<in> set xs \<Longrightarrow> y \<in> set xs \<Longrightarrow> k x = k y \<Longrightarrow> x = y"
  by (simp add: distinct_map inj_on_def)

lemma begin_run_end_envs:
  assumes "begin_run_end sha w run reason = Ok (bs, w')" "distinct (map env_environment_id (environments (tx w)))"
  shows "environments (tx w') = map (destroy_row (\<lambda>r. env_run_id r = run) reason) (environments (tx w))"
proof -
  let ?es = "environments (tx w)"
  let ?ids = "env_environment_id ` {r \<in> set ?es. env_live r \<and> env_run_id r = run}"
  have "environments (tx w') = map (destroy_row (\<lambda>r. env_environment_id r \<in> ?ids) reason) ?es"
    using begin_destroy_all_envs [OF assms(1) [unfolded begin_run_end_def] assms(2)] by simp
  moreover have "destroy_row (\<lambda>r. env_environment_id r \<in> ?ids) reason r = destroy_row (\<lambda>r. env_run_id r = run) reason r"
    if r: "r \<in> set ?es" for r
  proof (cases "env_state r \<in> {''READY'', ''UNKNOWN'', ''DESTROYING''}")
    case True
    then have "env_live r" by (auto simp: env_live_def LIVE_STATES_def)
    then have "env_environment_id r \<in> ?ids \<longleftrightarrow> env_run_id r = run"
      using distinct_key_eq [OF assms(2) r] r by blast
    then show ?thesis unfolding destroy_row_def by (simp only:)
  qed (simp add: destroy_row_def)
  ultimately show ?thesis by simp
qed

lemma begin_run_end_quiet: "begin_run_end sha w run reason = Ok (bs, w') \<Longrightarrow> utf8_ok reason \<Longrightarrow> quiet sha w w'"
  unfolding begin_run_end_def by (rule begin_destroy_all_quiet)

lemma begin_reaped_at_start_quiet: "begin_reaped_at_start sha w = Ok (n, w') \<Longrightarrow> quiet sha w w'"
  by (auto simp: begin_reaped_at_start_def and_then_Ok_iff Let_def split: prod.splits
      intro: begin_destroy_all_quiet [where reason = "''REAPED''"])

lemma audit_interrupted_quiet:
  "audit_interrupted sha rows w = Ok w' \<Longrightarrow> (\<forall>r \<in> set rows. utf8_ok (env_environment_id r) \<and> utf8_ok (env_run_id r)) \<Longrightarrow> quiet sha w w'"
proof (induction rows arbitrary: w)
  case (Cons r rows)
  from Cons.prems(1) obtain v where v: "work_audit sha EnvironmentOutcomeUnknown
       (Fields_text ''reason'' ''INTERRUPTED'' (Fields_text ''run_id'' (env_run_id r)
       (Fields_text ''environment_id'' (env_environment_id r) Fields_new))) w = Ok v" "audit_interrupted sha rows v = Ok w'"
    by (auto simp: and_then_Ok_iff)
  show ?case using quiet_trans [OF Cons.IH [OF v(2)] quiet_audit1 [OF v(1)]] Cons.prems(2) by simp
qed (simp add: quiet_refl)

lemma envs_inv_utf8:
  assumes "store_inv sha s" "e \<in> set (environments s)"
  shows "utf8_ok (env_environment_id e)" "utf8_ok (env_run_id e)"
proof -
  obtain r where "r \<in> set (runs s)" "env_run_id e = run_run_id r"
    using assms by (auto simp: store_inv_def envs_inv_def)
  then show "utf8_ok (env_environment_id e)" "utf8_ok (env_run_id e)"
    using assms parsed_ids by (auto simp: store_inv_def envs_inv_def runs_inv_def)
qed

lemma environment_reconcile_open_quiet:
  assumes "environment_reconcile_open sha w = Ok (n, w')" "store_inv sha (tx w)"
  shows "quiet sha w w'"
proof -
  let ?found = "filter (\<lambda>r. env_state r = ''PREPARING'') (environments (tx w))"
  obtain v where v: "update_environments (\<lambda>r. env_state r = ''PREPARING'')
        (\<lambda>r. r\<lparr>env_state := ''UNKNOWN'', env_failure := Some ''INTERRUPTED''\<rparr>) w = Ok v" "audit_interrupted sha ?found v = Ok w'"
    using assms(1) by (auto simp: environment_reconcile_open_def and_then_Ok_iff Let_def)
  have "quiet sha w v" using quiet_env [OF quiet_refl same_identity_state v(1)] .
  then show ?thesis using audit_interrupted_quiet [OF v(2)] envs_inv_utf8 [OF assms(2)] quiet_trans by auto
qed

text \<open>What the broker answers arrives as decoded text.\<close>

fun wf_ending :: "DestroyEnding \<Rightarrow> bool" where
  "wf_ending (Gone c already eg) \<longleftrightarrow> pred_option utf8_ok c \<and> pred_option (\<lambda>n. \<forall>(d, k) \<in> set (dispositions n). utf8_ok d) eg"
| "wf_ending (StillPending reason) \<longleftrightarrow> utf8_ok reason"

definition wf_record :: "EnvironmentRecord \<Rightarrow> bool" where
  "wf_record r \<longleftrightarrow> utf8_ok (er_environment r) \<and> utf8_ok (er_run r) \<and> pred_option utf8_ok (er_container r)"

lemma depth_texts: "foldr max (map (field_depth \<circ> (\<lambda>(d, k). Text (f d k))) xs) 0 = 0"
  by (induction xs) auto

lemma wf_egress_fields: "wf_fields fs \<Longrightarrow> \<forall>(d, k) \<in> set (dispositions n). utf8_ok d \<Longrightarrow> wf_fields (egress_fields fs n)"
  by (auto simp: egress_fields_def wf_fields_def Fields_int_def Fields_list_def MAX_DEPTH_def utf8_ok_append utf8_ok_show_nat depth_texts)

lemma utf8_ok_hex: "is_lower_hex c \<Longrightarrow> utf8_ok c"
  by (rule utf8_ok_all_ascii) (force simp: is_lower_hex_def list_all_iff is_ascii_digit_def)

lemma record_of_wf: "record_of row = Ok r \<Longrightarrow> wf_record r"
proof -
  assume a: "record_of row = Ok r"
  then have "pred_option is_lower_hex (er_container r)"
    by (auto simp: record_of_def and_then_Ok_iff ContainerRef_new_def split: option.splits if_splits)
  then have "pred_option utf8_ok (er_container r)" using utf8_ok_hex by (cases "er_container r") simp_all
  then show ?thesis using record_of_Ok [OF a] by (simp add: wf_record_def)
qed

lemma same_identity_ended: "same_identity (\<lambda>r. r\<lparr>env_state := a, env_container := f r, env_ended_ms := n\<rparr>)"
  by (simp add: same_identity_def)

lemma record_destroyed_quiet:
  assumes "record_destroyed sha w r ending timing = Ok w'" "wf_record r" "wf_ending ending" "wf_fields timing"
  shows "quiet sha w w'"
proof (cases ending)
  case (StillPending reason)
  then show ?thesis using assms by (auto simp: record_destroyed_def wf_record_def split: if_splits intro: quiet_audit1)
next
  case (Gone c already eg)
  let ?c = "coalesce c (er_container r)"
  let ?fs = "Fields_maybe_text ''container'' ?c (Fields_flag ''already_gone'' already
    (Fields_text ''run_id'' (er_run r) (Fields_text ''environment_id'' (er_environment r) Fields_new)))"
  let ?gs = "case eg of Some counters \<Rightarrow> egress_fields ?fs counters | None \<Rightarrow> ?fs"
  obtain v where v: "update_environments (\<lambda>row. env_environment_id row = er_environment r \<and> env_state row = ''DESTROYING'')
        (\<lambda>row. row\<lparr>env_state := ''DESTROYED'', env_container := coalesce (env_container row) ?c,
          env_ended_ms := Some (int (now w))\<rparr>) w = Ok v"
      "work_audit sha EnvironmentDestroyed (Fields_extend timing ?gs) v = Ok w'"
    using assms(1) Gone by (auto simp: record_destroyed_def and_then_Ok_iff Let_def split: if_splits)
  have "wf_fields ?fs" using assms(2,3) Gone by (auto simp: wf_record_def coalesce_def split: option.splits)
  then have "wf_fields (Fields_extend timing ?gs)"
    using assms(3,4) Gone wf_egress_fields by (auto split: option.splits)
  then show ?thesis using quiet_trans [OF quiet_audit1 [OF v(2)] quiet_env [OF quiet_refl same_identity_ended v(1)]] by simp
qed

end
