(* ===== verification/Auth_Lease_Laws.thy ===== *)
theory Auth_Lease_Laws
  imports Auth_Store_Laws
begin

text \<open>
  What each operation on leases does to the tables: the rows it writes, followed by quiet calls;
  and that each keeps the invariant of the store.
\<close>

section \<open>Reading the lease of a session\<close>

definition row_live :: "LeaseRow \<Rightarrow> nat \<Rightarrow> bool" where
  "row_live r now' \<longleftrightarrow> lease_state r = ''HELD'' \<and> (\<exists>x. expires_ms r = Some x \<and> int now' < x)"

definition row_holder :: "LeaseRow \<Rightarrow> CallerContext \<Rightarrow> bool" where
  "row_holder r caller \<longleftrightarrow> holder_incarnation r = Some (int (incarnation (holder caller))) \<and>
     holder_connection r = Some (int (connection (holder caller)))"

definition row_passes :: "LeaseRow \<Rightarrow> CallerContext \<Rightarrow> nat \<Rightarrow> nat \<Rightarrow> bool" where
  "row_passes r caller epoch now' \<longleftrightarrow> row_live r now' \<and> lease_epoch r = int epoch \<and> row_holder r caller \<and>
     holder_subject r = Some (storage_key (subject caller))"

lemma load_pair_Some: "load_pair a b = Some (x, y) \<longleftrightarrow> a = Some (int x) \<and> b = Some (int y)"
  by (auto simp: load_pair_def bind_eq_Some_conv u64_try_from_Some)

lemma lease_of_Ok:
  assumes "lease_of r = Ok l"
  shows "lease_epoch r = int (l_epoch l)" "l_state l = lease_state r" "l_holder_subject l = holder_subject r"
    "l_holder l = Some (holder_pair caller) \<longleftrightarrow> row_holder r caller"
    "l_last_holder l = Some (x, y) \<longleftrightarrow> last_holder_incarnation r = Some (int x) \<and> last_holder_connection r = Some (int y)"
    "(case l_expires_ms l of Some e \<Rightarrow> now' < e | None \<Rightarrow> False) \<longleftrightarrow> (\<exists>x. expires_ms r = Some x \<and> int now' < x)"
proof -
  note l = assms [unfolded lease_of_def and_then_Ok_iff ok_or_Ok_iff u64_try_from_Some]
  show "lease_epoch r = int (l_epoch l)" "l_state l = lease_state r" "l_holder_subject l = holder_subject r"
    "l_holder l = Some (holder_pair caller) \<longleftrightarrow> row_holder r caller"
    "l_last_holder l = Some (x, y) \<longleftrightarrow> last_holder_incarnation r = Some (int x) \<and> last_holder_connection r = Some (int y)"
    using l by (auto simp: load_pair_Some row_holder_def holder_pair_def)
  have "l_expires_ms l = Option.bind (expires_ms r) u64_try_from" using l by auto
  then show "(case l_expires_ms l of Some e \<Rightarrow> now' < e | None \<Rightarrow> False) \<longleftrightarrow> (\<exists>x. expires_ms r = Some x \<and> int now' < x)"
    by (cases "expires_ms r") (auto simp: u64_try_from_def)
qed

lemma fenced_ok_row: "lease_of r = Ok l \<Longrightarrow> fenced_ok l caller epoch now' \<longleftrightarrow> row_passes r caller epoch now'"
  using lease_of_Ok [of r l] by (auto simp: fenced_ok_def row_passes_def row_live_def)

lemma lease_load_cases:
  assumes "lease_load w session = Ok lo"
  obtains (none) "lo = None" "find (\<lambda>r. lease_session r = session) (session_lease (tx w)) = None"
  | (some) r l where "lo = Some l" "find (\<lambda>r. lease_session r = session) (session_lease (tx w)) = Some r" "lease_of r = Ok l"
  using assms by (auto simp: lease_load_def and_then_Ok_iff split: option.splits)

lemma lease_load_total: "leases_inv (session_lease (tx w)) \<Longrightarrow> \<exists>lo. lease_load w session = Ok lo"
proof (cases "find (\<lambda>r. lease_session r = session) (session_lease (tx w))")
  case (Some r)
  assume "leases_inv (session_lease (tx w))"
  then have "\<not> lease_epoch r < 0" using find_row [OF Some] by (auto simp: leases_inv_def lease_checks_def)
  then show ?thesis using Some by (simp add: lease_load_def lease_of_def u64_try_from_def)
qed (simp add: lease_load_def)

lemma fence_iff:
  assumes "leases_inv (session_lease (tx w))"
  shows "fence w caller session epoch = Ok ok \<longleftrightarrow>
    (ok \<longleftrightarrow> (\<exists>r \<in> set (session_lease (tx w)). lease_session r = session \<and> row_passes r caller epoch (now w)))"
proof -
  obtain lo where lo: "lease_load w session = Ok lo" using lease_load_total [OF assms] by blast
  then have "fence w caller session epoch = Ok ok \<longleftrightarrow>
      (ok \<longleftrightarrow> (case lo of Some lease \<Rightarrow> fenced_ok lease caller epoch (now w) | None \<Rightarrow> False))"
    by (auto simp: fence_def)
  also have "(case lo of Some lease \<Rightarrow> fenced_ok lease caller epoch (now w) | None \<Rightarrow> False) \<longleftrightarrow>
      (\<exists>r \<in> set (session_lease (tx w)). lease_session r = session \<and> row_passes r caller epoch (now w))"
    using lo
  proof (cases rule: lease_load_cases)
    case none
    then show ?thesis by (simp add: find_None_iff)
  next
    case (some r l)
    have r: "r \<in> set (session_lease (tx w))" "lease_session r = session" using find_row [OF some(2)] by simp_all
    have "r' = r" if "r' \<in> set (session_lease (tx w))" "lease_session r' = session" for r'
      using find_unique_row [OF some(2) _ that] assms by (simp add: leases_inv_def)
    then have "(\<exists>r \<in> set (session_lease (tx w)). lease_session r = session \<and> row_passes r caller epoch (now w)) \<longleftrightarrow>
        row_passes r caller epoch (now w)" using r by metis
    then show ?thesis using some(1) fenced_ok_row [OF some(3)] by simp
  qed
  finally show ?thesis .
qed

section \<open>Reaping\<close>

definition reap_row :: "string \<Rightarrow> nat \<Rightarrow> nat \<Rightarrow> RunRow \<Rightarrow> RunRow" where
  "reap_row session below now' r =
     (if run_session r = session \<and> run_state r = ''ACTIVE'' \<and> run_epoch r < int below
      then r\<lparr>run_state := ''REAPED'', run_ended_ms := Some (int now')\<rparr> else r)"

lemma reap_row_ids [simp]:
  "run_run_id (reap_row session below now' r) = run_run_id r" "run_session (reap_row session below now' r) = run_session r"
  "run_epoch (reap_row session below now' r) = run_epoch r"
  by (simp_all add: reap_row_def)

lemma update_runs_Ok:
  assumes "update_runs wh upd w = Ok (n, w')"
  obtains rows where "sql_update update_run_refuses wh upd (runs (tx w)) = Ok (rows, n)" "w' = w\<lparr>tx := (tx w)\<lparr>runs := rows\<rparr>\<rparr>"
  using assms by (auto simp: update_runs_def and_then_Ok_iff work_db_def)

lemma update_leases_Ok:
  assumes "update_leases wh upd w = Ok (n, w')"
  obtains rows where "sql_update update_lease_refuses wh upd (session_lease (tx w)) = Ok (rows, n)"
    "w' = w\<lparr>tx := (tx w)\<lparr>session_lease := rows\<rparr>\<rparr>"
  using assms by (auto simp: update_leases_def and_then_Ok_iff work_db_def)

lemma reap_loop_Cons:
  assumes "reap_loop sha session cause (run # reaped) w = Ok (td, w')"
  obtains u v bs bs' where "RunId_parse run = Some run" "utf8_ok run"
    "work_audit sha RunReaped (Fields_text ''cause'' cause (Fields_text ''run_id'' run (Fields_text ''session_id'' session Fields_new))) w = Ok u"
    "begin_run_end sha u run ''REAPED'' = Ok (bs, v)" "reap_loop sha session cause reaped v = Ok (bs', w')"
proof -
  obtain i u bs v bs' where s: "RunId_parse run = Some i"
    "work_audit sha RunReaped (Fields_text ''cause'' cause (Fields_text ''run_id'' run (Fields_text ''session_id'' session Fields_new))) w = Ok u"
    "begin_run_end sha u i ''REAPED'' = Ok (bs, v)" "reap_loop sha session cause reaped v = Ok (bs', w')"
    using assms by (auto simp: and_then_Ok_iff split: prod.splits)
  then show ?thesis using that parsed_ids(1) [OF s(1)] by simp
qed

lemma reap_loop_quiet:
  "reap_loop sha session cause reaped w = Ok (td, w') \<Longrightarrow> utf8_ok session \<Longrightarrow> utf8_ok cause \<Longrightarrow> quiet sha w w'"
proof (induction reaped arbitrary: w td)
  case (Cons run reaped)
  from Cons.prems(1) obtain u v bs bs' where s: "utf8_ok run"
    "work_audit sha RunReaped (Fields_text ''cause'' cause (Fields_text ''run_id'' run (Fields_text ''session_id'' session Fields_new))) w = Ok u"
    "begin_run_end sha u run ''REAPED'' = Ok (bs, v)" "reap_loop sha session cause reaped v = Ok (bs', w')"
    by (rule reap_loop_Cons)
  have "quiet sha w u" using quiet_audit1 [OF s(2)] s(1) Cons.prems by simp
  moreover have "quiet sha u v" using begin_run_end_quiet [OF s(3)] by simp
  ultimately show ?case using Cons.IH [OF s(4)] Cons.prems quiet_trans by blast
qed (simp add: quiet_refl)

lemma reap_loop_envs:
  "reap_loop sha session cause reaped w = Ok (td, w') \<Longrightarrow> distinct (map env_environment_id (environments (tx w))) \<Longrightarrow>
     environments (tx w') = map (destroy_row (\<lambda>r. env_run_id r \<in> set reaped) ''REAPED'') (environments (tx w))"
proof (induction reaped arbitrary: w td)
  case Nil
  then show ?case by (simp add: destroy_row_def map_idI)
next
  case (Cons run reaped)
  from Cons.prems(1) obtain u v bs bs' where s:
    "work_audit sha RunReaped (Fields_text ''cause'' cause (Fields_text ''run_id'' run (Fields_text ''session_id'' session Fields_new))) w = Ok u"
    "begin_run_end sha u run ''REAPED'' = Ok (bs, v)" "reap_loop sha session cause reaped v = Ok (bs', w')"
    by (rule reap_loop_Cons)
  have u: "environments (tx u) = environments (tx w)" using s(1) by (auto elim!: work_audit_Ok)
  have v: "environments (tx v) = map (destroy_row (\<lambda>r. env_run_id r = run) ''REAPED'') (environments (tx w))"
    using begin_run_end_envs [OF s(2)] Cons.prems(2) u by simp
  then have "environments (tx w') = map (destroy_row (\<lambda>r. env_run_id r \<in> set reaped) ''REAPED'') (environments (tx v))"
    by (intro Cons.IH [OF s(3)]) (use Cons.prems(2) in \<open>simp add: comp_def\<close>)
  moreover have "destroy_row (\<lambda>r. env_run_id r \<in> set reaped) ''REAPED'' (destroy_row (\<lambda>r. env_run_id r = run) ''REAPED'' r) =
      destroy_row (\<lambda>r. env_run_id r \<in> set (run # reaped)) ''REAPED'' r" for r
    by (auto simp: destroy_row_def coalesce_def split: option.splits)
  ultimately show ?case unfolding v by simp
qed

lemma reap_Ok:
  assumes "reap sha w session below cause = Ok (td, w')" "utf8_ok session" "utf8_ok cause"
  obtains v where "v = w\<lparr>tx := (tx w)\<lparr>runs := map (reap_row session below (now w)) (runs (tx w))\<rparr>\<rparr>" "quiet sha v w'"
    "\<forall>r \<in> set (runs (tx w)). run_checks r \<longrightarrow> run_checks (reap_row session below (now w) r)"
    "distinct (map env_environment_id (environments (tx w))) \<Longrightarrow> environments (tx w') =
       map (destroy_row (\<lambda>e. env_run_id e \<in> run_run_id ` {r \<in> set (runs (tx w)). reap_row session below (now w) r \<noteq> r}) ''REAPED'') (environments (tx w))"
proof -
  let ?wh = "\<lambda>r. run_session r = session \<and> run_state r = ''ACTIVE'' \<and> run_epoch r < int below"
  let ?upd = "\<lambda>r. r\<lparr>run_state := ''REAPED'', run_ended_ms := Some (int (now w))\<rparr>"
  obtain n v where v: "update_runs ?wh ?upd w = Ok (n, v)"
      "reap_loop sha session cause (map run_run_id (filter ?wh (runs (tx w)))) v = Ok (td, w')"
    using assms(1) by (auto simp: reap_def and_then_Ok_iff to_sql_Ok Let_def)
  have "v = w\<lparr>tx := (tx w)\<lparr>runs := map (reap_row session below (now w)) (runs (tx w))\<rparr>\<rparr>"
    using v(1) by (auto elim!: update_runs_Ok simp: sql_update_Ok reap_row_def)
  moreover have "quiet sha v w'" using reap_loop_quiet [OF v(2)] assms by simp
  moreover have "\<forall>r \<in> set (runs (tx w)). run_checks r \<longrightarrow> run_checks (reap_row session below (now w) r)"
    by (auto simp: reap_row_def run_checks_def)
  moreover have "?wh r \<longleftrightarrow> reap_row session below (now w) r \<noteq> r" for r
    by (cases r) (auto simp: reap_row_def)
  then have "set (map run_run_id (filter ?wh (runs (tx w)))) = run_run_id ` {r \<in> set (runs (tx w)). reap_row session below (now w) r \<noteq> r}"
    by auto
  ultimately show ?thesis using that reap_loop_envs [OF v(2)] by simp
qed

section \<open>The operations\<close>

definition tenure :: "CallerContext \<Rightarrow> nat \<Rightarrow> nat \<Rightarrow> LeaseRow \<Rightarrow> LeaseRow" where
  "tenure caller epoch expires r =
     r\<lparr>lease_epoch := int epoch, lease_state := ''HELD'', holder_subject := Some (storage_key (subject caller)),
       holder_incarnation := Some (int (incarnation (holder caller))),
       holder_connection := Some (int (connection (holder caller))), expires_ms := Some (int expires)\<rparr>"

definition first_tenure :: "CallerContext \<Rightarrow> string \<Rightarrow> nat \<Rightarrow> LeaseRow" where
  "first_tenure caller session expires =
     tenure caller 1 expires \<lparr>lease_session = session, lease_epoch = 0, lease_state = [], holder_subject = None,
       holder_incarnation = None, holder_connection = None, expires_ms = None,
       last_holder_incarnation = None, last_holder_connection = None\<rparr>"

definition on_session :: "string \<Rightarrow> (LeaseRow \<Rightarrow> LeaseRow) \<Rightarrow> LeaseRow \<Rightarrow> LeaseRow" where
  "on_session session f r = (if lease_session r = session then f r else r)"

abbreviation with_tables :: "LeaseRow list \<Rightarrow> RunRow list \<Rightarrow> Work \<Rightarrow> Work" where
  "with_tables ls rs w \<equiv> w\<lparr>tx := (tx w)\<lparr>session_lease := ls, runs := rs\<rparr>\<rparr>"

lemma wf_refusal_fields [simp]: "wf_fields (refusal_fields caller operation reason session epoch) \<longleftrightarrow> utf8_ok session"
  by (auto simp: refusal_fields_def)

lemma update_lease_map:
  assumes "update_leases (\<lambda>r. lease_session r = session) f w = Ok (n, w')"
  shows "w' = w\<lparr>tx := (tx w)\<lparr>session_lease := map (on_session session f) (session_lease (tx w))\<rparr>\<rparr>"
    "r \<in> set (session_lease (tx w)) \<Longrightarrow> lease_session r = session \<Longrightarrow> update_lease_refuses r (f r) = None"
  using assms by (auto elim!: update_leases_Ok simp: sql_update_Ok on_session_def)

lemma acquire_tenure_fresh:
  assumes "acquire_tenure sha w caller session expires True 1 prior = Ok ((reply, td), w')" "utf8_ok session" "utf8_ok prior"
  obtains v where "v = w\<lparr>tx := (tx w)\<lparr>session_lease := session_lease (tx w) @ [first_tenure caller session expires]\<rparr>\<rparr>"
    "quiet sha v w'" "reply = Done 1" "td = []" "lease_checks (first_tenure caller session expires)"
proof -
  let ?row = "first_tenure caller session expires"
  obtain v where v: "insert_lease ?row w = Ok v" "work_audit sha LeaseAcquired
        (Fields_int ''expires_ms'' expires (Fields_text ''prior'' prior (Fields_int ''epoch'' 1
        (Fields_text ''session_id'' session (Fields_text ''holder'' (LeaseHolder_to_string (holder caller))
        (Fields_text ''subject'' (storage_key (subject caller)) Fields_new)))))) v = Ok w'"
      "reply = Done 1" "td = []"
    using assms(1) by (auto simp: acquire_tenure_def holder_pair_def and_then_Ok_iff to_sql_Ok first_tenure_def tenure_def
        Epoch_new_def Epoch_MIN_def Epoch_MAX_def)
  have "v = w\<lparr>tx := (tx w)\<lparr>session_lease := session_lease (tx w) @ [?row]\<rparr>\<rparr>" "lease_checks ?row"
    using v(1) by (auto simp: insert_lease_def and_then_Ok_iff work_db_def sql_insert_Ok)
  then show ?thesis using that quiet_audit1 [OF v(2)] v(3,4) assms(2,3) by simp
qed

lemma acquire_tenure_next:
  assumes "acquire_tenure sha w caller session expires False epoch prior = Ok ((reply, td), w')" "utf8_ok session" "utf8_ok prior"
  obtains v where "v = with_tables (map (on_session session (tenure caller epoch expires)) (session_lease (tx w)))
      (map (reap_row session epoch (now w)) (runs (tx w))) w"
    "quiet sha v w'" "reply = Done epoch" "epoch \<le> Epoch_MAX"
    "\<And>r. r \<in> set (session_lease (tx w)) \<Longrightarrow> lease_session r = session \<Longrightarrow> update_lease_refuses r (tenure caller epoch expires r) = None"
    "distinct (map env_environment_id (environments (tx w))) \<Longrightarrow> environments (tx w') =
       map (destroy_row (\<lambda>e. env_run_id e \<in> run_run_id ` {r \<in> set (runs (tx w)). reap_row session epoch (now w) r \<noteq> r}) ''REAPED'') (environments (tx w))"
proof -
  obtain n u v where v: "update_leases (\<lambda>r. lease_session r = session) (tenure caller epoch expires) w = Ok (n, u)"
      "reap sha u session epoch ''lease_reacquired'' = Ok (td, v)" "work_audit sha LeaseAcquired
        (Fields_int ''expires_ms'' expires (Fields_text ''prior'' prior (Fields_int ''epoch'' epoch
        (Fields_text ''session_id'' session (Fields_text ''holder'' (LeaseHolder_to_string (holder caller))
        (Fields_text ''subject'' (storage_key (subject caller)) Fields_new)))))) v = Ok w'"
      "reply = Done epoch" "epoch \<le> Epoch_MAX"
    using assms(1) by (auto simp: acquire_tenure_def holder_pair_def and_then_Ok_iff to_sql_Ok tenure_def [abs_def]
        Epoch_new_def split: if_splits)
  note u = update_lease_map [OF v(1)]
  have "quiet sha v w'" using quiet_audit1 [OF v(3)] assms(2,3) by simp
  moreover have "environments (tx w') = environments (tx v)" using v(3) by (auto elim!: work_audit_Ok)
  ultimately show ?thesis
    using v(2) assms(2)
    by (elim reap_Ok) (auto intro!: that v(4,5) u(2) simp: u(1) intro: quiet_trans)
qed

lemma acquire_cases:
  assumes "acquire sha w caller session ttl = Ok ((reply, td), w')" "utf8_ok session"
  obtains (held) r where "find (\<lambda>r. lease_session r = session) (session_lease (tx w)) = Some r" "row_live r (now w)"
      "\<not> row_holder r caller" "reply = Refused LeaseHeld" "td = []" "quiet sha w w'"
  | (fresh) v where "find (\<lambda>r. lease_session r = session) (session_lease (tx w)) = None" "reply = Done 1" "td = []"
      "v = w\<lparr>tx := (tx w)\<lparr>session_lease := session_lease (tx w) @ [first_tenure caller session (saturating_add (now w) ttl)]\<rparr>\<rparr>"
      "quiet sha v w'" "lease_checks (first_tenure caller session (saturating_add (now w) ttl))"
  | (granted) r epoch v where "find (\<lambda>r. lease_session r = session) (session_lease (tx w)) = Some r"
      "row_live r (now w) \<longrightarrow> row_holder r caller" "int epoch = lease_epoch r + 1" "epoch \<le> Epoch_MAX" "reply = Done epoch"
      "v = with_tables (map (on_session session (tenure caller epoch (saturating_add (now w) ttl))) (session_lease (tx w)))
         (map (reap_row session epoch (now w)) (runs (tx w))) w" "quiet sha v w'"
      "update_lease_refuses r (tenure caller epoch (saturating_add (now w) ttl) r) = None"
      "distinct (map env_environment_id (environments (tx w))) \<Longrightarrow> environments (tx w') =
         map (destroy_row (\<lambda>e. env_run_id e \<in> run_run_id ` {r \<in> set (runs (tx w)). reap_row session epoch (now w) r \<noteq> r}) ''REAPED'') (environments (tx w))"
proof -
  obtain lo d where ld: "lease_load w session = Ok lo" "acquire_decision lo (holder_pair caller) (now w) = Ok d"
    using assms(1) by (auto simp: acquire_def Let_def and_then_Ok_iff)
  note acq = assms(1) [unfolded acquire_def Let_def ld and_then_simps]
  from ld(1) show thesis
  proof (cases rule: lease_load_cases)
    case none
    then have d: "d = Some (1, ''none'')" using ld(2) by (simp add: acquire_decision_def)
    have "acquire_tenure sha w caller session (saturating_add (now w) ttl) True 1 ''none'' = Ok ((reply, td), w')"
      using acq d none(1) by simp
    then show thesis by (rule acquire_tenure_fresh) (use assms(2) none(2) fresh in simp_all)
  next
    case (some r l)
    note l = lease_of_Ok [OF some(3)]
    have live: "row_live r (now w) \<longleftrightarrow> l_state l = ''HELD'' \<and> (case l_expires_ms l of Some e \<Rightarrow> now w < e | None \<Rightarrow> False)"
      using l(2,6) by (simp add: row_live_def)
    show thesis
    proof (cases "row_live r (now w) \<and> \<not> row_holder r caller")
      case True
      then have "d = None" using ld(2) some(1) l(4) live by (simp add: acquire_decision_def Let_def)
      then have "and_then (work_audit sha LeaseRefused (refusal_fields caller AcquireLease LeaseHeld session None) w)
          (\<lambda>work. Ok ((Refused LeaseHeld, []), work)) = Ok ((reply, td), w')" using acq by simp
      then have ok: "work_audit sha LeaseRefused (refusal_fields caller AcquireLease LeaseHeld session None) w = Ok w'"
          "reply = Refused LeaseHeld" "td = []" by (auto simp: and_then_Ok_iff)
      then show thesis using held some(2) True quiet_audit1 [OF ok(1)] assms(2) by simp
    next
      case False
      then obtain prior where d: "d = Some (saturating_add (l_epoch l) 1, prior)" "l_epoch l < MAX_EPOCH"
          "prior \<in> {''reissued'', ''expired'', ''released'', ''invalidated''}"
        using ld(2) some(1) l(4) [of caller] live by (auto simp: acquire_decision_def Let_def split: if_splits)
      have e: "saturating_add (l_epoch l) 1 = l_epoch l + 1" using d(2) by (simp add: saturating_add_def MAX_EPOCH_def Epoch_MAX_def U64_MAX_def)
      have "acquire_tenure sha w caller session (saturating_add (now w) ttl) False (l_epoch l + 1) prior = Ok ((reply, td), w')"
        using acq d(1) some(1) e by simp
      moreover have "utf8_ok prior" using d(3) by auto
      ultimately show thesis
        by (rule acquire_tenure_next [OF _ assms(2)])
          (rule granted [OF some(2), of "l_epoch l + 1"], use False l(1) find_row [OF some(2)] in auto)
    qed
  qed
qed

lemma heartbeat_cases:
  assumes "heartbeat sha w caller session epoch ttl = Ok (reply, w')" "utf8_ok session" "leases_inv (session_lease (tx w))"
  obtains (stale) "reply = Refused StaleEpoch" "quiet sha w w'"
      "\<And>r. r \<in> set (session_lease (tx w)) \<Longrightarrow> lease_session r = session \<Longrightarrow> \<not> row_passes r caller epoch (now w)"
  | (renewed) r where "reply = Done ()" "r \<in> set (session_lease (tx w))" "lease_session r = session" "row_passes r caller epoch (now w)"
      "w' = w\<lparr>tx := (tx w)\<lparr>session_lease := map (on_session session
         (\<lambda>r. r\<lparr>expires_ms := Some (int (saturating_add (now w) ttl))\<rparr>)) (session_lease (tx w))\<rparr>\<rparr>"
proof -
  obtain ok where ok: "fence w caller session epoch = Ok ok" using assms(1) by (auto simp: heartbeat_def and_then_Ok_iff)
  note f = ok [unfolded fence_iff [OF assms(3)]]
  show thesis
  proof (cases ok)
    case True
    then obtain n where "update_leases (\<lambda>r. lease_session r = session)
        (\<lambda>r. r\<lparr>expires_ms := Some (int (saturating_add (now w) ttl))\<rparr>) w = Ok (n, w')" "reply = Done ()"
      using assms(1) ok by (auto simp: heartbeat_def and_then_Ok_iff to_sql_Ok)
    then show thesis using renewed update_lease_map(1) f True by blast
  next
    case False
    then have a: "work_audit sha LeaseRefused (refusal_fields caller Heartbeat StaleEpoch session (Some epoch)) w = Ok w'"
        "reply = Refused StaleEpoch"
      using assms(1) ok by (auto simp: heartbeat_def and_then_Ok_iff)
    show thesis using stale [OF a(2)] quiet_audit1 [OF a(1)] assms(2) f False by auto
  qed
qed

definition surrender :: "CallerContext \<Rightarrow> LeaseRow \<Rightarrow> LeaseRow" where
  "surrender caller r =
     r\<lparr>lease_state := ''RELEASED'', holder_subject := None, holder_incarnation := None, holder_connection := None, expires_ms := None,
       last_holder_incarnation := Some (int (incarnation (holder caller))),
       last_holder_connection := Some (int (connection (holder caller)))\<rparr>"

definition row_surrendered :: "LeaseRow \<Rightarrow> CallerContext \<Rightarrow> nat \<Rightarrow> bool" where
  "row_surrendered r caller epoch \<longleftrightarrow> lease_state r = ''RELEASED'' \<and> lease_epoch r = int epoch \<and>
     last_holder_incarnation r = Some (int (incarnation (holder caller))) \<and>
     last_holder_connection r = Some (int (connection (holder caller)))"

lemma release_held_Ok:
  assumes "release_held sha w caller session l = Ok ((reply, td), w')" "utf8_ok session" "l_epoch l < U64_MAX"
  obtains v where "reply = Done ()"
    "v = with_tables (map (on_session session (surrender caller)) (session_lease (tx w)))
       (map (reap_row session (l_epoch l + 1) (now w)) (runs (tx w))) w" "quiet sha v w'"
    "distinct (map env_environment_id (environments (tx w))) \<Longrightarrow> environments (tx w') =
       map (destroy_row (\<lambda>e. env_run_id e \<in> run_run_id ` {r \<in> set (runs (tx w)). reap_row session (l_epoch l + 1) (now w) r \<noteq> r}) ''REAPED'') (environments (tx w))"
proof -
  have e: "saturating_add (l_epoch l) 1 = l_epoch l + 1" using assms(3) by (simp add: saturating_add_def)
  obtain n u v where v: "update_leases (\<lambda>r. lease_session r = session) (surrender caller) w = Ok (n, u)"
      "reap sha u session (l_epoch l + 1) ''lease_released'' = Ok (td, v)" "work_audit sha LeaseReleased
        (Fields_int ''epoch'' (l_epoch l) (Fields_text ''session_id'' session
        (Fields_text ''holder'' (LeaseHolder_to_string (holder caller))
        (Fields_text ''subject'' (storage_key (subject caller)) Fields_new)))) v = Ok w'"
      "reply = Done ()"
    using assms(1) e by (auto simp: release_held_def holder_pair_def and_then_Ok_iff to_sql_Ok surrender_def [abs_def])
  note u = update_lease_map [OF v(1)]
  have "quiet sha v w'" using quiet_audit1 [OF v(3)] assms(2) by simp
  moreover have "environments (tx w') = environments (tx v)" using v(3) by (auto elim!: work_audit_Ok)
  ultimately show ?thesis
    using v(2) assms(2)
    by (elim reap_Ok) (auto intro!: that v(4) simp: u(1) intro: quiet_trans)
qed

lemma lease_release_cases:
  assumes "lease_release sha w caller session epoch = Ok ((reply, td), w')" "utf8_ok session" "leases_inv (session_lease (tx w))"
  obtains (released) r v where "r \<in> set (session_lease (tx w))" "lease_session r = session" "row_passes r caller epoch (now w)"
      "reply = Done ()"
      "v = with_tables (map (on_session session (surrender caller)) (session_lease (tx w)))
         (map (reap_row session (epoch + 1) (now w)) (runs (tx w))) w" "quiet sha v w'"
      "distinct (map env_environment_id (environments (tx w))) \<Longrightarrow> environments (tx w') =
         map (destroy_row (\<lambda>e. env_run_id e \<in> run_run_id ` {r \<in> set (runs (tx w)). reap_row session (epoch + 1) (now w) r \<noteq> r}) ''REAPED'') (environments (tx w))"
  | (again) r where "r \<in> set (session_lease (tx w))" "lease_session r = session" "row_surrendered r caller epoch"
      "reply = Done ()" "td = []" "w' = w"
  | (stale) "reply = Refused StaleEpoch" "td = []" "quiet sha w w'"
      "\<And>r. r \<in> set (session_lease (tx w)) \<Longrightarrow> lease_session r = session \<Longrightarrow>
         \<not> row_passes r caller epoch (now w) \<and> \<not> row_surrendered r caller epoch"
proof -
  obtain lo where lo: "lease_load w session = Ok lo" using assms(1) by (auto simp: lease_release_def and_then_Ok_iff)
  note rel = assms(1) [unfolded lease_release_def lo and_then_simps Let_def]
  have refuse: thesis
    if ref: "and_then (work_audit sha LeaseRefused (refusal_fields caller ReleaseLease StaleEpoch session (Some epoch)) w)
        (\<lambda>work. Ok ((Refused StaleEpoch, []), work)) = Ok ((reply, td), w')"
      and no: "\<And>r. r \<in> set (session_lease (tx w)) \<Longrightarrow> lease_session r = session \<Longrightarrow>
         \<not> row_passes r caller epoch (now w) \<and> \<not> row_surrendered r caller epoch"
  proof -
    from ref have a: "work_audit sha LeaseRefused (refusal_fields caller ReleaseLease StaleEpoch session (Some epoch)) w = Ok w'"
        "reply = Refused StaleEpoch" "td = []" by (auto simp: and_then_Ok_iff)
    show thesis using stale [OF a(2,3) quiet_audit1 [OF a(1)]] assms(2) no by simp
  qed
  from lo show thesis
  proof (cases rule: lease_load_cases)
    case none
    then show thesis using refuse rel by (auto simp: find_None_iff)
  next
    case (some r l)
    have r: "r \<in> set (session_lease (tx w))" "lease_session r = session" using find_row [OF some(2)] by simp_all
    have uniq: "r' = r" if "r' \<in> set (session_lease (tx w))" "lease_session r' = session" for r'
      using find_unique_row [OF some(2) _ that] assms(3) by (simp add: leases_inv_def)
    note l = lease_of_Ok [OF some(3)] and f = fenced_ok_row [OF some(3)]
    have s: "l_state l = ''RELEASED'' \<and> l_epoch l = epoch \<and> l_last_holder l = Some (holder_pair caller) \<longleftrightarrow> row_surrendered r caller epoch"
      using l(1,2,5) by (auto simp: row_surrendered_def holder_pair_def)
    consider "row_passes r caller epoch (now w)" | "\<not> row_passes r caller epoch (now w)" "row_surrendered r caller epoch"
      | "\<not> row_passes r caller epoch (now w)" "\<not> row_surrendered r caller epoch" by blast
    then show thesis
    proof cases
      case 1
      have e: "l_epoch l = epoch" using 1 l(1) by (simp add: row_passes_def)
      have "lease_checks r" using r(1) assms(3) by (simp add: leases_inv_def)
      then have "l_epoch l < U64_MAX" using l(1) by (simp add: lease_checks_def U64_MAX_def)
      moreover have "release_held sha w caller session l = Ok ((reply, td), w')" using rel some(1) f 1 by simp
      ultimately show thesis
        by (elim release_held_Ok) (use assms(2) released [OF r 1] e in auto)
    next
      case 2
      then show thesis using rel some(1) f s again [OF r] by auto
    next
      case 3
      then show thesis using refuse rel some(1) f s uniq by auto
    qed
  qed
qed

lemma run_release_cases:
  assumes "run_release sha w caller session run epoch = Ok (reply, w')" "utf8_ok session" "utf8_ok run" "leases_inv (session_lease (tx w))"
  obtains (stale) "reply = Refused StaleEpoch" "quiet sha w w'"
      "\<And>r. r \<in> set (session_lease (tx w)) \<Longrightarrow> lease_session r = session \<Longrightarrow> \<not> row_passes r caller epoch (now w)"
  | (ended) l n v where "reply = Done (n = 1)" "l \<in> set (session_lease (tx w))" "lease_session l = session" "row_passes l caller epoch (now w)"
      "sql_update update_run_refuses (\<lambda>r. run_run_id r = run \<and> run_session r = session \<and>
               run_subject r = storage_key (subject caller) \<and> run_epoch r = int epoch \<and> run_state r = ''ACTIVE'')
         (\<lambda>r. r\<lparr>run_state := ''RELEASED'', run_ended_ms := Some (int (now w))\<rparr>) (runs (tx w)) = Ok (runs (tx v), n)"
      "v = w\<lparr>tx := (tx w)\<lparr>runs := runs (tx v)\<rparr>\<rparr>" "quiet sha v w'" "environments (tx w') = environments (tx w)"
proof -
  obtain ok where ok: "fence w caller session epoch = Ok ok" using assms(1) by (auto simp: run_release_def and_then_Ok_iff)
  note f = ok [unfolded fence_iff [OF assms(4)]]
  show thesis
  proof (cases ok)
    case True
    let ?fs = "Fields_text ''run_id'' run (Fields_int ''epoch'' epoch (Fields_text ''session_id'' session
      (Fields_text ''holder'' (LeaseHolder_to_string (holder caller)) (Fields_text ''subject'' (storage_key (subject caller)) Fields_new))))"
    obtain n v where v: "update_runs (\<lambda>r. run_run_id r = run \<and> run_session r = session \<and>
               run_subject r = storage_key (subject caller) \<and> run_epoch r = int epoch \<and> run_state r = ''ACTIVE'')
         (\<lambda>r. r\<lparr>run_state := ''RELEASED'', run_ended_ms := Some (int (now w))\<rparr>) w = Ok (n, v)"
        "(if n = 1 then and_then (work_audit sha RunReleased ?fs v) (\<lambda>work. Ok (Done True, work)) else Ok (Done False, v)) = Ok (reply, w')"
      using assms(1) [unfolded run_release_def ok and_then_simps] True
      by (auto simp only: and_then_Ok_iff to_sql_Ok split_paired_Ex prod.case simp_thms if_True if_False)
    have v3: "reply = Done (n = 1)" "if n = 1 then work_audit sha RunReleased ?fs v = Ok w' else w' = v"
      using v(2) by (auto simp: and_then_Ok_iff split: if_splits)
    have "quiet sha v w'" using v3(2) quiet_audit1 [of sha RunReleased ?fs v w'] assms(2,3) by (auto simp: quiet_refl split: if_splits)
    moreover have "environments (tx w') = environments (tx v)" using v3(2) by (auto elim!: work_audit_Ok split: if_splits)
    moreover obtain rows where rows: "sql_update update_run_refuses (\<lambda>r. run_run_id r = run \<and> run_session r = session \<and>
               run_subject r = storage_key (subject caller) \<and> run_epoch r = int epoch \<and> run_state r = ''ACTIVE'')
         (\<lambda>r. r\<lparr>run_state := ''RELEASED'', run_ended_ms := Some (int (now w))\<rparr>) (runs (tx w)) = Ok (rows, n)"
        "v = w\<lparr>tx := (tx w)\<lparr>runs := rows\<rparr>\<rparr>" using v(1) by (rule update_runs_Ok)
    moreover obtain l where "l \<in> set (session_lease (tx w))" "lease_session l = session" "row_passes l caller epoch (now w)"
      using f True by blast
    ultimately show thesis using ended [of n l v] v3(1) by simp
  next
    case False
    then have a: "work_audit sha RunReleaseRefused (refusal_fields caller ReleaseRun StaleEpoch session (Some epoch)) w = Ok w'"
        "reply = Refused StaleEpoch"
      using assms(1) ok by (auto simp: run_release_def and_then_Ok_iff)
    show thesis using stale [OF a(2)] quiet_audit1 [OF a(1)] assms(2) f False by auto
  qed
qed

end
