(* ===== verification/Auth_Fence.thy ===== *)
theory Auth_Fence
  imports Auth_Lease_Laws
begin

text \<open>
  The moves of the lease and run tables that the operations make, the invariant they keep, and the
  specification they implement: per session a fencing token that only grows, held by at most one
  holder at a time.
\<close>

section \<open>The moves of the tables\<close>

definition invalidate :: "LeaseRow \<Rightarrow> LeaseRow" where
  "invalidate r =
     (if lease_state r = ''HELD''
      then r\<lparr>lease_state := ''INVALIDATED'', last_holder_incarnation := holder_incarnation r,
             last_holder_connection := holder_connection r, holder_subject := None, holder_incarnation := None,
             holder_connection := None, expires_ms := None\<rparr>
      else r)"

definition reap_any :: "nat \<Rightarrow> RunRow \<Rightarrow> RunRow" where
  "reap_any now' r =
     (if run_state r = ''ACTIVE'' then r\<lparr>run_state := ''REAPED'', run_ended_ms := Some (int now')\<rparr> else r)"

inductive table_move :: "nat \<Rightarrow> LeaseRow list \<Rightarrow> RunRow list \<Rightarrow> LeaseRow list \<Rightarrow> RunRow list \<Rightarrow> bool" for now' where
  move_none: "table_move now' ls rs ls rs"
| move_fresh: "find (\<lambda>r. lease_session r = session) ls = None \<Longrightarrow> utf8_ok session \<Longrightarrow>
    lease_checks (first_tenure caller session expires) \<Longrightarrow> table_move now' ls rs (ls @ [first_tenure caller session expires]) rs"
| move_grant: "find (\<lambda>r. lease_session r = session) ls = Some r \<Longrightarrow> (row_live r now' \<longrightarrow> row_holder r caller) \<Longrightarrow>
    int epoch = lease_epoch r + 1 \<Longrightarrow> update_lease_refuses r (tenure caller epoch expires r) = None \<Longrightarrow>
    table_move now' ls rs (map (on_session session (tenure caller epoch expires)) ls) (map (reap_row session epoch now') rs)"
| move_renew: "r \<in> set ls \<Longrightarrow> lease_session r = session \<Longrightarrow> row_passes r caller epoch now' \<Longrightarrow>
    table_move now' ls rs (map (on_session session (\<lambda>r. r\<lparr>expires_ms := Some x\<rparr>)) ls) rs"
| move_release: "r \<in> set ls \<Longrightarrow> lease_session r = session \<Longrightarrow> row_passes r caller epoch now' \<Longrightarrow>
    table_move now' ls rs (map (on_session session (surrender caller)) ls) (map (reap_row session (epoch + 1) now') rs)"
| move_end_run: "sql_update update_run_refuses (\<lambda>r. run_run_id r = run \<and> run_session r = session \<and>
      run_subject r = subj \<and> run_epoch r = e \<and> run_state r = ''ACTIVE'')
      (\<lambda>r. r\<lparr>run_state := ''RELEASED'', run_ended_ms := Some x\<rparr>) rs = Ok (rs', n) \<Longrightarrow> table_move now' ls rs ls rs'"
| move_restart: "table_move now' ls rs (map invalidate ls) (map (reap_any now') rs)"
| move_admit: "l \<in> set ls \<Longrightarrow> row_passes l caller epoch now' \<Longrightarrow> run_session r = lease_session l \<Longrightarrow> run_epoch r = int epoch \<Longrightarrow>
    run_subject r = storage_key (subject caller) \<Longrightarrow>
    run_checks r \<Longrightarrow> RunId_parse (run_run_id r) = Some (run_run_id r) \<Longrightarrow> run_run_id r \<notin> run_run_id ` set rs \<Longrightarrow>
    table_move now' ls rs ls (rs @ [r])"

lemma reap_any_ids [simp]:
  "run_run_id (reap_any now' r) = run_run_id r" "run_session (reap_any now' r) = run_session r" "run_epoch (reap_any now' r) = run_epoch r"
  by (simp_all add: reap_any_def)

lemma lease_row_ids [simp]:
  "lease_session (tenure caller epoch expires r) = lease_session r" "lease_session (surrender caller r) = lease_session r"
  "lease_session (invalidate r) = lease_session r" "lease_session (first_tenure caller session expires) = session"
  by (simp_all add: tenure_def surrender_def invalidate_def first_tenure_def)

lemma map_session_ids: "(\<And>r. lease_session (f r) = lease_session r) \<Longrightarrow> map lease_session (map (on_session session f) ls) = map lease_session ls"
  by (simp add: on_session_def)

lemma surrender_checks: "lease_checks r \<Longrightarrow> lease_checks (surrender caller r)"
  by (auto simp: lease_checks_def surrender_def)

lemma invalidate_checks: "lease_checks r \<Longrightarrow> lease_checks (invalidate r)"
  by (auto simp: lease_checks_def invalidate_def)

lemma leases_inv_map:
  assumes "leases_inv ls" "\<And>r. lease_session (f r) = lease_session r" "\<And>r. r \<in> set ls \<Longrightarrow> lease_checks r \<Longrightarrow> lease_checks (f r)"
  shows "leases_inv (map f ls)"
  using assms by (auto simp: leases_inv_def comp_def)

lemma leases_inv_unique: "leases_inv ls \<Longrightarrow> l \<in> set ls \<Longrightarrow> l' \<in> set ls \<Longrightarrow> lease_session l = lease_session l' \<Longrightarrow> l = l'"
  unfolding leases_inv_def by (meson distinct_key_eq)

lemma table_move_leases_inv: "table_move now' ls rs ls' rs' \<Longrightarrow> leases_inv ls \<Longrightarrow> leases_inv ls'"
proof (induction rule: table_move.induct)
  case (move_fresh session ls caller expires rs)
  then show ?case by (auto simp: leases_inv_def find_None_iff)
next
  case (move_grant session ls r caller epoch expires rs)
  have "lease_checks (tenure caller epoch expires r')" if "r' \<in> set ls" "lease_session r' = session" for r'
    using find_unique_row [OF move_grant.hyps(1) _ that] move_grant.prems move_grant.hyps(4)
    by (simp add: leases_inv_def update_lease_refuses_None)
  with move_grant.prems show ?case by (intro leases_inv_map) (auto simp: on_session_def)
next
  case (move_renew r ls session caller epoch rs x)
  have "lease_checks (r'\<lparr>expires_ms := Some x\<rparr>)" if "r' \<in> set ls" "lease_session r' = session" for r'
    using leases_inv_unique [OF move_renew.prems move_renew.hyps(1) that(1)] move_renew that
    by (auto simp: leases_inv_def lease_checks_def row_passes_def row_live_def)
  with move_renew.prems show ?case by (intro leases_inv_map) (auto simp: on_session_def)
next
  case (move_release r ls session caller epoch rs)
  then show ?case by (intro leases_inv_map) (auto simp: on_session_def surrender_checks)
next
  case (move_restart ls rs)
  then show ?case by (intro leases_inv_map) (auto simp: invalidate_checks)
qed auto

section \<open>Runs follow their lease\<close>

definition run_ok :: "LeaseRow list \<Rightarrow> RunRow \<Rightarrow> bool" where
  "run_ok ls r \<longleftrightarrow> run_checks r \<and> RunId_parse (run_run_id r) = Some (run_run_id r) \<and>
     (\<exists>l \<in> set ls. lease_session l = run_session r \<and> run_epoch r \<le> lease_epoch l \<and>
        (run_state r = ''ACTIVE'' \<longrightarrow> lease_state l = ''HELD'' \<and> lease_epoch l = run_epoch r))"

lemma runs_inv_alt: "runs_inv ls rs \<longleftrightarrow> distinct (map run_run_id rs) \<and> (\<forall>r \<in> set rs. run_ok ls r)"
  by (auto simp: runs_inv_def run_ok_def)

lemma runs_inv_map:
  assumes "runs_inv ls rs" "\<And>r. run_run_id (f r) = run_run_id r" "\<And>r. r \<in> set rs \<Longrightarrow> run_ok ls r \<Longrightarrow> run_ok ls' (f r)"
  shows "runs_inv ls' (map f rs)"
  using assms by (auto simp: runs_inv_alt comp_def)

lemma run_ok_active: "run_ok ls r \<Longrightarrow> leases_inv ls \<Longrightarrow> run_state r = ''ACTIVE'' \<Longrightarrow> l \<in> set ls \<Longrightarrow> lease_session l = run_session r \<Longrightarrow>
    lease_state l = ''HELD'' \<and> lease_epoch l = run_epoch r"
  unfolding run_ok_def by (metis leases_inv_unique)

lemma run_ok_epoch: "run_ok ls r \<Longrightarrow> leases_inv ls \<Longrightarrow> l \<in> set ls \<Longrightarrow> lease_session l = run_session r \<Longrightarrow> run_epoch r \<le> lease_epoch l"
  unfolding run_ok_def by (metis leases_inv_unique)

text \<open>A run is fine in the new tables if it is, and its session's lease kept its epoch or the run ended.\<close>

lemma run_ok_leases:
  assumes "run_ok ls r" "leases_inv ls" "run_checks r'" "run_run_id r' = run_run_id r" "run_session r' = run_session r" "run_epoch r' = run_epoch r"
    and "\<And>l. l \<in> set ls \<Longrightarrow> lease_session l = run_session r \<Longrightarrow> \<exists>l' \<in> set ls'. lease_session l' = run_session r \<and> lease_epoch l \<le> lease_epoch l' \<and>
      (run_state r' = ''ACTIVE'' \<longrightarrow> run_state r = ''ACTIVE'' \<and> lease_state l' = ''HELD'' \<and> lease_epoch l' = lease_epoch l)"
  shows "run_ok ls' r'"
proof -
  obtain l where l: "l \<in> set ls" "lease_session l = run_session r" "run_epoch r \<le> lease_epoch l"
      "run_state r = ''ACTIVE'' \<longrightarrow> lease_state l = ''HELD'' \<and> lease_epoch l = run_epoch r"
    using assms(1) by (auto simp: run_ok_def)
  obtain l' where "l' \<in> set ls'" "lease_session l' = run_session r" "lease_epoch l \<le> lease_epoch l'"
      "run_state r' = ''ACTIVE'' \<longrightarrow> run_state r = ''ACTIVE'' \<and> lease_state l' = ''HELD'' \<and> lease_epoch l' = lease_epoch l"
    using assms(7) [OF l(1,2)] by blast
  then show ?thesis using l assms(1,3-6) by (auto simp: run_ok_def intro!: bexI [of _ l'])
qed

lemma reap_row_checks: "run_checks r \<Longrightarrow> run_checks (reap_row session below now' r)"
  by (auto simp: reap_row_def run_checks_def)

lemma reap_any_checks: "run_checks r \<Longrightarrow> run_checks (reap_any now' r)"
  by (auto simp: reap_any_def run_checks_def)

lemma reap_row_active: "run_state (reap_row session below now' r) = ''ACTIVE'' \<longleftrightarrow>
    run_state r = ''ACTIVE'' \<and> (run_session r = session \<longrightarrow> int below \<le> run_epoch r)"
  by (auto simp: reap_row_def)

lemma run_ok_checks: "run_ok ls r \<Longrightarrow> run_checks r"
  by (simp add: run_ok_def)

lemma table_move_runs_inv: "table_move now' ls rs ls' rs' \<Longrightarrow> leases_inv ls \<Longrightarrow> runs_inv ls rs \<Longrightarrow> runs_inv ls' rs'"
proof (induction rule: table_move.induct)
  case (move_fresh session ls caller expires rs)
  have "runs_inv (ls @ [first_tenure caller session expires]) (map (\<lambda>r. r) rs)"
    by (rule runs_inv_map [OF move_fresh.prems(2)]) (auto simp: run_ok_def)
  then show ?case by simp
next
  case (move_grant session ls r caller epoch expires rs)
  let ?ls' = "map (on_session session (tenure caller epoch expires)) ls"
  show ?case
  proof (rule runs_inv_map [OF move_grant.prems(2)])
    fix x assume x: "x \<in> set rs" "run_ok ls x"
    show "run_ok ?ls' (reap_row session epoch now' x)"
    proof (rule run_ok_leases [OF x(2) move_grant.prems(1) reap_row_checks [OF run_ok_checks [OF x(2)]]])
      fix l assume l: "l \<in> set ls" "lease_session l = run_session x"
      have le: "run_epoch x \<le> lease_epoch l" using run_ok_epoch [OF x(2) move_grant.prems(1) l] .
      show "\<exists>l' \<in> set ?ls'. lease_session l' = run_session x \<and> lease_epoch l \<le> lease_epoch l' \<and>
          (run_state (reap_row session epoch now' x) = ''ACTIVE'' \<longrightarrow>
             run_state x = ''ACTIVE'' \<and> lease_state l' = ''HELD'' \<and> lease_epoch l' = lease_epoch l)"
      proof (cases "run_session x = session")
        case True
        then have "l = r" using find_unique_row [OF move_grant.hyps(1) _ l(1)] l(2) move_grant.prems(1) by (simp add: leases_inv_def)
        then show ?thesis using l True le move_grant.hyps(3)
          by (intro bexI [of _ "on_session session (tenure caller epoch expires) l"]) (auto simp: on_session_def tenure_def reap_row_active)
      next
        case False
        then show ?thesis using l run_ok_active [OF x(2) move_grant.prems(1) _ l]
          by (intro bexI [of _ "on_session session (tenure caller epoch expires) l"]) (auto simp: on_session_def reap_row_active)
      qed
    qed simp_all
  qed simp
next
  case (move_renew r ls session caller epoch rs x)
  let ?f = "on_session session (\<lambda>r. r\<lparr>expires_ms := Some x\<rparr>)"
  have "runs_inv (map ?f ls) (map (\<lambda>r. r) rs)"
  proof (rule runs_inv_map [OF move_renew.prems(2)])
    fix y assume y: "run_ok ls y"
    show "run_ok (map ?f ls) y"
    proof (rule run_ok_leases [OF y move_renew.prems(1) run_ok_checks [OF y]])
      fix l assume l: "l \<in> set ls" "lease_session l = run_session y"
      show "\<exists>l' \<in> set (map ?f ls). lease_session l' = run_session y \<and> lease_epoch l \<le> lease_epoch l' \<and>
          (run_state y = ''ACTIVE'' \<longrightarrow> run_state y = ''ACTIVE'' \<and> lease_state l' = ''HELD'' \<and> lease_epoch l' = lease_epoch l)"
        using l run_ok_active [OF y move_renew.prems(1) _ l] by (intro bexI [of _ "?f l"]) (auto simp: on_session_def)
    qed simp_all
  qed simp
  then show ?case by simp
next
  case (move_release r ls session caller epoch rs)
  let ?ls' = "map (on_session session (surrender caller)) ls"
  show ?case
  proof (rule runs_inv_map [OF move_release.prems(2)])
    fix x assume x: "x \<in> set rs" "run_ok ls x"
    show "run_ok ?ls' (reap_row session (epoch + 1) now' x)"
    proof (rule run_ok_leases [OF x(2) move_release.prems(1) reap_row_checks [OF run_ok_checks [OF x(2)]]])
      fix l assume l: "l \<in> set ls" "lease_session l = run_session x"
      have le: "run_epoch x \<le> lease_epoch l" using run_ok_epoch [OF x(2) move_release.prems(1) l] .
      have "l = r" if "run_session x = session"
        using leases_inv_unique [OF move_release.prems(1) l(1) move_release.hyps(1)] l(2) that move_release.hyps(2) by simp
      then show "\<exists>l' \<in> set ?ls'. lease_session l' = run_session x \<and> lease_epoch l \<le> lease_epoch l' \<and>
          (run_state (reap_row session (epoch + 1) now' x) = ''ACTIVE'' \<longrightarrow>
             run_state x = ''ACTIVE'' \<and> lease_state l' = ''HELD'' \<and> lease_epoch l' = lease_epoch l)"
        using l le move_release.hyps(3) run_ok_active [OF x(2) move_release.prems(1) _ l]
        by (intro bexI [of _ "on_session session (surrender caller) l"])
          (auto simp: on_session_def surrender_def reap_row_active row_passes_def)
    qed simp_all
  qed simp
next
  case (move_end_run run session subj e x rs rs' n ls)
  then have "rs' = map (\<lambda>r. if run_run_id r = run \<and> run_session r = session \<and> run_subject r = subj \<and> run_epoch r = e \<and> run_state r = ''ACTIVE''
      then r\<lparr>run_state := ''RELEASED'', run_ended_ms := Some x\<rparr> else r) rs" by (simp add: sql_update_Ok)
  moreover have "runs_inv ls \<dots>"
    by (rule runs_inv_map [OF move_end_run.prems(2)]) (auto simp: run_ok_def run_checks_def)
  ultimately show ?case by simp
next
  case (move_restart ls rs)
  show ?case
  proof (rule runs_inv_map [OF move_restart.prems(2)])
    fix x assume x: "x \<in> set rs" "run_ok ls x"
    show "run_ok (map invalidate ls) (reap_any now' x)"
    proof (rule run_ok_leases [OF x(2) move_restart.prems(1) reap_any_checks [OF run_ok_checks [OF x(2)]]])
      fix l assume l: "l \<in> set ls" "lease_session l = run_session x"
      show "\<exists>l' \<in> set (map invalidate ls). lease_session l' = run_session x \<and> lease_epoch l \<le> lease_epoch l' \<and>
          (run_state (reap_any now' x) = ''ACTIVE'' \<longrightarrow> run_state x = ''ACTIVE'' \<and> lease_state l' = ''HELD'' \<and> lease_epoch l' = lease_epoch l)"
        using l by (intro bexI [of _ "invalidate l"]) (auto simp: invalidate_def reap_any_def)
    qed simp_all
  qed simp
next
  case (move_admit l ls caller epoch r rs)
  then have "run_ok ls r" by (auto simp: run_ok_def row_passes_def row_live_def)
  with move_admit show ?case by (simp add: runs_inv_alt)
qed simp

section \<open>The effect of a transaction\<close>

definition effect :: "(string \<Rightarrow> string) \<Rightarrow> Work \<Rightarrow> Work \<Rightarrow> bool" where
  "effect sha w w' \<longleftrightarrow> (\<exists>v ls rs inc. table_move (now w) (session_lease (tx w)) (runs (tx w)) ls rs \<and> meta_incarnation (tx w) \<le> inc \<and>
     v = w\<lparr>tx := (tx w)\<lparr>session_lease := ls, runs := rs, meta_incarnation := inc\<rparr>\<rparr> \<and> quiet sha v w')"

lemma table_move_run_ids: "table_move now' ls rs ls' rs' \<Longrightarrow> run_run_id ` set rs \<subseteq> run_run_id ` set rs'"
proof (induction rule: table_move.induct)
  case (move_end_run run session subj e x rs rs' n ls)
  then have "map run_run_id rs' = map run_run_id rs" by (auto simp: sql_update_Ok)
  then have "set (map run_run_id rs') = set (map run_run_id rs)" by (rule arg_cong)
  then show ?case by simp
qed (auto simp: image_image)

lemma effect_inv:
  assumes "effect sha w w'" "store_inv sha (tx w)"
  shows "store_inv sha (tx w')"
proof -
  obtain v ls rs inc where m: "table_move (now w) (session_lease (tx w)) (runs (tx w)) ls rs" "meta_incarnation (tx w) \<le> inc"
      "v = w\<lparr>tx := (tx w)\<lparr>session_lease := ls, runs := rs, meta_incarnation := inc\<rparr>\<rparr>" "quiet sha v w'"
    using assms(1) by (auto simp: effect_def)
  have "store_inv sha (tx v)"
    using assms(2) m(2) table_move_leases_inv [OF m(1)] table_move_runs_inv [OF m(1)] envs_inv_runs [OF _ table_move_run_ids [OF m(1)]]
    by (simp add: m(3) store_inv_def)
  then show ?thesis using quiet_inv [OF m(4)] by simp
qed

lemma effect_outbox: "effect sha w w' \<Longrightarrow> outbox sha w w'"
  unfolding effect_def by (auto dest!: quiet_outbox simp: outbox_def)

lemma effect_quiet:
  assumes "quiet sha w w'"
  shows "effect sha w w'"
proof -
  have "w = w\<lparr>tx := (tx w)\<lparr>session_lease := session_lease (tx w), runs := runs (tx w), meta_incarnation := meta_incarnation (tx w)\<rparr>\<rparr>" by simp
  then show ?thesis unfolding effect_def using assms move_none by (metis order_refl)
qed

lemma effect_move:
  assumes "table_move (now w) (session_lease (tx w)) (runs (tx w)) ls rs" "v = with_tables ls rs w" "quiet sha v w'"
  shows "effect sha w w'"
proof -
  have "v = w\<lparr>tx := (tx w)\<lparr>session_lease := ls, runs := rs, meta_incarnation := meta_incarnation (tx w)\<rparr>\<rparr>" using assms(2) by simp
  then show ?thesis unfolding effect_def using assms(1,3) by (metis order_refl)
qed

end
