(* ===== verification/Auth_Token.thy ===== *)
theory Auth_Token
  imports Auth_Fence
begin

text \<open>
  The specification of epoch fencing and its refinement. The contract is the locale \<open>fencing\<close>: an
  epoch that never falls, at most one holder of an epoch, and a holder that only a larger epoch can
  replace. It is met by the abstract token of one session, and by the lease table, whose moves are
  simulated by moves of the token.
\<close>

section \<open>The contract\<close>

locale fencing =
  fixes step :: "'s \<Rightarrow> 's \<Rightarrow> bool" and epoch_of :: "'s \<Rightarrow> nat" and holds :: "'s \<Rightarrow> 'h \<Rightarrow> nat \<Rightarrow> bool"
  assumes holds_epoch: "holds s h e \<Longrightarrow> epoch_of s = e"
    and holds_unique: "holds s h e \<Longrightarrow> holds s h' e \<Longrightarrow> h' = h"
    and step_mono: "step s s' \<Longrightarrow> epoch_of s \<le> epoch_of s'"
    and step_keeps: "step s s' \<Longrightarrow> holds s' h (epoch_of s) \<Longrightarrow> holds s h (epoch_of s)"
begin

lemma steps_mono: "step\<^sup>*\<^sup>* s s' \<Longrightarrow> epoch_of s \<le> epoch_of s'"
  by (induction rule: rtranclp_induct) (auto dest: step_mono)

lemma superseded: "step\<^sup>*\<^sup>* s s' \<Longrightarrow> e < epoch_of s \<Longrightarrow> \<not> holds s' h e"
  using steps_mono holds_epoch by fastforce

lemma steps_keep: "step\<^sup>*\<^sup>* s s' \<Longrightarrow> holds s' h (epoch_of s) \<Longrightarrow> holds s h (epoch_of s)"
proof (induction rule: converse_rtranclp_induct)
  case (step s t)
  have "epoch_of s \<le> epoch_of t" "epoch_of t \<le> epoch_of s'" using step_mono [OF step.hyps(1)] steps_mono [OF step.hyps(2)] .
  moreover have "epoch_of s' = epoch_of s" using holds_epoch [OF step.prems] .
  ultimately have "epoch_of t = epoch_of s" by simp
  then show ?case using step.IH step.prems step_keeps [OF step.hyps(1)] by simp
qed

lemma one_holder: "step\<^sup>*\<^sup>* s s' \<Longrightarrow> holds s h e \<Longrightarrow> holds s' h' e \<Longrightarrow> h' = h"
  using steps_keep holds_epoch holds_unique by metis

end

section \<open>The token of a session\<close>

text \<open>A holder is a subject's key and the numbers of its incarnation and connection.\<close>

type_synonym token_holder = "string \<times> int \<times> int"

datatype token = Free nat | Held nat token_holder int

fun token_epoch :: "token \<Rightarrow> nat" where
  "token_epoch (Free e) = e"
| "token_epoch (Held e h x) = e"

fun token_holds :: "token \<Rightarrow> token_holder \<Rightarrow> nat \<Rightarrow> bool" where
  "token_holds (Free e) h e' = False"
| "token_holds (Held e h' x) h e' \<longleftrightarrow> e' = e \<and> h' = h"

definition token_passes :: "token \<Rightarrow> token_holder \<Rightarrow> nat \<Rightarrow> nat \<Rightarrow> bool" where
  "token_passes t h e now' \<longleftrightarrow> (\<exists>x. t = Held e h x \<and> int now' < x)"

inductive token_step :: "nat \<Rightarrow> token \<Rightarrow> token \<Rightarrow> bool" for now' where
  token_stay: "token_step now' t t"
| token_grant: "token_step now' (Free e) (Held (e + 1) h x)"
| token_regrant: "x \<le> int now' \<or> snd h = snd h' \<Longrightarrow> token_step now' (Held e h x) (Held (e + 1) h' x')"
| token_renew: "int now' < x \<Longrightarrow> token_step now' (Held e h x) (Held e h x')"
| token_drop: "token_step now' (Held e h x) (Free e)"

inductive_cases token_stepE: "token_step now' t t'"

definition token_moves :: "token \<Rightarrow> token \<Rightarrow> bool" where
  "token_moves t t' \<longleftrightarrow> (\<exists>now'. token_step now' t t')"

interpretation tok: fencing token_moves token_epoch token_holds
proof
  fix s h e h' assume "token_holds s h e"
  then show "token_epoch s = e" "token_holds s h' e \<Longrightarrow> h' = h" by (cases s; simp)+
next
  fix s s' assume "token_moves s s'"
  then obtain now' where step: "token_step now' s s'" by (auto simp: token_moves_def)
  then show "token_epoch s \<le> token_epoch s'" by cases simp_all
  show "token_holds s h (token_epoch s)" if "token_holds s' h (token_epoch s)" for h
    using step that by cases simp_all
qed

section \<open>The lease table implements the token\<close>

definition row_token :: "LeaseRow \<Rightarrow> token" where
  "row_token r =
     (case (holder_subject r, holder_incarnation r, holder_connection r, expires_ms r) of
        (Some s, Some i, Some c, Some x) \<Rightarrow> Held (nat (lease_epoch r)) (s, i, c) x
      | _ \<Rightarrow> Free (nat (lease_epoch r)))"

definition token_of :: "LeaseRow list \<Rightarrow> string \<Rightarrow> token" where
  "token_of ls session = (case find (\<lambda>r. lease_session r = session) ls of Some r \<Rightarrow> row_token r | None \<Rightarrow> Free 0)"

definition caller_holder :: "CallerContext \<Rightarrow> token_holder" where
  "caller_holder caller = (storage_key (subject caller), int (incarnation (holder caller)), int (connection (holder caller)))"

lemma find_map_ids:
  fixes f :: "'r \<Rightarrow> 'r"
  shows "(\<And>r. k (f r) = k r) \<Longrightarrow> find (\<lambda>r. k r = s) (map f rows) = map_option f (find (\<lambda>r. k r = s) rows)"
  by (induction rows) auto

lemma token_of_map:
  fixes f :: "LeaseRow \<Rightarrow> LeaseRow"
  shows "(\<And>r. lease_session (f r) = lease_session r) \<Longrightarrow>
    token_of (map f ls) session = (case find (\<lambda>r. lease_session r = session) ls of Some r \<Rightarrow> row_token (f r) | None \<Rightarrow> Free 0)"
  using find_map_ids [of lease_session f session ls] by (cases "find (\<lambda>r. lease_session r = session) ls") (simp_all add: token_of_def)

lemma row_token_held:
  assumes "lease_checks r" "lease_state r = ''HELD''"
  obtains s i c x where "holder_subject r = Some s" "holder_incarnation r = Some i" "holder_connection r = Some c" "expires_ms r = Some x"
    "row_token r = Held (nat (lease_epoch r)) (s, i, c) x"
  using assms by (auto simp: lease_checks_def row_token_def)

lemma row_token_free: "lease_checks r \<Longrightarrow> lease_state r \<noteq> ''HELD'' \<Longrightarrow> row_token r = Free (nat (lease_epoch r))"
  by (simp add: lease_checks_def row_token_def)

lemma row_token_tenure: "row_token (tenure caller epoch expires r) = Held epoch (caller_holder caller) (int expires)"
  by (simp add: row_token_def tenure_def caller_holder_def)

lemma row_token_passes:
  "lease_checks r \<Longrightarrow> row_passes r caller epoch now' \<longleftrightarrow> token_passes (row_token r) (caller_holder caller) epoch now'"
  by (auto simp: token_passes_def row_passes_def row_live_def row_holder_def row_token_def caller_holder_def lease_checks_def
      split: option.splits)

lemma token_step_session:
  "token_of (map (on_session session f) ls) session' =
     (if session' = session then (case find (\<lambda>r. lease_session r = session) ls of Some r \<Rightarrow> row_token (f r) | None \<Rightarrow> Free 0)
      else token_of ls session')" if "\<And>r. lease_session (f r) = lease_session r"
proof -
  have "row_token (on_session session f r) = (if session' = session then row_token (f r) else row_token r)"
    if "find (\<lambda>r. lease_session r = session') ls = Some r" for r
    using find_row [OF that] by (simp add: on_session_def)
  then show ?thesis using token_of_map [of "on_session session f" ls session'] that
    by (auto simp: on_session_def token_of_def split: option.splits)
qed

lemma token_step_on_session:
  assumes "find (\<lambda>r. lease_session r = s) ls = Some r" "\<And>r. lease_session (f r) = lease_session r"
    "token_step now' (row_token r) (row_token (f r))"
  shows "token_step now' (token_of ls session) (token_of (map (on_session s f) ls) session)"
proof (cases "session = s")
  case True
  moreover have "token_of ls s = row_token r" using assms(1) by (simp add: token_of_def)
  ultimately show ?thesis using assms token_step_session [of f s ls session] by simp
next
  case False
  then show ?thesis using token_step_session [of f s ls session] assms(2) by (simp add: token_stay)
qed

lemma table_move_token:
  assumes "table_move now' ls rs ls' rs'" "leases_inv ls"
  shows "token_step now' (token_of ls session) (token_of ls' session)"
  using assms
proof (induction rule: table_move.induct)
  case (move_fresh s ls caller expires rs)
  have "find (\<lambda>r. lease_session r = session) (ls @ [first_tenure caller s expires]) =
      (case find (\<lambda>r. lease_session r = session) ls of Some r \<Rightarrow> Some r
       | None \<Rightarrow> if s = session then Some (first_tenure caller s expires) else None)"
    by (induction ls) auto
  moreover have "row_token (first_tenure caller s expires) = Held (0 + 1) (caller_holder caller) (int expires)"
    unfolding first_tenure_def by (simp add: row_token_tenure)
  ultimately show ?case
    using move_fresh.hyps(1) token_grant [of now' 0 "caller_holder caller" "int expires"] by (auto simp: token_of_def token_stay split: option.splits)
next
  case (move_grant s ls r caller epoch expires rs)
  have c: "lease_checks r" using find_row [OF move_grant.hyps(1)] move_grant.prems by (simp add: leases_inv_def)
  then have "1 \<le> lease_epoch r" by (simp add: lease_checks_def)
  then have e: "epoch = nat (lease_epoch r) + 1" using move_grant.hyps(3) by linarith
  have "token_step now' (row_token r) (Held epoch (caller_holder caller) (int expires))"
  proof (cases "lease_state r = ''HELD''")
    case True
    obtain u i k x where u: "holder_incarnation r = Some i" "holder_connection r = Some k" "expires_ms r = Some x"
        "row_token r = Held (nat (lease_epoch r)) (u, i, k) x" using row_token_held [OF c True] by metis
    have "x \<le> int now' \<or> snd (u, i, k) = snd (caller_holder caller)"
      using move_grant.hyps(2) True u by (auto simp: row_live_def row_holder_def caller_holder_def)
    then show ?thesis unfolding u(4) e by (rule token_regrant)
  next
    case False
    show ?thesis unfolding row_token_free [OF c False] e by (rule token_grant)
  qed
  then show ?case by (intro token_step_on_session [OF move_grant.hyps(1)]) (simp_all add: row_token_tenure)
next
  case (move_renew r ls s caller epoch rs x)
  have c: "lease_checks r" using move_renew by (simp add: leases_inv_def)
  obtain f where f: "find (\<lambda>r. lease_session r = s) ls = Some f"
    using move_renew.hyps(1,2) by (cases "find (\<lambda>r. lease_session r = s) ls") (auto simp: find_None_iff)
  have "f = r" using find_unique_row [OF f _ move_renew.hyps(1,2)] move_renew.prems by (simp add: leases_inv_def)
  moreover obtain u i k y where u: "holder_subject r = Some u" "holder_incarnation r = Some i" "holder_connection r = Some k"
      "expires_ms r = Some y" "row_token r = Held (nat (lease_epoch r)) (u, i, k) y"
    using row_token_held [OF c] move_renew.hyps(3) by (metis row_passes_def row_live_def)
  moreover have "int now' < y" using move_renew.hyps(3) u(4) by (auto simp: row_passes_def row_live_def)
  moreover have "row_token (r\<lparr>expires_ms := Some x\<rparr>) = Held (nat (lease_epoch r)) (u, i, k) x" using u by (simp add: row_token_def)
  ultimately show ?case by (intro token_step_on_session [OF f]) (simp_all add: token_renew)
next
  case (move_release r ls s caller epoch rs)
  have c: "lease_checks r" using move_release by (simp add: leases_inv_def)
  obtain f where f: "find (\<lambda>r. lease_session r = s) ls = Some f"
    using move_release.hyps(1,2) by (cases "find (\<lambda>r. lease_session r = s) ls") (auto simp: find_None_iff)
  have "f = r" using find_unique_row [OF f _ move_release.hyps(1,2)] move_release.prems by (simp add: leases_inv_def)
  moreover obtain u i k y where "row_token r = Held (nat (lease_epoch r)) (u, i, k) y"
    using row_token_held [OF c] move_release.hyps(3) by (metis row_passes_def row_live_def)
  moreover have "row_token (surrender caller r) = Free (nat (lease_epoch r))" by (simp add: row_token_def surrender_def)
  ultimately show ?case by (intro token_step_on_session [OF f]) (simp_all add: token_drop)
next
  case (move_restart ls rs)
  have "token_step now' (row_token r) (row_token (invalidate r))" if "find (\<lambda>r. lease_session r = session) ls = Some r" for r
  proof -
    have c: "lease_checks r" using find_row [OF that] move_restart.prems by (simp add: leases_inv_def)
    show ?thesis
    proof (cases "lease_state r = ''HELD''")
      case True
      then obtain u i k y where "row_token r = Held (nat (lease_epoch r)) (u, i, k) y" using row_token_held [OF c] by metis
      moreover have "row_token (invalidate r) = Free (nat (lease_epoch r))" using True by (simp add: row_token_def invalidate_def)
      ultimately show ?thesis by (simp add: token_drop)
    qed (simp add: invalidate_def token_stay)
  qed
  then show ?case using token_of_map [of invalidate ls session]
    by (cases "find (\<lambda>r. lease_session r = session) ls") (simp_all add: token_of_def token_stay)
qed (simp_all add: token_stay)

definition table_moves :: "LeaseRow list \<Rightarrow> LeaseRow list \<Rightarrow> bool" where
  "table_moves ls ls' \<longleftrightarrow> leases_inv ls \<and> (\<exists>now' rs rs'. table_move now' ls rs ls' rs')"

lemma table_moves_token: "table_moves ls ls' \<Longrightarrow> token_moves (token_of ls session) (token_of ls' session)"
  unfolding table_moves_def token_moves_def using table_move_token by blast

text \<open>The lease table meets the contract, for each session, through its token.\<close>

interpretation lease: fencing table_moves "\<lambda>ls. token_epoch (token_of ls session)" "\<lambda>ls. token_holds (token_of ls session)"
  for session
  by unfold_locales
    (use tok.holds_epoch tok.holds_unique tok.step_mono [OF table_moves_token] tok.step_keeps [OF table_moves_token] in blast)+

end
