(* ===== verification/Auth_Kernel_Laws.thy ===== *)
theory Auth_Kernel_Laws
  imports Auth_Token
begin

text \<open>
  The laws of the durable authority. The contract of a transaction's body is the locale
  \<open>store_body\<close>, met by every body of the operations modelled; what a transaction does to the store
  and to the log is proved once inside it.
\<close>

section \<open>The bodies\<close>

locale store_body =
  fixes sha :: "string \<Rightarrow> string" and body :: "Work \<Rightarrow> ('a \<times> Work, AuthorityError) result" and valid :: bool
  assumes body_effect: "valid \<Longrightarrow> store_inv sha (tx w) \<Longrightarrow> body w = Ok (x, w') \<Longrightarrow> effect sha w w'"
begin

lemma body_inv: "valid \<Longrightarrow> store_inv sha (tx w) \<Longrightarrow> body w = Ok (x, w') \<Longrightarrow> store_inv sha (tx w')"
  using body_effect effect_inv by blast

lemma body_outbox: "valid \<Longrightarrow> store_inv sha (tx w) \<Longrightarrow> body w = Ok (x, w') \<Longrightarrow> outbox sha w w'"
  using body_effect effect_outbox by blast

end

lemma effect_trans_quiet: "effect sha u v \<Longrightarrow> quiet sha v w \<Longrightarrow> effect sha u w"
  unfolding effect_def using quiet_trans by blast

lemma store_inv_leases: "store_inv sha (tx w) \<Longrightarrow> leases_inv (session_lease (tx w))"
  by (simp add: store_inv_def)

lemma acquire_effect:
  assumes "acquire sha w caller session ttl = Ok (p, w')" "utf8_ok session"
  shows "effect sha w w'"
proof -
  obtain reply td where "p = (reply, td)" by fastforce
  with assms(1) have "acquire sha w caller session ttl = Ok ((reply, td), w')" by simp
  then show ?thesis
  proof (cases rule: acquire_cases [OF _ assms(2), consumes 1, case_names held fresh granted])
    case (held r)
    then show ?thesis by (simp add: effect_quiet)
  next
    case (fresh v)
    show ?thesis
      by (rule effect_move [OF move_fresh [OF fresh(1) assms(2) fresh(6)] _ fresh(5)]) (simp add: fresh(4))
  next
    case (granted r epoch v)
    show ?thesis by (rule effect_move [OF move_grant [OF granted(1,2,3,8)] granted(6,7)])
  qed
qed

lemma heartbeat_effect:
  assumes "heartbeat sha w caller session epoch ttl = Ok (reply, w')" "utf8_ok session" "store_inv sha (tx w)"
  shows "effect sha w w'"
  using assms(1)
proof (cases rule: heartbeat_cases [OF _ assms(2) store_inv_leases [OF assms(3)], consumes 1, case_names stale renewed])
  case (renewed r)
  show ?thesis
    by (rule effect_move [OF move_renew [OF renewed(2,3,4)] _ quiet_refl]) (simp add: renewed(5))
qed (simp add: effect_quiet)

lemma lease_release_effect:
  assumes "lease_release sha w caller session epoch = Ok (p, w')" "utf8_ok session" "store_inv sha (tx w)"
  shows "effect sha w w'"
proof -
  obtain reply td where "p = (reply, td)" by fastforce
  with assms(1) have "lease_release sha w caller session epoch = Ok ((reply, td), w')" by simp
  then show ?thesis
  proof (cases rule: lease_release_cases [OF _ assms(2) store_inv_leases [OF assms(3)], consumes 1, case_names released again stale])
    case (released r v)
    show ?thesis by (rule effect_move [OF move_release [OF released(1,2,3)] released(5,6)])
  next
    case (again r)
    then show ?thesis by (simp add: effect_quiet quiet_refl)
  qed (simp add: effect_quiet)
qed

lemma run_release_effect:
  assumes "run_release sha w caller session run epoch = Ok (reply, w')" "utf8_ok session" "utf8_ok run" "store_inv sha (tx w)"
  shows "effect sha w w'"
  using assms(1)
proof (cases rule: run_release_cases [OF _ assms(2,3) store_inv_leases [OF assms(4)], consumes 1, case_names stale ended])
  case (ended l n v)
  show ?thesis
    by (rule effect_move [OF move_end_run [OF ended(5)] _ ended(7)]) (use ended(6) in \<open>simp\<close>)
qed (simp add: effect_quiet)

lemma release_run_body_effect:
  assumes "release_run_body sha caller session run epoch w = Ok (p, w')" "utf8_ok session" "utf8_ok run" "store_inv sha (tx w)"
  shows "effect sha w w'"
proof -
  obtain released v teardown where v: "run_release sha w caller session run epoch = Ok (released, v)"
      "(case released of Done True \<Rightarrow> begin_run_end sha v run ''RELEASED'' | _ \<Rightarrow> Ok ([], v)) = Ok (teardown, w')"
    using assms(1) by (auto simp: release_run_body_def and_then_Ok_iff)
  have "quiet sha v w'" using v(2) by (auto split: Reply.splits bool.splits simp: quiet_refl intro: begin_run_end_quiet)
  then show ?thesis using effect_trans_quiet run_release_effect [OF v(1) assms(2-4)] by blast
qed

lemma invalidate_all_Ok:
  assumes "invalidate_all w = Ok (p, w')"
  shows "w' = with_tables (map invalidate (session_lease (tx w))) (map (reap_any (now w)) (runs (tx w))) w"
  using assms
  by (auto simp: invalidate_all_def and_then_Ok_iff to_sql_Ok sql_update_Ok invalidate_def [abs_def] reap_any_def [abs_def]
      elim!: update_leases_Ok update_runs_Ok)

lemma begin_incarnation_effect:
  assumes "begin_incarnation_body sha created recovered w = Ok (p, w')" "store_inv sha (tx w)"
  shows "effect sha w w'"
proof -
  obtain inc u m v n x k y fs where s: "next_incarnation w = Ok (inc, u)" "invalidate_all u = Ok (m, v)"
      "environment_reconcile_open sha v = Ok (n, x)" "begin_reaped_at_start sha x = Ok (k, y)"
      "work_audit sha StoreOpened fs y = Ok w'" "wf_fields fs"
    using assms(1) by (auto simp: begin_incarnation_body_def and_then_Ok_iff)
  have u: "u = w\<lparr>tx := (tx w)\<lparr>meta_incarnation := meta_incarnation (tx w) + 1\<rparr>\<rparr>"
    using s(1) by (auto simp: next_incarnation_def and_then_Ok_iff work_db_def update_store_meta_def split: if_splits)
  have v: "v = w\<lparr>tx := (tx w)\<lparr>session_lease := map invalidate (session_lease (tx w)), runs := map (reap_any (now w)) (runs (tx w)),
      meta_incarnation := meta_incarnation (tx w) + 1\<rparr>\<rparr>"
    using invalidate_all_Ok [OF s(2)] by (simp add: u)
  have "effect sha w v" unfolding effect_def
    by (rule exI [of _ v], rule exI [of _ "map invalidate (session_lease (tx w))"], rule exI [of _ "map (reap_any (now w)) (runs (tx w))"],
        rule exI [of _ "meta_incarnation (tx w) + 1"]) (use v move_restart quiet_refl in simp)
  moreover have "quiet sha v x" using environment_reconcile_open_quiet [OF s(3)] effect_inv [OF calculation assms(2)] .
  moreover have "quiet sha x y" using begin_reaped_at_start_quiet [OF s(4)] .
  moreover have "quiet sha y w'" using quiet_audit1 [OF s(5,6)] .
  ultimately show ?thesis using effect_trans_quiet quiet_trans by blast
qed

interpretation acquire_body: store_body sha "\<lambda>w. acquire sha w caller session ttl" "utf8_ok session" for sha caller session ttl
  by unfold_locales (auto intro: acquire_effect)

interpretation heartbeat_body: store_body sha "\<lambda>w. heartbeat sha w caller session epoch ttl" "utf8_ok session"
  for sha caller session epoch ttl
  by unfold_locales (auto intro: heartbeat_effect)

interpretation release_body: store_body sha "\<lambda>w. lease_release sha w caller session epoch" "utf8_ok session"
  for sha caller session epoch
  by unfold_locales (auto intro: lease_release_effect)

interpretation run_body: store_body sha "release_run_body sha caller session run epoch" "utf8_ok session \<and> utf8_ok run"
  for sha caller session run epoch
  by unfold_locales (auto intro: release_run_body_effect)

interpretation destroy_body: store_body sha "\<lambda>w. begin_destroy sha w e reason" "utf8_ok reason" for sha e reason
  by unfold_locales (auto intro: effect_quiet begin_destroy_quiet)

interpretation destroyed_body: store_body sha "\<lambda>w. and_then (record_destroyed sha w r ending timing) (\<lambda>w. Ok ((), w))"
    "wf_record r \<and> wf_ending ending \<and> wf_fields timing" for sha r ending timing
  by unfold_locales (auto simp: and_then_Ok_iff intro: effect_quiet record_destroyed_quiet)

interpretation incarnation_body: store_body sha "begin_incarnation_body sha created recovered" True for sha created recovered
  by unfold_locales (auto intro: begin_incarnation_effect)

section \<open>A flush that fails\<close>

definition benign :: "flush_env \<Rightarrow> FlushFailure \<Rightarrow> bool" where
  "benign env f \<longleftrightarrow> (case f of FlushSqlite _ \<Rightarrow> False | Stopped e \<Rightarrow> (\<exists>i p. crash_hook env i p = Err e) | _ \<Rightarrow> True)"

lemma benign_simps [simp]:
  "benign env FlushIo" "benign env (FlushDiverged why)" "\<not> benign env (FlushSqlite x)"
  by (simp_all add: benign_def)

lemma benign_stop [intro]: "crash_hook env i p = Err e \<Longrightarrow> benign env (Stopped e)"
  by (auto simp: benign_def)

lemma flush_rows_benign: "flush_rows env i rows n h out = (Err f, out') \<Longrightarrow> benign env f"
proof (induction rows arbitrary: i n h out)
  case (Cons row rows)
  then show ?case by (auto simp: Let_def split: if_splits sum.splits option.splits prod.splits bool.splits)
qed simp

lemma flush_mark_benign:
  assumes "audit_inv sha t" "durable_seq w \<le> length (audit_chain t)" "flushed_seq t \<le> int (durable_seq w)"
    and e: "chain_end sha 0 Sha256Hash_ZERO (take (durable_seq w) (audit_chain t)) = Some (durable_hash w)"
    and m: "flush_mark env i w t = (t', Err f)"
  shows "benign env f"
proof -
  have h: "length (to_hex (durable_hash w)) = 64" using chain_end_wf [OF e wf_ZERO] by (simp add: length_to_hex wf_hash_def)
  have "update_audit_state (int (durable_seq w)) (to_hex (durable_hash w)) t =
      Ok (t\<lparr>flushed_seq := int (durable_seq w), flushed_hash := to_hex (durable_hash w)\<rparr>)"
    using assms(1-3) h by (simp add: update_audit_state_def audit_inv_def)
  then show ?thesis using m by (auto simp: flush_mark_def split: sum.splits if_splits)
qed

lemma flush_through_benign:
  assumes inv: "audit_inv sha t" and w: "writer_ok sha t l w" and f: "flush_through env target (w, l, t) = (st, Err fl)"
  shows "benign env fl"
proof -
  let ?rows = "audit_chain t" let ?d = "durable_seq w"
  obtain e where e: "chain_end sha 0 Sha256Hash_ZERO ?rows = Some e" using audit_inv_end [OF inv] .
  have d: "?d \<le> length ?rows" "chain_end sha 0 Sha256Hash_ZERO (take ?d ?rows) = Some (durable_hash w)"
    using w by (auto simp: writer_ok_def)
  have rest: "chain_end sha ?d (durable_hash w) (drop ?d ?rows) = Some e"
    using e d chain_end_append [of sha 0 Sha256Hash_ZERO "take ?d ?rows" "drop ?d ?rows"] by simp
  have b: "?d + length (drop ?d ?rows) < U64_MAX"
    using inv d(1) by (simp add: audit_inv_def AUDIT_MAX_SAFE_INTEGER_def U64_MAX_def)
  obtain fr out where fr: "flush_rows env 0 (drop ?d ?rows) ?d (durable_hash w) (contents l) = (fr, out)" by fastforce
  note rows = flush_rows_chain [OF rest b fr] and fl = f [unfolded flush_through_def prod.case pending_rows [OF e] fr Let_def]
  show ?thesis
  proof (cases fr)
    case (Inl failure)
    then have "benign env failure" using flush_rows_benign fr by blast
    then show ?thesis using fl Inl by (auto split: if_splits sum.splits)
  next
    case (Inr p)
    then have p: "fr = Ok (length ?rows, e)" using rows d(1) by simp
    have "benign env g" if "flush_mark env i \<lparr>durable_seq = length ?rows, durable_hash = e\<rparr> t = (t', Err g)" for i g t'
      by (rule flush_mark_benign [OF inv _ _ _ that]) (use inv e in \<open>auto simp: audit_inv_def\<close>)
    then show ?thesis using fl p by (auto split: if_splits sum.splits prod.splits)
  qed
qed

section \<open>What a transaction does\<close>

text \<open>What the laws of the log say of the authority: a poisoned store has no writer.\<close>

definition audit_view :: "Authority \<Rightarrow> audit_system" where
  "audit_view a = \<lparr>tables = audit (store a), log = audit_log a,
     writer = (if poison_reason a = None then audit_writer a else None)\<rparr>"

definition kernel_inv :: "(string \<Rightarrow> string) \<Rightarrow> Authority \<Rightarrow> bool" where
  "kernel_inv sha a \<longleftrightarrow> store_inv sha (store a) \<and> sys_inv sha (audit_view a) \<and> (poison_reason a = None \<longrightarrow> audit_writer a \<noteq> None)"

lemma audit_view_simps [simp]:
  "tables (audit_view a) = audit (store a)" "log (audit_view a) = audit_log a"
  "writer (audit_view a) = (if poison_reason a = None then audit_writer a else None)"
  by (simp_all add: audit_view_def)

lemma poison_simps [simp]:
  "store (snd (Shared_poison reason a)) = store a" "audit_log (snd (Shared_poison reason a)) = audit_log a"
  "audit_writer (snd (Shared_poison reason a)) = audit_writer a" "poison_reason (snd (Shared_poison reason a)) \<noteq> None"
  by (auto simp: Shared_poison_def split: option.splits)

lemma sql_simps [simp]:
  "store (snd (Shared_sql error a)) = store a" "audit_log (snd (Shared_sql error a)) = audit_log a"
  "audit_writer (snd (Shared_sql error a)) = audit_writer a"
  by (auto simp: Shared_sql_def split: Class.splits)

lemma stopped_simps [simp]:
  "store (stopped error a) = store a" "audit_log (stopped error a) = audit_log a" "audit_writer (stopped error a) = audit_writer a"
  by (auto simp: stopped_def split: AuthorityError.splits)

lemma err_of_simps [simp]: "err_of p = (r, a') \<longleftrightarrow> r = Err (fst p) \<and> a' = snd p"
  by (auto simp: err_of_def)

lemma Shared_crash_cases:
  assumes "Shared_crash action point a = (r, a')"
  obtains (ok) "r = Ok ()" "a' = a" | (stop) "r = Err (Poisoned (Interrupted point))" "a' = snd (Shared_poison (Interrupted point) a)"
  using assms by (auto simp: Shared_crash_def Shared_poison_def split: if_splits)

lemma Shared_check_Ok: "Shared_check a = Ok u \<longleftrightarrow> poison_reason a = None"
  by (auto simp: Shared_check_def split: option.splits)

lemma transact_cases:
  assumes "transact env body a = (r, a')"
  obtains (failed) e where "r = Err e" "store a' = store a" "audit_log a' = audit_log a" "audit_writer a' = audit_writer a"
      "poison_reason a \<noteq> None \<Longrightarrow> a' = a"
  | (committed) x w where "poison_reason a = None" "body (work_of env a) = Ok (x, w)" "last_seq w = None" "r = Ok x" "a' = a\<lparr>store := tx w\<rparr>"
  | (flushed) x w n fr where "poison_reason a = None" "body (work_of env a) = Ok (x, w)" "last_seq w = Some n"
      "Shared_flush env n (a\<lparr>store := tx w\<rparr>) = (fr, a')" "r = (case fr of Inl e \<Rightarrow> Err e | Inr _ \<Rightarrow> Ok x)"
proof (cases "poison_reason a")
  case (Some why)
  then have "r = Err (Poisoned why)" "a' = a" using assms by (simp_all add: transact_def Shared_check_def)
  then show thesis by (auto intro: failed)
next
  case None
  then have chk: "Shared_check a = Ok ()" by (simp add: Shared_check_def)
  obtain r0 b0 where c0: "Shared_crash (hook env 0 BeforeTransaction) BeforeTransaction a = (r0, b0)" by fastforce
  obtain r1 b1 where c1: "Shared_crash (hook env 1 BeforeCommit) BeforeCommit a = (r1, b1)" by fastforce
  note t = assms [unfolded transact_def chk sum.case c0 prod.case]
  have fail: thesis if "r = Err e" "store a' = store a" "audit_log a' = audit_log a" "audit_writer a' = audit_writer a" for e
    using failed that None by simp
  from c0 show thesis
  proof (cases rule: Shared_crash_cases)
    case stop
    then show thesis using t by (auto intro: fail)
  next
    case ok
    note t0 = t [unfolded ok sum.case]
    show thesis
    proof (cases "begin_error env")
      case (Some error)
      then show thesis using t0 by (auto intro: fail)
    next
      case nobegin: None
      show thesis
      proof (cases "body (work_of env a)")
        case (Inl error)
        then show thesis using t0 nobegin by (auto intro: fail)
      next
        case (Inr p)
        obtain x w where xw: "body (work_of env a) = Ok (x, w)" using Inr by (cases p) simp
        note t1 = t0 [unfolded nobegin option.case xw sum.case prod.case c1]
        from c1 show thesis
        proof (cases rule: Shared_crash_cases)
          case stop
          then show thesis using t1 by (auto intro: fail)
        next
          case ok
          note t2 = t1 [unfolded ok sum.case Let_def]
          show thesis
          proof (cases "commit_error env")
            case (Some error)
            then show thesis using t2 by (auto intro: fail)
          next
            case nocommit: None
            show thesis
            proof (cases "last_seq w")
              case None
              then show thesis using t2 nocommit committed [OF \<open>poison_reason a = None\<close> xw] by simp
            next
              case (Some n)
              obtain fr b where "Shared_flush env n (a\<lparr>store := tx w\<rparr>) = (fr, b)" by fastforce
              then show thesis using t2 nocommit Some flushed [OF \<open>poison_reason a = None\<close> xw] by (auto split: sum.splits)
            qed
          qed
        qed
      qed
    qed
  qed
qed

lemma Shared_flush_cases:
  assumes "Shared_flush env n a = (fr, a')" "poison_reason a = None" "audit_writer a = Some w"
    and inv: "audit_inv sha (audit (store a))" "writer_ok sha (audit (store a)) (audit_log a) w"
  obtains (ok) w' l t where "flush_through (flush_env_of env) n (w, audit_log a, audit (store a)) = ((w', l, t), Ok ())" "fr = Ok ()"
      "a' = a\<lparr>audit_writer := Some w', audit_log := l, store := (store a)\<lparr>audit := t\<rparr>\<rparr>"
  | (err) w' l t f e where "flush_through (flush_env_of env) n (w, audit_log a, audit (store a)) = ((w', l, t), Err f)" "fr = Err e"
      "poison_reason a' \<noteq> None" "store a' = (store a)\<lparr>audit := t\<rparr>" "audit_log a' = l"
proof -
  obtain w' l t r where f: "flush_through (flush_env_of env) n (w, audit_log a, audit (store a)) = ((w', l, t), r)"
    by (metis prod.exhaust)
  let ?b = "a\<lparr>audit_writer := Some w', audit_log := l, store := (store a)\<lparr>audit := t\<rparr>\<rparr>"
  have s: "(fr, a') = (case r of Inr _ \<Rightarrow> (Ok (), ?b) | Inl (Stopped error) \<Rightarrow> (Err error, stopped error ?b)
      | Inl FlushIo \<Rightarrow> err_of (Shared_poison AuditIo ?b) | Inl (FlushSqlite error) \<Rightarrow> err_of (Shared_sql error ?b)
      | Inl (FlushDiverged why) \<Rightarrow> err_of (Shared_poison (AuditDiverged why) ?b))"
    using assms(1-3) f by (simp add: Shared_flush_def Shared_check_def Let_def)
  show thesis
  proof (cases r)
    case (Inr u)
    then show thesis using ok [of w' l t] f s by simp
  next
    case (Inl g)
    have b: "benign (flush_env_of env) g" using flush_through_benign [OF inv] f Inl by blast
    have "poison_reason a' \<noteq> None \<and> store a' = (store a)\<lparr>audit := t\<rparr> \<and> audit_log a' = l \<and> (\<exists>e. fr = Err e)"
    proof (cases g)
      case (Stopped e)
      then obtain p where "e = Poisoned (Interrupted p)" using b by (auto simp: benign_def flush_env_of_def split: if_splits)
      then show ?thesis using s Inl Stopped by (simp add: stopped_def)
    qed (use s Inl b in \<open>auto simp: err_of_def Shared_poison_def split: option.splits\<close>)
    then show thesis using err f Inl by blast
  qed
qed

lemma appends_steps:
  "appends sha t u \<Longrightarrow> (audit_step sha)\<^sup>*\<^sup>* (s\<lparr>tables := t\<rparr>) (s\<lparr>tables := u\<rparr>)"
proof (induction rule: appends.induct)
  case (appends_step t u fs ts event v n)
  have "audit_step sha (s\<lparr>tables := u\<rparr>) ((s\<lparr>tables := u\<rparr>)\<lparr>tables := v\<rparr>)"
    using Commit [OF appends_step.hyps(2), of sha ts event "s\<lparr>tables := u\<rparr>"] appends_step.hyps(3) by simp
  then show ?case using appends_step.IH by (simp add: rtranclp.rtrancl_into_rtrancl)
qed simp

lemma drop_writer: "sys_inv sha s \<Longrightarrow> audit_step sha s (s\<lparr>writer := None\<rparr>)"
  using Crash [of s "length (contents (log s))" sha] by (simp add: sys_inv_def log_ok_def)

text \<open>
  The outcome of a transaction. Done: the body's tables are committed, the store is not poisoned, and
  if the body wrote records, the whole outbox is in the log and synced. Failed: nothing changed, or
  the store is poisoned.
\<close>

definition durable :: "Authority \<Rightarrow> bool" where
  "durable a \<longleftrightarrow> contents (audit_log a) = log_bytes (audit_chain (audit (store a))) \<and> synced (audit_log a) = length (contents (audit_log a))"

definition outcome :: "tx_env \<Rightarrow> (Work \<Rightarrow> ('a \<times> Work, AuthorityError) result) \<Rightarrow> Authority \<Rightarrow> ('a, AuthorityError) result \<Rightarrow> Authority \<Rightarrow> bool" where
  "outcome env body a r a' \<longleftrightarrow>
     (case r of
        Inr x \<Rightarrow> poison_reason a' = None \<and> (\<exists>w. body (work_of env a) = Ok (x, w) \<and> store a' = (tx w)\<lparr>audit := audit (store a')\<rparr> \<and>
           audit_chain (audit (store a')) = audit_chain (audit (tx w)) \<and> (last_seq w \<noteq> None \<longrightarrow> durable a'))
      | Inl e \<Rightarrow> store a' = store a \<and> audit_log a' = audit_log a \<or> poison_reason a' \<noteq> None)"

text \<open>The tables after a transaction are those before, or those its body left.\<close>

definition committed_tables :: "tx_env \<Rightarrow> (Work \<Rightarrow> ('a \<times> Work, AuthorityError) result) \<Rightarrow> Authority \<Rightarrow> Authority \<Rightarrow> bool" where
  "committed_tables env body a a' \<longleftrightarrow> store a' = (store a)\<lparr>audit := audit (store a')\<rparr> \<or>
     (\<exists>x w. body (work_of env a) = Ok (x, w) \<and> store a' = (tx w)\<lparr>audit := audit (store a')\<rparr>)"

context store_body
begin

lemma transact_law:
  assumes valid and inv: "kernel_inv sha a" and t: "transact env body a = (r, a')"
  shows "kernel_inv sha a' \<and> (audit_step sha)\<^sup>*\<^sup>* (audit_view a) (audit_view a') \<and> outcome env body a r a' \<and> committed_tables env body a a'"
  using t
proof (cases rule: transact_cases)
  case (failed e)
  have steps: "(audit_step sha)\<^sup>*\<^sup>* (audit_view a) (audit_view a')"
  proof (cases "poison_reason a' = poison_reason a")
    case True
    then show ?thesis using failed by (simp add: audit_view_def)
  next
    case False
    then have "poison_reason a = None" using failed(5) by (cases "poison_reason a = None") simp_all
    then have "audit_view a' = (audit_view a)\<lparr>writer := None\<rparr>" using False failed by (auto simp: audit_view_def)
    then show ?thesis using drop_writer [of sha "audit_view a"] inv by (auto simp: kernel_inv_def)
  qed
  have "poison_reason a \<noteq> None" if "poison_reason a' = None" "audit_writer a' = None"
    using inv failed that by (auto simp: kernel_inv_def)
  then have "kernel_inv sha a'"
    using inv failed audit_steps_inv [OF steps] by (auto simp: kernel_inv_def)
  then show ?thesis using steps failed by (simp add: outcome_def committed_tables_def)
next
  case (committed x w)
  have si: "store_inv sha (tx (work_of env a))" using inv by (simp add: kernel_inv_def work_of_def)
  have "outbox sha (work_of env a) w" using body_outbox [OF \<open>valid\<close> si committed(2)] .
  then have same: "audit (tx w) = audit (store a)"
    using committed(3) si by (auto simp: outbox_def work_of_def store_inv_def)
  then have v: "audit_view a' = audit_view a" using committed by (simp add: audit_view_def)
  have "kernel_inv sha a'"
    using inv v body_inv [OF \<open>valid\<close> si committed(2)] committed by (simp add: kernel_inv_def)
  then show ?thesis using v committed by (auto simp: outcome_def committed_tables_def)
next
  case (flushed x w n fr)
  let ?b = "a\<lparr>store := tx w\<rparr>"
  have si: "store_inv sha (tx (work_of env a))" using inv by (simp add: kernel_inv_def work_of_def)
  have sw: "store_inv sha (tx w)" using body_inv [OF \<open>valid\<close> si flushed(2)] .
  have ob: "outbox sha (work_of env a) w" using body_outbox [OF \<open>valid\<close> si flushed(2)] .
  have "(audit_step sha)\<^sup>*\<^sup>* ((audit_view a)\<lparr>tables := audit (store a)\<rparr>) ((audit_view a)\<lparr>tables := audit (tx w)\<rparr>)"
    using ob by (intro appends_steps) (simp add: outbox_def work_of_def)
  then have steps: "(audit_step sha)\<^sup>*\<^sup>* (audit_view a) (audit_view ?b)" using flushed(1) by (simp add: audit_view_def)
  then have vb: "sys_inv sha (audit_view ?b)" using inv audit_steps_inv [OF steps] by (simp add: kernel_inv_def)
  obtain wr where wr: "audit_writer a = Some wr" using inv flushed(1) by (auto simp: kernel_inv_def)
  have ai: "audit_inv sha (audit (store ?b))" "log_ok (audit (store ?b)) (audit_log ?b)" "writer_ok sha (audit (store ?b)) (audit_log ?b) wr"
    using vb flushed(1) wr by (simp_all add: sys_inv_def)
  have n: "n = length (audit_chain (audit (tx w)))"
    using ob flushed(3) si by (auto simp: outbox_def work_of_def store_inv_def)
  have pb: "poison_reason ?b = None" "audit_writer ?b = Some wr" using flushed(1) wr by simp_all
  from flushed(4) show ?thesis
  proof (cases rule: Shared_flush_cases [OF _ pb ai(1,3), consumes 1, case_names ok err])
    case (ok w' l t)
    note f = flush_through_inv [OF ai ok(1)]
    have "audit_step sha (audit_view ?b) \<lparr>tables = t, log = l, writer = Some w'\<rparr>"
      by (rule Flush [of _ wr]) (use pb ok(1) in simp_all)
    moreover have "audit_view a' = \<lparr>tables = t, log = l, writer = Some w'\<rparr>" using ok(3) pb(1) by (simp add: audit_view_def)
    ultimately have st: "(audit_step sha)\<^sup>*\<^sup>* (audit_view a) (audit_view a')" using steps by simp
    have "writer_ok sha t l w'" "n \<le> durable_seq w'" "audit_chain t = audit_chain (audit (tx w))" using f by simp_all
    then have "durable a'" using n ok(3) by (simp add: durable_def writer_ok_def)
    moreover have "kernel_inv sha a'"
      using sw f ok(3) pb(1) by (auto simp: kernel_inv_def sys_inv_def store_inv_def)
    ultimately show ?thesis using st flushed(2,5) ok f pb(1) by (auto simp: outcome_def committed_tables_def)
  next
    case (err w' l t g e)
    note f = flush_through_inv [OF ai err(1)]
    have "audit_step sha (audit_view ?b) \<lparr>tables = t, log = l, writer = None\<rparr>"
      by (rule FlushFails [of _ wr]) (use pb err(1) in simp_all)
    moreover have "audit_view a' = \<lparr>tables = t, log = l, writer = None\<rparr>" using err(3-5) by (auto simp: audit_view_def)
    ultimately have st: "(audit_step sha)\<^sup>*\<^sup>* (audit_view a) (audit_view a')" using steps by simp
    have "kernel_inv sha a'" using sw f err(3-5) by (auto simp: kernel_inv_def sys_inv_def store_inv_def)
    then show ?thesis using st flushed(2,5) err(2-5) by (auto simp: outcome_def committed_tables_def)
  qed
qed

end

end
