(* ===== verification/Auth_System.thy ===== *)
theory Auth_System
  imports Auth_Kernel_Laws
begin

text \<open>
  The authority as a system: its public operations on leases, runs and environments, the admission
  of runs, crashes and restarts as one step relation, and what every step keeps. Admission and the
  operations of the other ledgers are represented by their effect on these tables: the only row
  an admission adds is the run \<open>persist_run\<close> inserts behind the fence.
\<close>

section \<open>Admission and restart\<close>

definition persist_run :: "CallerContext \<Rightarrow> string \<Rightarrow> nat \<Rightarrow> string \<Rightarrow> int \<Rightarrow> int \<Rightarrow> Work \<Rightarrow> (string \<times> Work, AuthorityError) result" where
  "persist_run caller session epoch profile revision activation work =
     and_then (work_run_id work) (\<lambda>(run_id, work).
     and_then (to_sql epoch) (\<lambda>epoch_sql.
     and_then (to_sql (now work)) (\<lambda>now_sql.
     and_then (work_db (sql_insert run_run_id (insert_run_refuses (session_lease (tx work)))
       \<lparr>run_run_id = run_id, run_session = session, run_subject = storage_key (subject caller), run_epoch = epoch_sql,
        run_profile = profile, run_profile_revision = revision, run_activation = activation, run_state = ''ACTIVE'',
        run_admitted_ms = now_sql, run_ended_ms = None\<rparr> (runs (tx work)))) (\<lambda>rows.
       Ok (run_id, work\<lparr>tx := (tx work)\<lparr>runs := rows\<rparr>\<rparr>)))))"

definition admits :: "(string \<Rightarrow> string) \<Rightarrow> (Work \<Rightarrow> (unit \<times> Work, AuthorityError) result) \<Rightarrow> bool" where
  "admits sha body \<longleftrightarrow> (\<forall>w x w'. body w = Ok (x, w') \<longrightarrow> quiet sha w w' \<or>
     (\<exists>caller session epoch profile revision activation i v. fence w caller session epoch = Ok True \<and>
        persist_run caller session epoch profile revision activation w = Ok (i, v) \<and> quiet sha v w'))"

text \<open>
  The part of \<^verbatim>\<open>Authority::start\<close> that concerns these tables: the log is recovered, the shared
  state is new, and the incarnation begins.
\<close>

definition reopened :: "Recovered \<Rightarrow> AuditTables \<Rightarrow> string \<Rightarrow> Authority \<Rightarrow> Authority" where
  "reopened recovered t f self =
     \<lparr>poison_reason = None, quarantined = quarantined self, auth_incarnation = 0, auth_instance = auth_instance self,
      next_connection = 0, lease_ttl_ms = lease_ttl_ms self, store = (store self)\<lparr>audit := t\<rparr>,
      audit_log = \<lparr>contents = f, synced = length f\<rparr>, audit_writer = Some (AuditWriter_open recovered)\<rparr>"

definition restart :: "(string \<Rightarrow> string) \<Rightarrow> tx_env \<Rightarrow> bool \<Rightarrow> Authority \<Rightarrow>
    (RecoveryError, (nat \<times> nat \<times> nat, AuthorityError) result \<times> Authority) sum" where
  "restart sha env created self =
     (case recover sha (audit (store self)) (contents (audit_log self)) of
        Inl e \<Rightarrow> Inl e
      | Inr (recovered, t, f) \<Rightarrow> Inr (begin_incarnation sha env created recovered (reopened recovered t f self)))"

section \<open>The steps\<close>

definition wf_denv :: "destroy_env \<Rightarrow> bool" where
  "wf_denv denv \<longleftrightarrow> (\<forall>e run c i. wf_ending (fst (broker_destroy denv e run c i)))"

inductive kernel_step :: "(string \<Rightarrow> string) \<Rightarrow> Authority \<Rightarrow> Authority \<Rightarrow> bool" for sha where
  Connects: "connect subj a = (caller, a') \<Longrightarrow> kernel_step sha a a'"
| Acquires: "SessionId_parse session = Some session \<Longrightarrow> wf_denv denv \<Longrightarrow> acquire_lease sha env denv caller session a = (r, a') \<Longrightarrow>
    kernel_step sha a a'"
| Heartbeats: "SessionId_parse session = Some session \<Longrightarrow> heartbeat_lease sha env caller session epoch a = (r, a') \<Longrightarrow> kernel_step sha a a'"
| Releases: "SessionId_parse session = Some session \<Longrightarrow> wf_denv denv \<Longrightarrow> release_lease sha env denv caller session epoch a = (r, a') \<Longrightarrow>
    kernel_step sha a a'"
| ReleasesRun: "SessionId_parse session = Some session \<Longrightarrow> RunId_parse run = Some run \<Longrightarrow> wf_denv denv \<Longrightarrow>
    release_run sha env denv caller session run epoch a = (r, a') \<Longrightarrow> kernel_step sha a a'"
| Destroys: "wf_denv denv \<Longrightarrow> environment_destroy sha env denv e a = (r, a') \<Longrightarrow> kernel_step sha a a'"
| Admits: "admits sha body \<Longrightarrow> transact env body a = (r, a') \<Longrightarrow> kernel_step sha a a'"
| Crashes: "synced (audit_log a) \<le> m \<Longrightarrow> kernel_step sha a
    (a\<lparr>audit_log := (audit_log a)\<lparr>contents := take m (contents (audit_log a))\<rparr>, poison_reason := Some (Interrupted point)\<rparr>)"
| Starts: "restart sha env created a = Inr (Ok n, a') \<Longrightarrow> kernel_step sha a a'"
| StartFails: "restart sha env created a = Inr (Err e, b) \<Longrightarrow> kernel_step sha a (b\<lparr>poison_reason := Some (Interrupted point)\<rparr>)"

definition kernel_init :: "nat \<Rightarrow> nat \<Rightarrow> Authority" where
  "kernel_init instance' ttl =
     \<lparr>poison_reason = Some (Interrupted BeforeTransaction), quarantined = False, auth_incarnation = 0, auth_instance = instance',
      next_connection = 0, lease_ttl_ms = ttl, store = new_store, audit_log = \<lparr>contents = [], synced = 0\<rparr>, audit_writer = None\<rparr>"

inductive kernel_reachable :: "(string \<Rightarrow> string) \<Rightarrow> Authority \<Rightarrow> bool" for sha where
  kernel_reachable_init: "kernel_reachable sha (kernel_init instance' ttl)"
| kernel_reachable_step: "kernel_reachable sha a \<Longrightarrow> kernel_step sha a a' \<Longrightarrow> kernel_reachable sha a'"

section \<open>What a sequence of transactions keeps\<close>

definition runs_kept :: "RunRow list \<Rightarrow> RunRow list \<Rightarrow> bool" where
  "runs_kept rs rs' \<longleftrightarrow> (\<forall>r \<in> set rs. \<exists>r' \<in> set rs'. run_run_id r' = run_run_id r \<and> run_session r' = run_session r \<and>
     run_epoch r' = run_epoch r \<and> (run_state r \<noteq> ''ACTIVE'' \<longrightarrow> r' = r))"

lemma runs_kept_refl: "runs_kept rs rs"
  by (auto simp: runs_kept_def)

lemma runs_kept_trans: "runs_kept rs rs' \<Longrightarrow> runs_kept rs' rs'' \<Longrightarrow> runs_kept rs rs''"
  unfolding runs_kept_def by metis

lemma runs_kept_map:
  assumes "\<And>r. run_run_id (f r) = run_run_id r \<and> run_session (f r) = run_session r \<and> run_epoch (f r) = run_epoch r \<and>
    (run_state r \<noteq> ''ACTIVE'' \<longrightarrow> f r = r)"
  shows "runs_kept rs (map f rs)"
  unfolding runs_kept_def using assms by (metis (no_types, lifting) image_eqI set_map)

lemma table_move_runs_kept: "table_move now' ls rs ls' rs' \<Longrightarrow> runs_kept rs rs'"
proof (induction rule: table_move.induct)
  case (move_end_run run session subj e x rs rs' n ls)
  then have "rs' = map (\<lambda>r. if run_run_id r = run \<and> run_session r = session \<and> run_subject r = subj \<and> run_epoch r = e \<and> run_state r = ''ACTIVE''
      then r\<lparr>run_state := ''RELEASED'', run_ended_ms := Some x\<rparr> else r) rs" by (simp add: sql_update_Ok)
  moreover have "runs_kept rs \<dots>" by (rule runs_kept_map) simp
  ultimately show ?case by simp
qed (auto simp: runs_kept_refl reap_row_def reap_any_def intro!: runs_kept_map, auto simp: runs_kept_def)

definition kernel_moves :: "(string \<Rightarrow> string) \<Rightarrow> Authority \<Rightarrow> Authority \<Rightarrow> bool" where
  "kernel_moves sha a a' \<longleftrightarrow> kernel_inv sha a' \<and> (audit_step sha)\<^sup>*\<^sup>* (audit_view a) (audit_view a') \<and>
     table_moves\<^sup>*\<^sup>* (session_lease (store a)) (session_lease (store a')) \<and> runs_kept (runs (store a)) (runs (store a'))"

lemma kernel_moves_trans: "kernel_moves sha a b \<Longrightarrow> kernel_moves sha b c \<Longrightarrow> kernel_moves sha a c"
  unfolding kernel_moves_def using runs_kept_trans by (meson rtranclp_trans)

lemma kernel_moves_same:
  "kernel_inv sha a \<Longrightarrow> store a' = store a \<Longrightarrow> audit_log a' = audit_log a \<Longrightarrow> audit_writer a' = audit_writer a \<Longrightarrow>
     poison_reason a' = poison_reason a \<Longrightarrow> kernel_moves sha a a'"
  by (auto simp: kernel_moves_def kernel_inv_def audit_view_def runs_kept_refl)

lemma kernel_moves_stop:
  assumes "kernel_inv sha a" "store a' = store a" "audit_log a' = audit_log a" "poison_reason a' \<noteq> None"
  shows "kernel_moves sha a a'"
proof -
  have "audit_view a' = (audit_view a)\<lparr>writer := None\<rparr>" using assms by (auto simp: audit_view_def)
  then have s: "(audit_step sha)\<^sup>*\<^sup>* (audit_view a) (audit_view a')"
    using drop_writer [of sha "audit_view a"] assms(1) by (auto simp: kernel_inv_def)
  then show ?thesis using assms audit_steps_inv [OF s] by (auto simp: kernel_moves_def kernel_inv_def runs_kept_refl)
qed

lemma effect_tables:
  assumes "effect sha w w'" "store_inv sha (tx w)"
  shows "table_moves (session_lease (tx w)) (session_lease (tx w')) \<and> runs_kept (runs (tx w)) (runs (tx w'))"
proof -
  obtain v ls rs inc where m: "table_move (now w) (session_lease (tx w)) (runs (tx w)) ls rs"
      "v = w\<lparr>tx := (tx w)\<lparr>session_lease := ls, runs := rs, meta_incarnation := inc\<rparr>\<rparr>" "quiet sha v w'"
    using assms(1) by (auto simp: effect_def)
  have "session_lease (tx w') = ls" "runs (tx w') = rs" using quiet_frame [OF m(3)] m(2) by simp_all
  then show ?thesis using m(1) assms(2) table_move_runs_kept [OF m(1)] by (auto simp: table_moves_def store_inv_def)
qed

context store_body
begin

lemma transact_moves:
  assumes valid "kernel_inv sha a" "transact env body a = (r, a')"
  shows "kernel_moves sha a a'"
proof -
  note law = transact_law [OF assms]
  have "table_moves\<^sup>*\<^sup>* (session_lease (store a)) (session_lease (store a')) \<and> runs_kept (runs (store a)) (runs (store a'))"
  proof (cases "store a' = (store a)\<lparr>audit := audit (store a')\<rparr>")
    case True
    have "session_lease (store a') = session_lease (store a)" "runs (store a') = runs (store a)"
      by (subst True, simp)+
    then show ?thesis by (simp add: runs_kept_refl)
  next
    case False
    then obtain x w where w: "body (work_of env a) = Ok (x, w)" "store a' = (tx w)\<lparr>audit := audit (store a')\<rparr>"
      using law by (auto simp: committed_tables_def)
    have "session_lease (store a') = session_lease (tx w)" "runs (store a') = runs (tx w)" by (subst w(2), simp)+
    moreover have si: "store_inv sha (tx (work_of env a))" using assms(2) by (simp add: kernel_inv_def work_of_def)
    ultimately show ?thesis using effect_tables [OF body_effect [OF assms(1) si w(1)] si] by (simp add: work_of_def r_into_rtranclp)
  qed
  then show ?thesis using law by (simp add: kernel_moves_def)
qed

end

section \<open>Destructions\<close>

fun wf_begun :: "DestroyBegun \<Rightarrow> bool" where
  "wf_begun (DestroyPending r i) \<longleftrightarrow> wf_record r"
| "wf_begun (DestroyRefused why) \<longleftrightarrow> True"

lemma begin_destroy_wf: "begin_destroy sha w e reason = Ok (b, w') \<Longrightarrow> wf_begun b"
  by (erule begin_destroy_cases) (simp_all add: record_of_wf)

lemma begin_destroy_all_wf: "begin_destroy_all sha w ids reason = Ok (bs, w') \<Longrightarrow> \<forall>b \<in> set bs. wf_begun b"
  by (induction ids arbitrary: w bs) (auto simp: and_then_Ok_iff split: prod.splits dest: begin_destroy_wf)

lemma reap_loop_wf: "reap_loop sha session cause reaped w = Ok (td, w') \<Longrightarrow> \<forall>b \<in> set td. wf_begun b"
proof (induction reaped arbitrary: w td)
  case (Cons run reaped)
  from Cons.prems obtain i u v bs bs' where s: "begin_run_end sha u i ''REAPED'' = Ok (bs, v)"
      "reap_loop sha session cause reaped v = Ok (bs', w')" "td = bs @ bs'"
    by (auto simp: and_then_Ok_iff split: prod.splits)
  then show ?case using Cons.IH [OF s(2)] begin_destroy_all_wf [OF s(1) [unfolded begin_run_end_def]] by auto
qed simp

lemma reap_wf: "reap sha w session below cause = Ok (td, w') \<Longrightarrow> \<forall>b \<in> set td. wf_begun b"
  by (auto simp: reap_def and_then_Ok_iff Let_def dest!: reap_loop_wf)

lemma acquire_tenure_wf:
  "acquire_tenure sha w caller session expires fresh epoch prior = Ok ((reply, td), w') \<Longrightarrow> \<forall>b \<in> set td. wf_begun b"
  by (auto simp: acquire_tenure_def holder_pair_def and_then_Ok_iff split: if_splits dest!: reap_wf)

lemma acquire_wf:
  assumes "acquire sha w caller session ttl = Ok ((reply, td), w')"
  shows "\<forall>b \<in> set td. wf_begun b"
proof -
  obtain current d where c: "lease_load w session = Ok current" "acquire_decision current (holder_pair caller) (now w) = Ok d"
    using assms by (auto simp: acquire_def Let_def and_then_Ok_iff)
  note a = assms [unfolded acquire_def Let_def c and_then_simps]
  show ?thesis
  proof (cases d)
    case None
    then show ?thesis using a by (auto simp: and_then_Ok_iff)
  next
    case (Some p)
    then show ?thesis using a by (cases p) (auto dest: acquire_tenure_wf)
  qed
qed

lemma release_held_wf: "release_held sha w caller session l = Ok ((reply, td), w') \<Longrightarrow> \<forall>b \<in> set td. wf_begun b"
  by (auto simp: release_held_def holder_pair_def and_then_Ok_iff dest!: reap_wf)

lemma lease_release_wf:
  assumes "lease_release sha w caller session epoch = Ok ((reply, td), w')"
  shows "\<forall>b \<in> set td. wf_begun b"
proof -
  obtain lease where l: "lease_load w session = Ok lease" using assms by (auto simp: lease_release_def and_then_Ok_iff)
  note a = assms [unfolded lease_release_def Let_def l and_then_simps]
  show ?thesis
  proof (cases lease)
    case None
    then show ?thesis using a by (auto simp: and_then_Ok_iff)
  next
    case (Some x)
    then show ?thesis using a by (auto simp: and_then_Ok_iff split: if_splits dest: release_held_wf)
  qed
qed

lemma release_run_body_wf:
  assumes "release_run_body sha caller session run epoch w = Ok ((reply, td), w')"
  shows "\<forall>b \<in> set td. wf_begun b"
proof -
  obtain released v where v: "(case released of Done True \<Rightarrow> begin_run_end sha v run ''RELEASED'' | _ \<Rightarrow> Ok ([], v)) = Ok (td, w')"
    using assms by (auto simp: release_run_body_def and_then_Ok_iff)
  show ?thesis
  proof (cases "released = Done True")
    case True
    then show ?thesis using v begin_destroy_all_wf by (auto simp: begin_run_end_def)
  next
    case False
    then show ?thesis using v by (auto split: Reply.splits bool.splits)
  qed
qed

lemma kernel_moves_inv: "kernel_moves sha a a' \<Longrightarrow> kernel_inv sha a'"
  by (simp add: kernel_moves_def)

text \<open>What the crash hook and a destruction do: they also leave the leases and the runs as they are.\<close>

definition kernel_quiet :: "(string \<Rightarrow> string) \<Rightarrow> Authority \<Rightarrow> Authority \<Rightarrow> bool" where
  "kernel_quiet sha a a' \<longleftrightarrow> kernel_moves sha a a' \<and> session_lease (store a') = session_lease (store a) \<and> runs (store a') = runs (store a)"

lemma kernel_quiet_trans: "kernel_quiet sha a b \<Longrightarrow> kernel_quiet sha b c \<Longrightarrow> kernel_quiet sha a c"
  unfolding kernel_quiet_def using kernel_moves_trans by metis

lemma kernel_quiet_inv: "kernel_quiet sha a a' \<Longrightarrow> kernel_inv sha a'"
  by (simp add: kernel_quiet_def kernel_moves_def)

lemma kernel_quiet_same: "kernel_inv sha a \<Longrightarrow> kernel_quiet sha a a"
  using kernel_moves_same [of sha a a] by (simp add: kernel_quiet_def)

lemma kernel_quiet_moves: "kernel_quiet sha a a' \<Longrightarrow> kernel_moves sha a a'"
  by (simp add: kernel_quiet_def)

lemma audit_frame: "s' = s\<lparr>audit := t\<rparr> \<Longrightarrow> session_lease s' = session_lease s \<and> runs s' = runs s"
  by simp

lemma transact_destroyed_quiet:
  assumes "kernel_inv sha a" "wf_record rec" "wf_ending ending" "wf_fields timing"
    and t: "transact env (\<lambda>work. and_then (record_destroyed sha work rec ending timing) (\<lambda>work. Ok ((), work))) a = (r, a')"
  shows "kernel_quiet sha a a'"
proof -
  let ?body = "\<lambda>work. and_then (record_destroyed sha work rec ending timing) (\<lambda>work. Ok ((), work))"
  have "committed_tables env ?body a a'"
    using destroyed_body.transact_law [OF _ assms(1) t] assms(2-4) by simp
  then consider "store a' = (store a)\<lparr>audit := audit (store a')\<rparr>"
    | w where "record_destroyed sha (work_of env a) rec ending timing = Ok w" "store a' = (tx w)\<lparr>audit := audit (store a')\<rparr>"
    unfolding committed_tables_def and_then_Ok_iff by auto
  then have "session_lease (store a') = session_lease (store a) \<and> runs (store a') = runs (store a)"
  proof cases
    case 1
    then show ?thesis by (rule audit_frame)
  next
    case 2
    have "quiet sha (work_of env a) w" using record_destroyed_quiet [OF 2(1)] assms(2-4) by simp
    then show ?thesis using quiet_frame audit_frame [OF 2(2)] by (fastforce simp: work_of_def)
  qed
  then show ?thesis
    using destroyed_body.transact_moves [OF _ assms(1) t] assms(2-4) by (simp add: kernel_quiet_def)
qed

lemma crash_quiet:
  assumes "Shared_crash action point a = (r, a')" "kernel_inv sha a"
  shows "kernel_quiet sha a a'"
  using assms(1)
proof (cases rule: Shared_crash_cases)
  case ok
  then show ?thesis using kernel_quiet_same [OF assms(2)] by simp
next
  case stop
  then show ?thesis using kernel_moves_stop [OF assms(2), of "snd (Shared_poison (Interrupted point) a)"] by (simp add: kernel_quiet_def)
qed

lemma perform_destroy_quiet:
  assumes p: "perform_destroy sha denv r i a = (reply, a')" and inv: "kernel_inv sha a" and wf: "wf_record r" "wf_denv denv"
  shows "kernel_quiet sha a a'"
proof (cases "attached denv")
  case False
  then show ?thesis using p kernel_quiet_same [OF inv] by (simp add: perform_destroy_def)
next
  case True
  obtain r1 b where c1: "Shared_crash (destroy_hook denv EnvironmentDestroyAfterIntent) EnvironmentDestroyAfterIntent a = (r1, b)" by fastforce
  obtain ending ms where bd: "broker_destroy denv (er_environment r) (er_run r) (er_container r) i = (ending, ms)" by fastforce
  obtain r2 c where c2: "Shared_crash (destroy_hook denv EnvironmentDestroyAfterBroker) EnvironmentDestroyAfterBroker b = (r2, c)" by fastforce
  let ?timing = "Fields_int ''authority_ms'' (authority_ms denv) (Fields_int ''destroy_ms'' ms Fields_new)"
  obtain r3 d where t: "transact (destroy_tx denv) (\<lambda>work. and_then (record_destroyed sha work r ending ?timing) (\<lambda>work. Ok ((), work))) c = (r3, d)"
    by fastforce
  have m1: "kernel_quiet sha a b" using crash_quiet [OF c1 inv] .
  have m2: "kernel_quiet sha b c" using crash_quiet [OF c2 kernel_quiet_inv [OF m1]] .
  have "wf_ending ending" using wf(2) bd unfolding wf_denv_def by (metis fst_conv)
  then have m3: "kernel_quiet sha c d"
    using transact_destroyed_quiet [OF kernel_quiet_inv [OF m2] wf(1) _ _ t] by simp
  have "a' = b \<or> a' = c \<or> a' = d"
    using p True c1 c2 bd t by (auto simp: perform_destroy_def Let_def split: sum.splits)
  then show ?thesis using m1 m2 m3 kernel_quiet_trans by blast
qed

lemma end_runs_quiet:
  assumes e: "end_runs sha denv teardown point a = (r, a')" and inv: "kernel_inv sha a" and wf: "\<forall>b \<in> set teardown. wf_begun b" "wf_denv denv"
  shows "kernel_quiet sha a a'"
proof (cases "teardown = []")
  case True
  then show ?thesis using e kernel_quiet_same [OF inv] by (simp add: end_runs_def)
next
  case False
  obtain r1 b where c: "Shared_crash (destroy_hook denv point) point a = (r1, b)" by fastforce
  have m: "kernel_quiet sha a b" using crash_quiet [OF c inv] .
  show ?thesis
  proof (cases r1)
    case (Inl err)
    then show ?thesis using e False c m by (simp add: end_runs_def)
  next
    case (Inr u)
    show ?thesis
    proof (cases "find is_pending teardown")
      case None
      then show ?thesis using e False c m Inr by (simp add: end_runs_def)
    next
      case (Some bg)
      then obtain rec i where bg: "bg = DestroyPending rec i" "wf_record rec"
        using find_row [OF Some] wf(1) by (cases bg) auto
      obtain r2 d where pd: "perform_destroy sha denv rec i b = (r2, d)" by fastforce
      have "a' = d" using e False c Inr Some bg pd by (auto simp: end_runs_def split: sum.splits)
      then show ?thesis using perform_destroy_quiet [OF pd kernel_quiet_inv [OF m] bg(2) wf(2)] kernel_quiet_trans [OF m] by simp
    qed
  qed
qed

section \<open>The operations\<close>

text \<open>An environment in which nothing fails; then a transaction whose body succeeds is done.\<close>

definition no_tx_faults :: "tx_env \<Rightarrow> bool" where
  "no_tx_faults env \<longleftrightarrow> hook env = (\<lambda>_ _. Continue) \<and> begin_error env = None \<and> commit_error env = None \<and>
     log_write_fails env = (\<lambda>_. None) \<and> \<not> log_sync_fails env"

lemma no_tx_faults_flush: "no_tx_faults env \<Longrightarrow> flush_env_of env = no_faults"
  by (simp add: no_tx_faults_def flush_env_of_def no_faults_def)

lemma transact_no_faults:
  assumes "no_tx_faults env" "poison_reason a = None" "body (work_of env a) = Ok (x, w)"
  shows "transact env body a =
    (case last_seq w of None \<Rightarrow> (Ok x, a\<lparr>store := tx w\<rparr>)
     | Some n \<Rightarrow> (case Shared_flush env n (a\<lparr>store := tx w\<rparr>) of (Inl e, self) \<Rightarrow> (Err e, self) | (Inr _, self) \<Rightarrow> (Ok x, self)))"
  using assms by (simp add: transact_def Shared_check_def Shared_crash_def no_tx_faults_def Let_def)

context store_body
begin

lemma transact_succeeds:
  assumes valid and inv: "kernel_inv sha a" and p: "poison_reason a = None" and env: "no_tx_faults env"
    and b: "body (work_of env a) = Ok (x, w)"
  shows "\<exists>a'. transact env body a = (Ok x, a') \<and> lease_ttl_ms a' = lease_ttl_ms a"
proof (cases "last_seq w")
  case None
  then show ?thesis using transact_no_faults [where body = body, OF env p b] by simp
next
  case (Some n)
  have si: "store_inv sha (tx (work_of env a))" using inv by (simp add: kernel_inv_def work_of_def)
  let ?b = "a\<lparr>store := tx w\<rparr>"
  have ob: "outbox sha (work_of env a) w" using body_outbox [OF \<open>valid\<close> si b] .
  then have "(audit_step sha)\<^sup>*\<^sup>* ((audit_view a)\<lparr>tables := audit (store a)\<rparr>) ((audit_view a)\<lparr>tables := audit (tx w)\<rparr>)"
    by (intro appends_steps) (simp add: outbox_def work_of_def)
  then have "(audit_step sha)\<^sup>*\<^sup>* (audit_view a) (audit_view ?b)" using p by (simp add: audit_view_def)
  then have vb: "sys_inv sha (audit_view ?b)" using inv audit_steps_inv by (auto simp: kernel_inv_def)
  obtain wr where wr: "audit_writer a = Some wr" using inv p by (auto simp: kernel_inv_def)
  have ai: "audit_inv sha (audit (store ?b))" "log_ok (audit (store ?b)) (audit_log ?b)" "writer_ok sha (audit (store ?b)) (audit_log ?b) wr"
    using vb p wr by (simp_all add: sys_inv_def)
  have pb: "poison_reason ?b = None" "audit_writer ?b = Some wr" using p wr by simp_all
  have n: "n = length (audit_chain (audit (tx w)))" using ob Some si by (auto simp: outbox_def work_of_def store_inv_def)
  obtain fr a' where f: "Shared_flush env n ?b = (fr, a')" by fastforce
  then have "fr = Ok () \<and> lease_ttl_ms a' = lease_ttl_ms a"
  proof (cases rule: Shared_flush_cases [OF _ pb ai(1,3), consumes 1, case_names ok err])
    case (err w' l t g e)
    then show ?thesis using flush_through_inv [OF ai err(1)] no_tx_faults_flush [OF env] n by simp
  qed simp
  then show ?thesis using transact_no_faults [where body = body, OF env p b] Some f by simp
qed

lemma transact_Ok_body:
  assumes valid "kernel_inv sha a" "transact env body a = (Ok x, a')"
  shows "\<exists>w. body (work_of env a) = Ok (x, w)"
  using transact_law [OF assms] by (auto simp: outcome_def)

end

lemma persist_run_move:
  assumes p: "persist_run caller session epoch profile revision activation w = Ok (i, v)"
    and f: "fence w caller session epoch = Ok True" and inv: "store_inv sha (tx w)" and q: "quiet sha v w'"
  shows "effect sha w w'"
proof -
  obtain x u rows where u: "next_uuid w = Ok (x, u)" "RunId_from_uuid (unat x) = Some i"
      "sql_insert run_run_id (insert_run_refuses (session_lease (tx u)))
       \<lparr>run_run_id = i, run_session = session, run_subject = storage_key (subject caller), run_epoch = int epoch,
        run_profile = profile, run_profile_revision = revision, run_activation = activation, run_state = ''ACTIVE'',
        run_admitted_ms = int (now u), run_ended_ms = None\<rparr> (runs (tx u)) = Ok rows" "v = u\<lparr>tx := (tx u)\<lparr>runs := rows\<rparr>\<rparr>"
    using p by (auto simp: persist_run_def work_run_id_def work_mint_def and_then_Ok_iff to_sql_Ok work_db_def)
  let ?w = "w\<lparr>tx := (tx w)\<lparr>runs := rows\<rparr>\<rparr>"
  have "next_uuid ?w = Ok (x, v)"
    using u(1) unfolding u(4)
    by (auto simp: next_uuid_def and_then_Ok_iff work_db_def update_store_meta_def split: if_splits)
  then have "quiet sha ?w w'" using quiet_trans [OF q quiet_mint [OF quiet_refl]] by blast
  moreover obtain l where l: "l \<in> set (session_lease (tx w))" "lease_session l = session" "row_passes l caller epoch (now w)"
    using f fence_iff [OF store_inv_leases [OF inv]] by auto
  have "session_lease (tx u) = session_lease (tx w)" "runs (tx u) = runs (tx w)" using u(1) by (auto elim!: next_uuid_Ok)
  then have "table_move (now w) (session_lease (tx w)) (runs (tx w)) (session_lease (tx w)) rows"
    using u(3) move_admit [OF l(1,3)] l(2) minted_utf8(2) [OF u(2)] by (auto simp: sql_insert_Ok)
  moreover have "?w = with_tables (session_lease (tx w)) rows w" by (rule Work.equality) simp_all
  ultimately show ?thesis by (intro effect_move [of w _ rows ?w])
qed

lemma admits_effect: "admits sha body \<Longrightarrow> store_inv sha (tx w) \<Longrightarrow> body w = Ok (x, w') \<Longrightarrow> effect sha w w'"
  unfolding admits_def using persist_run_move effect_quiet by blast

interpretation admission_body: store_body sha body "admits sha body" for sha body
  by unfold_locales (rule admits_effect)

text \<open>The operations that end runs: a transaction, and then what the runs left to the broker.\<close>

definition then_end_runs :: "(string \<Rightarrow> string) \<Rightarrow> tx_env \<Rightarrow> destroy_env \<Rightarrow>
    (Work \<Rightarrow> (('r \<times> DestroyBegun list) \<times> Work, AuthorityError) result) \<Rightarrow> CrashPoint \<Rightarrow> Authority \<Rightarrow> ('r, AuthorityError) result \<times> Authority" where
  "then_end_runs sha env denv body point self =
     (case transact env body self of
        (Inl e, self) \<Rightarrow> (Err e, self)
      | (Inr (reply, teardown), self) \<Rightarrow>
          (case end_runs sha denv teardown point self of
             (Inl e, self) \<Rightarrow> (Err e, self)
           | (Inr _, self) \<Rightarrow> (Ok reply, self)))"

locale teardown_body = store_body sha body valid
  for sha and body :: "Work \<Rightarrow> (('r \<times> DestroyBegun list) \<times> Work, AuthorityError) result" and valid +
  assumes teardown_wf: "body w = Ok ((reply, td), w') \<Longrightarrow> \<forall>b \<in> set td. wf_begun b"
begin

lemma ended_moves:
  assumes valid and inv: "kernel_inv sha a" and wf: "wf_denv denv" and e: "then_end_runs sha env denv body point a = (r, a')"
  shows "kernel_moves sha a a'"
proof -
  obtain r1 b where t: "transact env body a = (r1, b)" by fastforce
  have m: "kernel_moves sha a b" using transact_moves [OF \<open>valid\<close> inv t] .
  show ?thesis
  proof (cases r1)
    case (Inl err)
    then show ?thesis using e t m by (simp add: then_end_runs_def)
  next
    case (Inr p)
    obtain reply td where p: "p = (reply, td)" by fastforce
    have "\<forall>x \<in> set td. wf_begun x" using transact_Ok_body [OF \<open>valid\<close> inv] t Inr p teardown_wf by blast
    moreover obtain r2 c where c: "end_runs sha denv td point b = (r2, c)" by fastforce
    ultimately have "kernel_moves sha b c" using end_runs_quiet [OF c kernel_moves_inv [OF m]] wf kernel_quiet_moves by blast
    moreover have "a' = c" using e t Inr p c by (auto simp: then_end_runs_def split: sum.splits)
    ultimately show ?thesis using kernel_moves_trans [OF m] by simp
  qed
qed

end

interpretation acquire_ends: teardown_body sha "\<lambda>w. acquire sha w caller session ttl" "utf8_ok session" for sha caller session ttl
  by unfold_locales (rule acquire_wf)

interpretation release_ends: teardown_body sha "\<lambda>w. lease_release sha w caller session epoch" "utf8_ok session" for sha caller session epoch
  by unfold_locales (rule lease_release_wf)

interpretation run_ends: teardown_body sha "release_run_body sha caller session run epoch" "utf8_ok session \<and> utf8_ok run"
  for sha caller session run epoch
  by unfold_locales (rule release_run_body_wf)

lemma environment_destroy_moves:
  assumes e: "environment_destroy sha env denv e a = (r, a')" and inv: "kernel_inv sha a" and wf: "wf_denv denv"
  shows "kernel_moves sha a a'"
proof (cases "attached denv")
  case False
  then show ?thesis using e kernel_moves_same [OF inv, of a] by (simp add: environment_destroy_def)
next
  case True
  obtain r1 b where t: "transact env (\<lambda>work. begin_destroy sha work e ''REQUESTED'') a = (r1, b)" by fastforce
  have m: "kernel_moves sha a b" using destroy_body.transact_moves [OF _ inv t] by simp
  show ?thesis
  proof (cases "\<exists>rec i. r1 = Ok (DestroyPending rec i)")
    case True
    then obtain rec i where p: "r1 = Ok (DestroyPending rec i)" by blast
    obtain w where "begin_destroy sha (work_of env a) e ''REQUESTED'' = Ok (DestroyPending rec i, w)"
      using destroy_body.transact_Ok_body [of "''REQUESTED''" sha a env e] inv t p by auto
    then have "wf_begun (DestroyPending rec i)" by (rule begin_destroy_wf)
    moreover have "perform_destroy sha denv rec i b = (r, a')" using e \<open>attached denv\<close> t p by (simp add: environment_destroy_def)
    ultimately show ?thesis
      using kernel_quiet_moves [OF perform_destroy_quiet [OF _ kernel_moves_inv [OF m] _ wf]] kernel_moves_trans [OF m] by simp
  next
    case False
    then have "a' = b" using e \<open>attached denv\<close> t by (auto simp: environment_destroy_def split: sum.splits DestroyBegun.splits)
    then show ?thesis using m by simp
  qed
qed

lemma reopened_moves:
  assumes rc: "recover sha (audit (store a)) (contents (audit_log a)) = Ok (rec, t, f)" and inv: "kernel_inv sha a"
  shows "kernel_moves sha a (reopened rec t f a)"
proof -
  let ?b = "reopened rec t f a"
  have "audit_step sha (audit_view a) (audit_view ?b)"
    using Start [of sha "audit_view a" rec t f] rc by (simp add: audit_view_def reopened_def)
  then have s: "(audit_step sha)\<^sup>*\<^sup>* (audit_view a) (audit_view ?b)" by simp
  have "sys_inv sha (audit_view ?b)" using inv audit_steps_inv [OF s] by (simp add: kernel_inv_def)
  then have "kernel_inv sha ?b" using inv by (auto simp: kernel_inv_def store_inv_def sys_inv_def reopened_def)
  then show ?thesis using s by (simp add: kernel_moves_def runs_kept_refl reopened_def)
qed

lemma restart_moves:
  assumes r: "restart sha env created a = Inr (r, a')" and inv: "kernel_inv sha a"
  shows "kernel_moves sha a a'"
proof -
  obtain rec t f where rc: "recover sha (audit (store a)) (contents (audit_log a)) = Ok (rec, t, f)"
    using r by (auto simp: restart_def split: sum.splits)
  let ?b = "reopened rec t f a"
  have m: "kernel_moves sha a ?b" by (rule reopened_moves [OF rc inv])
  have bi: "begin_incarnation sha env created rec ?b = (r, a')" using r rc by (simp add: restart_def)
  obtain r1 c where tr: "transact env (begin_incarnation_body sha created rec) ?b = (r1, c)" by fastforce
  have mc: "kernel_moves sha ?b c" using incarnation_body.transact_moves [OF _ kernel_moves_inv [OF m] tr] by simp
  have "a' = c \<or> (\<exists>i. a' = c\<lparr>auth_incarnation := i\<rparr>)" using bi tr by (auto simp: begin_incarnation_def split: sum.splits)
  then have "kernel_moves sha c a'" using kernel_moves_same [OF kernel_moves_inv [OF mc]] by auto
  then show ?thesis using m mc kernel_moves_trans by blast
qed

lemma kernel_step_moves:
  assumes "kernel_step sha a a'" "kernel_inv sha a"
  shows "kernel_moves sha a a'"
  using assms
proof (induction rule: kernel_step.induct)
  case (Connects subj a caller a')
  then show ?case using kernel_moves_same [OF Connects.prems] by (auto simp: connect_def)
next
  case (Acquires session denv env caller a r a')
  then show ?case using acquire_ends.ended_moves [of session sha a denv env caller "lease_ttl_ms a" ReapAfterIntent r a'] parsed_ids(2)
    by (auto simp: acquire_lease_def then_end_runs_def)
next
  case (Heartbeats session env caller epoch a r a')
  then show ?case using heartbeat_body.transact_moves parsed_ids(2) unfolding heartbeat_lease_def by blast
next
  case (Releases session denv env caller epoch a r a')
  then show ?case using release_ends.ended_moves [of session sha a denv env caller epoch ReapAfterIntent r a'] parsed_ids(2)
    by (auto simp: release_lease_def then_end_runs_def)
next
  case (ReleasesRun session run denv env caller epoch a r a')
  then show ?case using run_ends.ended_moves [of session run sha a denv env caller epoch ReleaseAfterIntent r a'] parsed_ids
    by (auto simp: release_run_def then_end_runs_def)
next
  case (Destroys denv env e a r a')
  then show ?case using environment_destroy_moves by blast
next
  case (Admits body env a r a')
  then show ?case using admission_body.transact_moves by blast
next
  case (Crashes a m point)
  let ?b = "a\<lparr>audit_log := (audit_log a)\<lparr>contents := take m (contents (audit_log a))\<rparr>, poison_reason := Some (Interrupted point)\<rparr>"
  have "audit_step sha (audit_view a) (audit_view ?b)"
    using Crash [of "audit_view a" m sha] Crashes.hyps by (simp add: audit_view_def)
  then have s: "(audit_step sha)\<^sup>*\<^sup>* (audit_view a) (audit_view ?b)" by simp
  then show ?case using Crashes.prems audit_steps_inv [OF s] by (simp add: kernel_moves_def kernel_inv_def runs_kept_refl)
next
  case (Starts env created a n a')
  then show ?case using restart_moves by blast
next
  case (StartFails env created a e b point)
  have m: "kernel_moves sha a b" using restart_moves [OF StartFails.hyps StartFails.prems] .
  then show ?case using kernel_moves_trans [OF m kernel_moves_stop [OF kernel_moves_inv [OF m]]] by simp
qed

lemma kernel_inv_init: "kernel_inv sha (kernel_init instance' ttl)"
proof -
  have "audit new_store = genesis" by (simp add: new_store_def)
  moreover have "log_ok genesis \<lparr>contents = [], synced = 0\<rparr>" by (simp add: log_ok_def genesis_def)
  ultimately show ?thesis by (simp add: kernel_inv_def kernel_init_def store_inv_new sys_inv_def audit_inv_genesis)
qed

lemma kernel_reachable_inv: "kernel_reachable sha a \<Longrightarrow> kernel_inv sha a"
  by (induction rule: kernel_reachable.induct) (auto simp: kernel_inv_init dest: kernel_step_moves kernel_moves_inv)

lemma kernel_steps_moves: "(kernel_step sha)\<^sup>*\<^sup>* a a' \<Longrightarrow> kernel_inv sha a \<Longrightarrow> kernel_moves sha a a'"
proof (induction rule: rtranclp_induct)
  case base
  then show ?case using kernel_moves_same by blast
next
  case (step b c)
  then show ?case using kernel_step_moves kernel_moves_inv kernel_moves_trans by blast
qed

section \<open>Progress of the audit log\<close>

lemma length_join_on: "length (join_on c xs) \<le> sum_list (map (\<lambda>x. length x + 1) xs)"
  by (induction xs rule: join_on.induct) simp_all

lemma length_object:
  "length (write_value (JObject ms)) \<le> 2 + sum_list (map (\<lambda>(k, v). length (write_string k) + length (write_value v) + 2) ms)"
proof -
  let ?f = "\<lambda>(k, v). write_string k @ '':'' @ write_value v" and ?s = "sort_key (\<lambda>(key, _). utf16_key key) ms"
  have "length (join_on CHR '','' (map ?f ?s)) \<le> sum_list (map (\<lambda>m. length (?f m) + 1) ?s)"
    using length_join_on [of "CHR '',''" "map ?f ?s"] by (simp add: comp_def)
  also have "\<dots> = sum_list (map (\<lambda>m. length (?f m) + 1) ms)"
    using arg_cong [of "mset (map (\<lambda>m. length (?f m) + 1) ?s)" "mset (map (\<lambda>m. length (?f m) + 1) ms)" sum_mset]
    unfolding sum_mset_sum_list by simp
  also have "\<dots> = sum_list (map (\<lambda>(k, v). length (write_string k) + length (write_value v) + 2) ms)"
    by (rule arg_cong [of _ _ sum_list]) auto
  finally show ?thesis by simp
qed

lemma length_write_string: "length (write_string s) \<le> 6 * length s + 2"
proof -
  have "length (concat (map write_char s)) \<le> 6 * length s"
    by (induction s) (auto simp: write_char_def)
  then show ?thesis by (simp add: write_string_def)
qed

text \<open>A bound on the length of a flat record that does not write it out.\<close>

fun value_bound :: "Value \<Rightarrow> nat" where
  "value_bound (JString t) = 6 * length t + 2"
| "value_bound v = length (write_value v)"

lemma record_bound:
  "length (to_canonical_bytes (JObject ms)) \<le> 2 + sum_list (map (\<lambda>(k, v). 6 * length k + value_bound v + 4) ms)"
proof -
  have "length (write_value v) \<le> value_bound v" for v using length_write_string by (cases v) simp_all
  then have "(case m of (k, v) \<Rightarrow> length (write_string k) + length (write_value v) + 2) \<le>
      (case m of (k, v) \<Rightarrow> 6 * length k + value_bound v + 4)" for m
    using length_write_string [of "fst m"] add_mono [of "length (write_string (fst m))" _ "length (write_value (snd m))"]
    by (cases m) fastforce
  then have "sum_list (map (\<lambda>(k, v). length (write_string k) + length (write_value v) + 2) ms) \<le>
      sum_list (map (\<lambda>(k, v). 6 * length k + value_bound v + 4) ms)"
    by (rule sum_list_mono)
  then show ?thesis using length_object [of ms] by (simp add: to_canonical_bytes_def)
qed

lemma audit_append_progress:
  assumes inv: "audit_inv sha t" and p: "chain_end sha 0 Sha256Hash_ZERO (audit_chain t) = Some p"
    and u: "unsigned_record (length (audit_chain t) + 1) p ts event fs = Ok obj" and wf: "wf_fields fs"
    and h: "h = chain_hash sha p (to_canonical_bytes (JObject obj))"
    and bound: "length (to_canonical_bytes (JObject (obj @ [(''hash'', JString (to_hex h))]))) \<le> MAX_RECORD_BYTES"
    and new: "to_hex h \<notin> row_hash ` set (audit_chain t)"
  shows "\<exists>t' r. audit_append sha ts event fs t = Ok (t', length (audit_chain t) + 1) \<and> audit_chain t' = audit_chain t @ [r] \<and> row_hash r = to_hex h"
proof -
  let ?n = "length (audit_chain t) + 1"
  obtain p' where p': "chain_end sha 0 Sha256Hash_ZERO (audit_chain t) = Some p'" "head_hash t = to_hex p'" "wf_hash p'"
    using audit_inv_end [OF inv] .
  have hd: "head_hash t = to_hex p" "wf_hash p" using p p' by simp_all
  have q: "head_seq t = int (length (audit_chain t))" using inv by (simp add: audit_inv_def)
  obtain extra where e: "obj = envelope ?n p ts event @ extra" "fst ` set extra \<inter> set RESERVED_KEYS = {}" "?n \<le> AUDIT_MAX_SAFE_INTEGER"
    using unsigned_record_Ok [OF u wf] by blast
  have k: "insert_member ''hash'' (JString (to_hex h)) obj = Ok (obj @ [(''hash'', JString (to_hex h))])"
    using e(1,2) by (auto simp: insert_member_Ok envelope_def RESERVED_KEYS_def)
  have hh: "length (to_hex h) = 64" "length (to_hex p) = 64"
    using hd(2) h by (simp_all add: length_to_hex chain_hash_def DomainHash_finish_def copy_32_def wf_hash_def)
  have seqs: "int ?n \<notin> row_seq ` set (audit_chain t)"
    using chain_seqs [OF p] by (metis (no_types, lifting) add.commute add_0 atLeastLessThan_iff image_set imageE less_irrefl of_nat_eq_iff set_map set_upt)
  have b: "?n \<le> U64_MAX" "\<not> I64_MAX < ?n" using e(3) by (simp_all add: AUDIT_MAX_SAFE_INTEGER_def U64_MAX_def I64_MAX_def)
  show ?thesis
    using u k bound new hh seqs b
    by (simp add: audit_append_def hd(1) from_hex_to_hex [OF hd(2)] q u64_try_from_def h [symmetric] Let_def map_err_def
        insert_audit_chain_def update_audit_head_def)
qed

end
