(* ===== verification/Auth_Lease_Properties.thy ===== *)
theory Auth_Lease_Properties
  imports Auth_System
begin

text \<open>
  The properties of the durable authority: what holds in every state it can reach, that a
  superseded epoch never passes the fence again, that the kernel implements the token of each
  session and the audit log, what an acquisition does, and the outcomes of a transaction.
\<close>

section \<open>Reading the fence as the token\<close>

lemma fence_token:
  assumes "leases_inv (session_lease (tx w))"
  shows "fence w caller session epoch = Ok (token_passes (token_of (session_lease (tx w)) session) (caller_holder caller) epoch (now w))"
proof (cases "find (\<lambda>r. lease_session r = session) (session_lease (tx w))")
  case None
  then have "\<not> token_passes (token_of (session_lease (tx w)) session) (caller_holder caller) epoch (now w)"
    by (simp add: token_of_def token_passes_def)
  then show ?thesis using fence_iff [OF assms] None by (auto simp: find_None_iff)
next
  case (Some r)
  have r: "r \<in> set (session_lease (tx w))" "lease_session r = session" using find_row [OF Some] by simp_all
  have "r' = r" if "r' \<in> set (session_lease (tx w))" "lease_session r' = session" for r'
    using find_unique_row [OF Some _ that] assms by (simp add: leases_inv_def)
  then have "(\<exists>r \<in> set (session_lease (tx w)). lease_session r = session \<and> row_passes r caller epoch (now w)) \<longleftrightarrow> row_passes r caller epoch (now w)"
    using r by blast
  also have "\<dots> \<longleftrightarrow> token_passes (token_of (session_lease (tx w)) session) (caller_holder caller) epoch (now w)"
    using row_token_passes Some r(1) assms by (simp add: token_of_def leases_inv_def)
  finally show ?thesis using fence_iff [OF assms] by simp
qed

lemma fence_reachable:
  assumes "kernel_reachable sha a"
  shows "fence (work_of env a) caller session epoch =
    Ok (token_passes (token_of (session_lease (store a)) session) (caller_holder caller) epoch (clock_now env))"
  using fence_token [of "work_of env a"] kernel_reachable_inv [OF assms] by (simp add: kernel_inv_def store_inv_def work_of_def)

lemma token_passes_holds: "token_passes t h e n \<Longrightarrow> token_holds t h e"
  by (auto simp: token_passes_def)

lemma token_moves_steps: "table_moves\<^sup>*\<^sup>* ls ls' \<Longrightarrow> token_moves\<^sup>*\<^sup>* (token_of ls session) (token_of ls' session)"
  by (induction rule: rtranclp_induct) (auto dest: table_moves_token intro: rtranclp.rtrancl_into_rtrancl)

lemma kernel_reachable_steps: "(kernel_step sha)\<^sup>*\<^sup>* a a' \<Longrightarrow> kernel_reachable sha a \<Longrightarrow> kernel_reachable sha a'"
  by (induction rule: rtranclp_induct) (auto intro: kernel_reachable_step)

section \<open>Acquiring a lease\<close>

lemma token_of_fresh:
  assumes "find (\<lambda>r. lease_session r = session) ls = None"
  shows "token_of (ls @ [first_tenure caller session expires]) s =
    (if s = session then Held 1 (caller_holder caller) (int expires) else token_of ls s)"
proof -
  have "find (\<lambda>r. lease_session r = s) (ls @ [first_tenure caller session expires]) =
      (case find (\<lambda>r. lease_session r = s) ls of Some r \<Rightarrow> Some r
       | None \<Rightarrow> if session = s then Some (first_tenure caller session expires) else None)"
    by (induction ls) auto
  moreover have "row_token (first_tenure caller session expires) = Held 1 (caller_holder caller) (int expires)"
    unfolding first_tenure_def by (simp add: row_token_tenure)
  ultimately show ?thesis using assms by (auto simp: token_of_def split: option.splits)
qed

lemma no_active_after_reap:
  assumes "runs_inv ls rs" "leases_inv ls" "find (\<lambda>r. lease_session r = session) ls = Some l" "lease_epoch l < int epoch"
  shows "\<forall>r \<in> set (map (reap_row session epoch n) rs). run_session r = session \<longrightarrow> run_state r \<noteq> ''ACTIVE''"
proof -
  have "run_state (reap_row session epoch n r) \<noteq> ''ACTIVE''" if r: "r \<in> set rs" "run_session (reap_row session epoch n r) = session" for r
  proof -
    have s: "run_session r = session" using r(2) by (simp add: reap_row_def split: if_splits)
    then obtain k where k: "k \<in> set ls" "lease_session k = session" "run_epoch r \<le> lease_epoch k"
      using assms(1) r(1) unfolding runs_inv_def by blast
    have "k = l" using find_unique_row [OF assms(3) _ k(1,2)] assms(2) by (simp add: leases_inv_def)
    then show ?thesis using k(3) assms(4) s by (simp add: reap_row_def)
  qed
  then show ?thesis by auto
qed

lemma acquire_granted:
  assumes a: "acquire sha w caller session ttl = Ok ((Done epoch, td), w')" and u: "utf8_ok session" and inv: "store_inv sha (tx w)"
  shows "epoch = token_epoch (token_of (session_lease (tx w)) session) + 1 \<and>
    token_of (session_lease (tx w')) s =
      (if s = session then Held epoch (caller_holder caller) (int (saturating_add (now w) ttl)) else token_of (session_lease (tx w)) s) \<and>
    (\<forall>r \<in> set (runs (tx w')). run_session r = session \<longrightarrow> run_state r \<noteq> ''ACTIVE'')"
  using a
proof (cases rule: acquire_cases [OF _ u, consumes 1, case_names held fresh granted])
  case (fresh v)
  have q: "session_lease (tx w') = session_lease (tx w) @ [first_tenure caller session (saturating_add (now w) ttl)]" "runs (tx w') = runs (tx w)"
    using quiet_frame [OF fresh(5)] fresh(4) by simp_all
  have "run_session r \<noteq> session" if "r \<in> set (runs (tx w))" for r
  proof -
    obtain l where "l \<in> set (session_lease (tx w))" "lease_session l = run_session r"
      using inv \<open>r \<in> set (runs (tx w))\<close> unfolding store_inv_def runs_inv_def by blast
    then show ?thesis using fresh(1) by (auto simp: find_None_iff)
  qed
  moreover have "token_epoch (token_of (session_lease (tx w)) session) = 0" using fresh(1) by (simp add: token_of_def)
  ultimately show ?thesis using q token_of_fresh [OF fresh(1)] fresh(2) by auto
next
  case (granted r e v)
  have e: "e = epoch" using granted(5) by simp
  have q: "session_lease (tx w') = map (on_session session (tenure caller epoch (saturating_add (now w) ttl))) (session_lease (tx w))"
      "runs (tx w') = map (reap_row session epoch (now w)) (runs (tx w))"
    using quiet_frame [OF granted(7)] granted(6) e by simp_all
  have li: "leases_inv (session_lease (tx w))" "runs_inv (session_lease (tx w)) (runs (tx w))" using inv by (simp_all add: store_inv_def)
  then have c: "lease_checks r" using find_row [OF granted(1)] by (simp add: leases_inv_def)
  have te: "token_epoch (row_token r) = nat (lease_epoch r)"
    using row_token_held [OF c] row_token_free [OF c] by (metis token_epoch.simps)
  have "1 \<le> lease_epoch r" using c by (simp add: lease_checks_def)
  then have "epoch = token_epoch (token_of (session_lease (tx w)) session) + 1"
    using granted(1,3) e te by (simp add: token_of_def)
  moreover have "token_of (session_lease (tx w')) s =
      (if s = session then Held epoch (caller_holder caller) (int (saturating_add (now w) ttl)) else token_of (session_lease (tx w)) s)"
    unfolding q using token_step_session [of "tenure caller epoch (saturating_add (now w) ttl)" session "session_lease (tx w)" s] granted(1)
    by (simp add: row_token_tenure)
  moreover have "\<forall>r \<in> set (runs (tx w')). run_session r = session \<longrightarrow> run_state r \<noteq> ''ACTIVE''"
    unfolding q by (rule no_active_after_reap [OF li(2,1) granted(1)]) (use granted(3) e in simp)
  ultimately show ?thesis by blast
qed simp_all

lemma acquire_refused:
  assumes a: "acquire sha w caller session ttl = Ok ((Refused reason, td), w')" and u: "utf8_ok session" and inv: "store_inv sha (tx w)"
  shows "reason = LeaseHeld \<and> session_lease (tx w') = session_lease (tx w) \<and> runs (tx w') = runs (tx w) \<and>
    (\<exists>e h x. token_of (session_lease (tx w)) session = Held e h x \<and> int (now w) < x \<and> snd h \<noteq> snd (caller_holder caller))"
  using a
proof (cases rule: acquire_cases [OF _ u, consumes 1, case_names held fresh granted])
  case (held r)
  have c: "lease_checks r" using find_row [OF held(1)] inv by (simp add: store_inv_def leases_inv_def)
  obtain h i k x where x: "holder_subject r = Some h" "holder_incarnation r = Some i" "holder_connection r = Some k" "expires_ms r = Some x"
      "row_token r = Held (nat (lease_epoch r)) (h, i, k) x"
    using row_token_held [OF c] held(2) unfolding row_live_def by metis
  have "int (now w) < x" "(i, k) \<noteq> snd (caller_holder caller)"
    using held(2,3) x by (auto simp: row_live_def row_holder_def caller_holder_def)
  then show ?thesis using held(1,4) quiet_frame [OF held(6)] x(5) by (simp add: token_of_def)
qed simp_all

text \<open>The tables after an operation that ends runs are those of its transaction.\<close>

lemma acquire_lease_body:
  assumes inv: "kernel_inv sha a" and u: "utf8_ok session" and wf: "wf_denv denv"
    and a: "acquire_lease sha env denv caller session a = (Ok reply, a')"
  obtains td w where "acquire sha (work_of env a) caller session (lease_ttl_ms a) = Ok ((reply, td), w)"
    "session_lease (store a') = session_lease (tx w)" "runs (store a') = runs (tx w)" "kernel_inv sha a'"
proof -
  obtain td b where t: "transact env (\<lambda>work. acquire sha work caller session (lease_ttl_ms a)) a = (Ok (reply, td), b)"
      "end_runs sha denv td ReapAfterIntent b = (Ok (), a')"
    using a by (auto simp: acquire_lease_def split: prod.splits sum.splits)
  note law = acquire_body.transact_law [OF u inv t(1)]
  obtain w where w: "acquire sha (work_of env a) caller session (lease_ttl_ms a) = Ok ((reply, td), w)"
      "store b = (tx w)\<lparr>audit := audit (store b)\<rparr>" using law by (auto simp: outcome_def)
  have "kernel_quiet sha b a'" using end_runs_quiet [OF t(2)] law wf acquire_wf [OF w(1)] by blast
  then have q: "session_lease (store a') = session_lease (store b)" "runs (store a') = runs (store b)" "kernel_inv sha a'"
    using kernel_quiet_inv by (simp_all add: kernel_quiet_def) (blast dest: kernel_moves_inv)
  show ?thesis using that [OF w(1)] q audit_frame [OF w(2)] by simp
qed

section \<open>A store that starts and grants a lease\<close>

text \<open>
  The states the examples are about: a new store is started, and a caller acquires the lease of a
  session. The hash function of the examples reads one byte of the previous hash.
\<close>

definition lx_sha :: "string \<Rightarrow> string" where
  "lx_sha x = (case drop 33 x of c # _ \<Rightarrow> if c = CHR 0x00 then ''A'' else ''B'' | [] \<Rightarrow> [])"

definition lx_hash :: "char \<Rightarrow> Sha256Hash" where
  "lx_hash c = Sha256Hash (c # replicate 31 (CHR 0x00))"

lemma lx_chain_hash:
  "chain_hash lx_sha Sha256Hash_ZERO bytes = lx_hash (CHR ''A'')" "chain_hash lx_sha (lx_hash (CHR ''A'')) bytes = lx_hash (CHR ''B'')"
proof -
  have h: "chain_hash lx_sha (lx_hash c) bytes = lx_hash (if c = CHR 0x00 then CHR ''A'' else CHR ''B'')" for c
  proof -
    let ?pre = "AUDIT_RECORD @ [CHR 0x00] @ u64_to_be_bytes (min (length (as_bytes (lx_hash c))) (2 ^ 64 - 1))"
    have "chain_input (lx_hash c) bytes =
        ?pre @ c # (replicate 31 (CHR 0x00) @ u64_to_be_bytes (min (length bytes) (2 ^ 64 - 1)) @ bytes)"
      by (simp add: chain_input_def DomainHash_bytes_def DomainHash_new_def lx_hash_def)
    moreover have "length ?pre = 33" by (simp add: AUDIT_RECORD_def)
    ultimately have "drop 33 (chain_input (lx_hash c) bytes) =
        c # (replicate 31 (CHR 0x00) @ u64_to_be_bytes (min (length bytes) (2 ^ 64 - 1)) @ bytes)"
      by (metis append_eq_conv_conj)
    then show ?thesis by (simp add: chain_hash_def DomainHash_finish_def copy_32_def lx_sha_def lx_hash_def)
  qed
  have z: "Sha256Hash_ZERO = lx_hash (CHR 0x00)" by (simp add: Sha256Hash_ZERO_def lx_hash_def flip: replicate_Suc)
  show "chain_hash lx_sha Sha256Hash_ZERO bytes = lx_hash (CHR ''A'')" unfolding z h by simp
  show "chain_hash lx_sha (lx_hash (CHR ''A'')) bytes = lx_hash (CHR ''B'')" unfolding h by simp
qed

definition lx_env :: tx_env where
  "lx_env = \<lparr>clock_now = 5, hook = (\<lambda>_ _. Continue), begin_error = None, commit_error = None,
     log_write_fails = (\<lambda>_. None), log_sync_fails = False\<rparr>"

definition lx_denv :: destroy_env where
  "lx_denv = \<lparr>attached = False, runtime_handoff = Ok (), broker_answer = (\<lambda>_ _ _ _. OtherDelivery),
     destroy_hook = (\<lambda>_. Continue), authority_ms = 0, destroy_tx = lx_env\<rparr>"

definition lx_session :: string where "lx_session = ''ses_'' @ encode_uuid (7 * 2 ^ 76 + 2 * 2 ^ 62)"

definition lx_caller :: "nat \<Rightarrow> CallerContext" where
  "lx_caller n = \<lparr>subject = unix_uid 7, holder = \<lparr>incarnation = 1, connection = n\<rparr>\<rparr>"

definition lx_open_fields :: Fields where
  "lx_open_fields = Fields_int ''audit_torn_tail_bytes'' 0 (Fields_int ''audit_appended'' 0 (Fields_int ''audit_reconciled'' 0
     (Fields_int ''invocations_unknown'' 0 (Fields_int ''invocations_interrupted'' 0 (Fields_int ''runs_reaped'' 0
     (Fields_int ''leases_invalidated'' 0 (Fields_flag ''created'' True (Fields_int ''schema_version'' CURRENT_VERSION
     (Fields_int ''incarnation'' 1 Fields_new)))))))))"

definition lx_grant_fields :: Fields where
  "lx_grant_fields = Fields_int ''expires_ms'' 60005 (Fields_text ''prior'' ''none'' (Fields_int ''epoch'' 1
     (Fields_text ''session_id'' lx_session (Fields_text ''holder'' ''1:1'' (Fields_text ''subject'' ''uid:7'' Fields_new)))))"

lemma lx_uuid: "is_uuid7 (7 * 2 ^ 76 + 2 * 2 ^ 62)"
  by (simp add: is_uuid7_def drop_bit_eq_div)

lemma lx_session_parse: "SessionId_parse lx_session = Some lx_session"
  unfolding SessionId_parse_def id_parse_iff lx_session_def using lx_uuid by (intro conjI exI [of _ "7 * 2 ^ 76 + 2 * 2 ^ 62"]) simp_all



lemma lx_session_length: "length lx_session = 30"
  by (simp add: lx_session_def encode_uuid_def ENCODED_LEN_def)

definition lx_members :: "Fields \<Rightarrow> Object" where
  "lx_members fs = map (\<lambda>(k, f). (k, case f of Text t \<Rightarrow> JString t | IntField n \<Rightarrow> JNumber (NInt (int n)) | Flag b \<Rightarrow> JBool b | _ \<Rightarrow> JNull)) fs"

lemma lx_records:
  "unsigned_record 1 Sha256Hash_ZERO 5 StoreOpened lx_open_fields = Ok (envelope 1 Sha256Hash_ZERO 5 StoreOpened @ lx_members lx_open_fields)"
  "unsigned_record 2 (lx_hash (CHR ''A'')) 5 LeaseAcquired lx_grant_fields =
     Ok (envelope 2 (lx_hash (CHR ''A'')) 5 LeaseAcquired @ lx_members lx_grant_fields)"
  by (simp_all add: unsigned_record_def and_then_Ok_iff insert_member_Ok safe_integer_field_Ok Object_new_def
      envelope_def AUDIT_FORMAT_VERSION_def AUDIT_MAX_SAFE_INTEGER_def lx_open_fields_def lx_grant_fields_def lx_members_def
      Fields_int_def Fields_text_def Fields_flag_def Fields_new_def RESERVED_KEYS_def CURRENT_VERSION_def)


lemma lx_lengths:
  "length (to_canonical_bytes (JObject ((envelope 1 Sha256Hash_ZERO 5 StoreOpened @ lx_members lx_open_fields) @
     [(''hash'', JString (to_hex (lx_hash (CHR ''A''))))]))) \<le> MAX_RECORD_BYTES"
  "length (to_canonical_bytes (JObject ((envelope 2 (lx_hash (CHR ''A'')) 5 LeaseAcquired @ lx_members lx_grant_fields) @
     [(''hash'', JString (to_hex (lx_hash (CHR ''B''))))]))) \<le> MAX_RECORD_BYTES"
  by (rule order_trans [OF record_bound],
      simp add: envelope_def lx_members_def lx_open_fields_def lx_grant_fields_def Fields_int_def Fields_text_def Fields_flag_def
        Fields_new_def CURRENT_VERSION_def show_i64_def MAX_RECORD_BYTES_def lx_session_length length_to_hex lx_hash_def Sha256Hash_ZERO_def show_nat.simps)+


definition lx_init :: Authority where "lx_init = kernel_init 9 60000"

definition lx_started :: Authority where "lx_started = snd (projr (restart lx_sha lx_env True lx_init))"

lemma lx_no_faults: "no_tx_faults lx_env"
  by (simp add: no_tx_faults_def lx_env_def)

lemma lx_open_append:
  "\<exists>t r. audit_append lx_sha 5 StoreOpened lx_open_fields genesis = Ok (t, 1) \<and> audit_chain t = [r] \<and> row_hash r = to_hex (lx_hash (CHR ''A''))"
  using audit_append_progress [OF audit_inv_genesis, of lx_sha Sha256Hash_ZERO 5 StoreOpened lx_open_fields
      "envelope 1 Sha256Hash_ZERO 5 StoreOpened @ lx_members lx_open_fields" "lx_hash (CHR ''A'')"]
    lx_records(1) lx_lengths(1) lx_chain_hash(1)
  by (simp add: genesis_def lx_open_fields_def)

lemma lx_start:
  "\<exists>r. restart lx_sha lx_env True lx_init = Inr (Ok (1, 0, 0), lx_started) \<and> poison_reason lx_started = None \<and> lease_ttl_ms lx_started = 60000 \<and>
     session_lease (store lx_started) = [] \<and> runs (store lx_started) = [] \<and>
     audit_chain (audit (store lx_started)) = [r] \<and> row_hash r = to_hex (lx_hash (CHR ''A''))"
proof -
  let ?rec = "\<lparr>rec_durable_seq = 0, rec_durable_hash = Sha256Hash_ZERO, reconciled = 0, appended = 0, torn_tail_bytes = 0\<rparr>"
  have rc: "recover lx_sha (audit (store lx_init)) (contents (audit_log lx_init)) = Ok (?rec, genesis, [])"
    using recover_cut [OF audit_inv_genesis, of 0 "[]" "[]" lx_sha Sha256Hash_ZERO]
    by (simp add: genesis_def log_cut_def all_flushed_def lx_init_def kernel_init_def new_store_def)
  let ?b = "reopened ?rec genesis [] lx_init"
  have kb: "kernel_inv lx_sha ?b" using kernel_moves_inv [OF reopened_moves [OF rc]] kernel_inv_init by (simp add: lx_init_def)
  obtain t r where t: "audit_append lx_sha 5 StoreOpened lx_open_fields genesis = Ok (t, 1)" "audit_chain t = [r]" "row_hash r = to_hex (lx_hash (CHR ''A''))"
    using lx_open_append by blast
  let ?w = "(work_of lx_env ?b)\<lparr>tx := (store ?b)\<lparr>meta_incarnation := 1, audit := t\<rparr>, last_seq := Some 1\<rparr>"
  have body: "begin_incarnation_body lx_sha True ?rec (work_of lx_env ?b) = Ok ((1, 0, 0), ?w)"
    using t(1) [unfolded lx_open_fields_def]
    by (simp add: begin_incarnation_body_def next_incarnation_def update_store_meta_def work_of_def reopened_def lx_init_def kernel_init_def
        new_store_def work_db_def u64_try_from_def invalidate_all_def update_leases_def update_runs_def sql_update_def lx_env_def to_sql_def
        environment_reconcile_open_def begin_reaped_at_start_def work_audit_def update_environments_def I64_MAX_def)
  obtain a where a: "transact lx_env (begin_incarnation_body lx_sha True ?rec) ?b = (Ok (1, 0, 0), a)" "lease_ttl_ms a = 60000"
    using incarnation_body.transact_succeeds [OF _ kb _ lx_no_faults body] by (auto simp: reopened_def lx_init_def kernel_init_def)
  have o: "outcome lx_env (begin_incarnation_body lx_sha True ?rec) ?b (Ok (1, 0, 0)) a"
    using incarnation_body.transact_law [OF _ kb a(1)] by simp
  have rs: "restart lx_sha lx_env True lx_init = Inr (Ok (1, 0, 0), a\<lparr>auth_incarnation := 1\<rparr>)"
    using a(1) rc by (simp add: restart_def begin_incarnation_def)
  then have st: "lx_started = a\<lparr>auth_incarnation := 1\<rparr>" by (simp add: lx_started_def)
  have e: "store a = (tx ?w)\<lparr>audit := audit (store a)\<rparr>" "audit_chain (audit (store a)) = audit_chain t" "poison_reason a = None"
    using o body by (auto simp: outcome_def)
  have "session_lease (store a) = []" "runs (store a) = []" using audit_frame [OF e(1)] by (simp_all add: reopened_def lx_init_def kernel_init_def new_store_def)
  then have "poison_reason lx_started = None \<and> lease_ttl_ms lx_started = 60000 \<and> session_lease (store lx_started) = [] \<and>
      runs (store lx_started) = [] \<and> audit_chain (audit (store lx_started)) = [r]"
    unfolding st using e(2,3) a(2) t(2) by simp
  then show ?thesis using rs t(3) unfolding st [symmetric] by blast
qed


lemma lx_started_reachable: "kernel_reachable lx_sha lx_started"
proof -
  have "kernel_step lx_sha lx_init lx_started" using Starts lx_start by blast
  then show ?thesis using kernel_reachable_step kernel_reachable_init by (metis lx_init_def)
qed

lemma lx_denv_wf: "wf_denv lx_denv"
  by (simp add: wf_denv_def broker_destroy_def lx_denv_def)

definition lx_held :: Authority where
  "lx_held = snd (acquire_lease lx_sha lx_env lx_denv (lx_caller 1) lx_session lx_started)"

lemma lx_session_utf8: "utf8_ok lx_session"
  using lx_session_parse parsed_ids(2) by blast

lemma lx_shows: "show_nat (Suc 0) = ''1''" "show_nat 7 = ''7''"
  by code_simp+

lemma lx_acquire_body:
  "\<exists>w. acquire lx_sha (work_of lx_env lx_started) (lx_caller 1) lx_session 60000 = Ok ((Done 1, []), w)"
proof -
  obtain r where st: "session_lease (store lx_started) = []" "audit_chain (audit (store lx_started)) = [r]"
      "row_hash r = to_hex (lx_hash (CHR ''A''))" using lx_start by blast
  have ai: "audit_inv lx_sha (audit (store lx_started))"
    using kernel_reachable_inv [OF lx_started_reachable] by (simp add: kernel_inv_def store_inv_def)
  have p: "chain_end lx_sha 0 Sha256Hash_ZERO [r] = Some (lx_hash (CHR ''A''))"
  proof -
    obtain h where h: "chain_end lx_sha 0 Sha256Hash_ZERO [r] = Some h" using audit_inv_end [OF ai] st(2) by metis
    then have "row_hash r = to_hex h" by (auto simp: Let_def split: sum.splits if_splits)
    then show ?thesis using h st(3) to_hex_inject by metis
  qed
  have ch: "chain_end lx_sha 0 Sha256Hash_ZERO (audit_chain (audit (store lx_started))) = Some (lx_hash (CHR ''A''))"
    using p st(2) by simp
  have n: "length (audit_chain (audit (store lx_started))) + 1 = 2" using st(2) by simp
  have wf: "wf_fields lx_grant_fields" using lx_session_utf8 by (simp add: lx_grant_fields_def)
  have "to_hex (lx_hash (CHR ''B'')) \<notin> row_hash ` set (audit_chain (audit (store lx_started)))"
    using st(2,3) by (simp add: to_hex_inject) (simp add: lx_hash_def)
  then obtain t where "audit_append lx_sha 5 LeaseAcquired lx_grant_fields (audit (store lx_started)) = Ok (t, 2)"
    using audit_append_progress [OF ai ch, unfolded n, OF lx_records(2) wf lx_chain_hash(2) [symmetric] lx_lengths(2)] by blast
  then show ?thesis
    by (simp add: acquire_def Let_def lease_load_def work_of_def st(1) acquire_decision_def acquire_tenure_def holder_pair_def lx_caller_def
        lx_env_def to_sql_def I64_MAX_def insert_lease_def sql_insert_def insert_lease_refuses_def lease_checks_def work_db_def work_audit_def
        lx_grant_fields_def LeaseHolder_to_string_def storage_key_def lx_shows saturating_add_def U64_MAX_def
        Epoch_new_def Epoch_MIN_def Epoch_MAX_def)
qed

lemma lx_acquire: "acquire_lease lx_sha lx_env lx_denv (lx_caller 1) lx_session lx_started = (Ok (Done 1), lx_held)"
proof -
  obtain w where w: "acquire lx_sha (work_of lx_env lx_started) (lx_caller 1) lx_session 60000 = Ok ((Done 1, []), w)"
    using lx_acquire_body by blast
  have "poison_reason lx_started = None" using lx_start by blast
  then obtain a where "transact lx_env (\<lambda>w. acquire lx_sha w (lx_caller 1) lx_session 60000) lx_started = (Ok (Done 1, []), a)"
    using acquire_body.transact_succeeds [OF lx_session_utf8 kernel_reachable_inv [OF lx_started_reachable] _ lx_no_faults w] by blast
  then show ?thesis using lx_start by (auto simp: acquire_lease_def end_runs_def lx_held_def)
qed

lemma lx_held_step: "kernel_step lx_sha lx_started lx_held"
  by (rule Acquires [OF lx_session_parse lx_denv_wf lx_acquire])

lemma lx_held_reachable: "kernel_reachable lx_sha lx_held"
  by (rule kernel_reachable_step [OF lx_started_reachable lx_held_step])

lemma lx_held_token:
  "token_of (session_lease (store lx_held)) lx_session = Held 1 (caller_holder (lx_caller 1)) 60005"
  "token_of (session_lease (store lx_started)) lx_session = Free 0"
proof -
  have ttl: "lease_ttl_ms lx_started = 60000" "session_lease (store lx_started) = []" using lx_start by blast+
  have inv: "kernel_inv lx_sha lx_started" by (rule kernel_reachable_inv [OF lx_started_reachable])
  obtain td w where w: "acquire lx_sha (work_of lx_env lx_started) (lx_caller 1) lx_session (lease_ttl_ms lx_started) = Ok ((Done 1, td), w)"
      "session_lease (store lx_held) = session_lease (tx w)"
    using acquire_lease_body [OF inv lx_session_utf8 lx_denv_wf lx_acquire] by metis
  have si: "store_inv lx_sha (tx (work_of lx_env lx_started))" using inv by (simp add: kernel_inv_def work_of_def)
  have "saturating_add 5 60000 = 60005" by (simp add: saturating_add_def U64_MAX_def)
  then show "token_of (session_lease (store lx_held)) lx_session = Held 1 (caller_holder (lx_caller 1)) 60005"
    using acquire_granted [OF w(1) lx_session_utf8 si, of lx_session] w(2) ttl(1) by (simp add: work_of_def lx_env_def)
  show "token_of (session_lease (store lx_started)) lx_session = Free 0" using ttl(2) by (simp add: token_of_def)
qed

lemma lx_fence:
  "fence (work_of lx_env lx_held) (lx_caller n) lx_session e = Ok (e = 1 \<and> n = 1)"
  using fence_reachable [OF lx_held_reachable] lx_held_token(1)
  by (auto simp: token_passes_def caller_holder_def lx_caller_def lx_env_def)

section \<open>Properties\<close>

text \<open>
  C37. In every state the authority can reach, through any operations, failures, crashes and restarts:
  each session has one lease row; every active run belongs to the lease of its session, which is held
  and carries exactly the run's epoch, so that a lease that ended or was granted again has no
  active run of an earlier tenure; a run has at most one live environment; and the log is a prefix of
  an outbox that verifies with the head the store records.
\<close>

theorem kernel_invariant:
  assumes "kernel_reachable sha a"
  shows "distinct (map lease_session (session_lease (store a))) \<and>
    (\<forall>r \<in> set (runs (store a)). run_state r = ''ACTIVE'' \<longrightarrow>
       (\<exists>l \<in> set (session_lease (store a)). lease_session l = run_session r \<and> lease_state l = ''HELD'' \<and> lease_epoch l = run_epoch r)) \<and>
    distinct (map env_run_id (filter env_live (environments (store a)))) \<and>
    (\<exists>u. log_bytes (audit_chain (audit (store a))) = contents (audit_log a) @ u) \<and>
    (\<exists>h. verify_audit_log sha (log_bytes (audit_chain (audit (store a)))) =
       Ok \<lparr>summary_records = nat (head_seq (audit (store a))), summary_head = h\<rparr> \<and> to_hex h = head_hash (audit (store a)))"
proof -
  have k: "kernel_inv sha a" by (rule kernel_reachable_inv [OF assms])
  then have s: "store_inv sha (store a)" "sys_inv sha (audit_view a)" by (simp_all add: kernel_inv_def)
  then have t: "leases_inv (session_lease (store a))" "runs_inv (session_lease (store a)) (runs (store a))"
      "envs_inv (runs (store a)) (environments (store a))" "audit_inv sha (audit (store a))" "log_ok (audit (store a)) (audit_log a)"
    by (simp_all add: store_inv_def sys_inv_def)
  have "\<forall>r \<in> set (runs (store a)). run_state r = ''ACTIVE'' \<longrightarrow>
       (\<exists>l \<in> set (session_lease (store a)). lease_session l = run_session r \<and> lease_state l = ''HELD'' \<and> lease_epoch l = run_epoch r)"
    using t(2) unfolding runs_inv_def by blast
  moreover have "nat (head_seq (audit (store a))) = length (audit_chain (audit (store a)))" using t(4) by (simp add: audit_inv_def)
  ultimately show ?thesis using t verify_chain_log [OF t(4)] by (simp add: leases_inv_def envs_inv_def log_ok_def)
qed

theorem kernel_invariant_witness:
  "distinct (map lease_session (session_lease (store lx_held))) \<and>
   (\<exists>u. log_bytes (audit_chain (audit (store lx_held))) = contents (audit_log lx_held) @ u)"
  using kernel_invariant [OF lx_held_reachable] by blast

text \<open>
  C36. Epochs fence. In every reachable state the fence answers; and if it lets a caller pass with some
  epoch of a session, then in every later state, after any operations, crashes and restarts, whoever
  it lets pass for that session carries an epoch at least as large, and with the same epoch only the
  same holder passes. Ended runs stay as they ended.
\<close>

theorem epochs_fence:
  assumes "kernel_reachable sha a" "(kernel_step sha)\<^sup>*\<^sup>* a a'"
    and "fence (work_of env a) caller session epoch = Ok True"
  shows "(\<exists>ok. fence (work_of env' a') caller' session epoch' = Ok ok \<and>
      (ok \<longrightarrow> epoch \<le> epoch' \<and>
        (epoch' = epoch \<longrightarrow> storage_key (subject caller') = storage_key (subject caller) \<and> holder caller' = holder caller))) \<and>
    (\<forall>r \<in> set (runs (store a)). run_state r \<noteq> ''ACTIVE'' \<longrightarrow> r \<in> set (runs (store a')))"
proof -
  let ?t = "token_of (session_lease (store a)) session" and ?t' = "token_of (session_lease (store a')) session"
  have m: "kernel_moves sha a a'" by (rule kernel_steps_moves [OF assms(2) kernel_reachable_inv [OF assms(1)]])
  then have steps: "table_moves\<^sup>*\<^sup>* (session_lease (store a)) (session_lease (store a'))" by (simp add: kernel_moves_def)
  have p: "token_passes ?t (caller_holder caller) epoch (clock_now env)"
    using assms(3) fence_reachable [OF assms(1)] by simp
  have h: "token_holds ?t (caller_holder caller) epoch" by (rule token_passes_holds [OF p])
  have "epoch \<le> epoch' \<and> (epoch' = epoch \<longrightarrow> caller_holder caller' = caller_holder caller)"
    if "token_passes ?t' (caller_holder caller') epoch' (clock_now env')"
  proof -
    have h': "token_holds ?t' (caller_holder caller') epoch'" by (rule token_passes_holds [OF that])
    have "epoch \<le> epoch'"
      using lease.steps_mono [OF steps, of session] lease.holds_epoch [OF h] lease.holds_epoch [OF h'] by simp
    then show ?thesis using lease.one_holder [OF steps h] h' by blast
  qed
  then have "\<exists>ok. fence (work_of env' a') caller' session epoch' = Ok ok \<and> (ok \<longrightarrow> epoch \<le> epoch' \<and>
      (epoch' = epoch \<longrightarrow> storage_key (subject caller') = storage_key (subject caller) \<and> holder caller' = holder caller))"
    using fence_reachable [OF kernel_reachable_steps [OF assms(2,1)]] by (auto simp: caller_holder_def)
  moreover have "\<forall>r \<in> set (runs (store a)). run_state r \<noteq> ''ACTIVE'' \<longrightarrow> r \<in> set (runs (store a'))"
    using m unfolding kernel_moves_def runs_kept_def by metis
  ultimately show ?thesis by blast
qed

theorem epochs_fence_witness:
  "fence (work_of lx_env lx_held) (lx_caller 1) lx_session 1 = Ok True \<and>
   fence (work_of lx_env lx_held) (lx_caller 2) lx_session 1 = Ok False"
proof -
  have f: "fence (work_of lx_env lx_held) (lx_caller 1) lx_session 1 = Ok True" by (simp add: lx_fence)
  have "holder (lx_caller 2) \<noteq> holder (lx_caller 1)" by (simp add: lx_caller_def)
  then show ?thesis
    using epochs_fence [OF lx_held_reachable rtranclp.rtrancl_refl f, of lx_env "lx_caller 2" 1] f by auto
qed

text \<open>
  C38. The kernel implements two specifications at once. Every step of a reachable state is, for each
  session, a sequence of moves of its fencing token, in which each grant takes the next epoch and is
  made only when the token is free, has expired, or is held by the same connection; it is a sequence of steps of the audit log; and the fence is
  exactly the token's test.
\<close>

theorem kernel_refines_token_and_log:
  assumes "kernel_reachable sha a" "kernel_step sha a a'"
  shows "token_moves\<^sup>*\<^sup>* (token_of (session_lease (store a)) session) (token_of (session_lease (store a')) session) \<and>
    (audit_step sha)\<^sup>*\<^sup>* (audit_view a) (audit_view a') \<and>
    fence (work_of env a') caller session epoch =
      Ok (token_passes (token_of (session_lease (store a')) session) (caller_holder caller) epoch (clock_now env))"
proof -
  have m: "kernel_moves sha a a'" by (rule kernel_step_moves [OF assms(2) kernel_reachable_inv [OF assms(1)]])
  then show ?thesis
    using fence_reachable [OF kernel_reachable_step [OF assms]] token_moves_steps by (simp add: kernel_moves_def)
qed

theorem kernel_refines_token_and_log_witness:
  "token_moves\<^sup>*\<^sup>* (Free 0) (Held 1 (''uid:7'', 1, 1) 60005) \<and>
   (audit_step lx_sha)\<^sup>*\<^sup>* (audit_view lx_started) (audit_view lx_held)"
proof -
  have "caller_holder (lx_caller 1) = (''uid:7'', 1, 1)" by (simp add: caller_holder_def lx_caller_def storage_key_def lx_shows)
  then show ?thesis
    using kernel_refines_token_and_log [OF lx_started_reachable lx_held_step, of lx_session] by (simp add: lx_held_token)
qed

text \<open>
  C39. What an acquisition that answers has done. Granted: the epoch is one more than the session's last,
  from now on the fence of the session passes exactly this caller, with exactly this epoch, until the
  lease expires; no run of the session is active; the leases of the other sessions are as they were.
  Refused: another connection holds the lease and it has not expired; no lease and no run changed.
\<close>

theorem acquire_lease_outcome:
  assumes "kernel_reachable sha a" "SessionId_parse session = Some session" "wf_denv denv"
    and "acquire_lease sha env denv caller session a = (Ok reply, a')"
  shows "case reply of
      Done epoch \<Rightarrow> epoch = token_epoch (token_of (session_lease (store a)) session) + 1 \<and>
        (\<forall>env' caller' epoch'. fence (work_of env' a') caller' session epoch' =
           Ok (epoch' = epoch \<and> caller_holder caller' = caller_holder caller \<and>
               clock_now env' < saturating_add (clock_now env) (lease_ttl_ms a))) \<and>
        (\<forall>r \<in> set (runs (store a')). run_session r = session \<longrightarrow> run_state r \<noteq> ''ACTIVE'') \<and>
        (\<forall>s. s \<noteq> session \<longrightarrow> token_of (session_lease (store a')) s = token_of (session_lease (store a)) s)
    | Refused reason \<Rightarrow> reason = LeaseHeld \<and>
        session_lease (store a') = session_lease (store a) \<and> runs (store a') = runs (store a) \<and>
        (\<exists>e h x. token_of (session_lease (store a)) session = Held e h x \<and> int (clock_now env) < x \<and> snd h \<noteq> snd (caller_holder caller))"
proof -
  have inv: "kernel_inv sha a" by (rule kernel_reachable_inv [OF assms(1)])
  have u: "utf8_ok session" using assms(2) parsed_ids(2) by blast
  obtain td w where w: "acquire sha (work_of env a) caller session (lease_ttl_ms a) = Ok ((reply, td), w)"
      "session_lease (store a') = session_lease (tx w)" "runs (store a') = runs (tx w)" "kernel_inv sha a'"
    using acquire_lease_body [OF inv u assms(3,4)] .
  have si: "store_inv sha (tx (work_of env a))" using inv by (simp add: kernel_inv_def work_of_def)
  have sel: "session_lease (tx (work_of env a)) = session_lease (store a)" "runs (tx (work_of env a)) = runs (store a)"
      "now (work_of env a) = clock_now env" by (simp_all add: work_of_def)
  show ?thesis
  proof (cases reply)
    case (Done epoch)
    note g = acquire_granted [OF w(1) [unfolded Done] u si, unfolded sel, folded w(2,3)]
    have li: "leases_inv (session_lease (tx (work_of env' a')))" for env' using w(4) by (simp add: work_of_def kernel_inv_def store_inv_def)
    have "fence (work_of env' a') caller' session epoch' =
           Ok (epoch' = epoch \<and> caller_holder caller' = caller_holder caller \<and>
               clock_now env' < saturating_add (clock_now env) (lease_ttl_ms a))" for env' caller' epoch'
      using fence_token [OF li, of env' caller' session epoch'] g [of session] by (auto simp: token_passes_def work_of_def)
    then show ?thesis using Done g by simp
  next
    case (Refused reason)
    then show ?thesis using acquire_refused [OF w(1) [unfolded Refused] u si, unfolded sel, folded w(2,3)] by simp
  qed
qed

theorem acquire_lease_outcome_witness:
  "fst (acquire_lease lx_sha lx_env lx_denv (lx_caller 1) lx_session lx_started) = Ok (Done 1) \<and>
   fence (work_of lx_env lx_held) (lx_caller 1) lx_session 1 = Ok True \<and>
   fence (work_of lx_env lx_held) (lx_caller 2) lx_session 1 = Ok False"
proof -
  have "lease_ttl_ms lx_started = 60000" using lx_start by blast
  then show ?thesis
    using acquire_lease_outcome [OF lx_started_reachable lx_session_parse lx_denv_wf lx_acquire] lx_acquire
    by (simp add: caller_holder_def lx_caller_def lx_env_def saturating_add_def U64_MAX_def)
qed



end
