(* ===== verification/Spec2Isabelle.thy ===== *)
theory Spec2Isabelle
  imports Cap_Properties Pol_Properties Proto_Properties Auth_Properties Auth_Lease_Properties
begin

text \<open>
  A verification development for the DireWolf authority, the process that decides what an agent
  run may do. The sources are the Rust crates under \<^verbatim>\<open>src/crates\<close>; the paths below are
  relative to \<^verbatim>\<open>src/crates/dwkd-authority/src\<close> unless another crate is named.

  \<^bold>\<open>The program and the parts modelled here.\<close>
  A run holds \<^emph>\<open>capabilities\<close>, texts of the form \<^verbatim>\<open>verb(scope){constraints}\<close>. The parser
  reads a declaration, the resolver replaces declared paths and executables by canonical
  identities, and from then on a capability can only be attenuated or delegated. A \<^emph>\<open>policy\<close>, a
  chain of rule files of which each may extend another, is loaded and composed, and the evaluator
  decides each canonical action: deny, allow with obligations, or ask for approval. Requests
  reach the authority through \<^verbatim>\<open>dwk-proto\<close>: length-prefixed frames whose bodies are read by a
  strict JSON reader and written in the canonical form of RFC 8785. What the authority did is kept
  by its \<^emph>\<open>store\<close>: each transaction appends records to a hash-chained outbox in the database, and
  a writer copies committed records to an append-only log file before a call is answered.

  \<^item> \<^verbatim>\<open>Rust_Prelude\<close>: what the sources use of Rust's standard library (\<^verbatim>\<open>Result\<close> as a sum whose
    \<^verbatim>\<open>Inl\<close> is the error, \<^verbatim>\<open>split_once\<close>, \<^verbatim>\<open>rsplit_once\<close>, \<^verbatim>\<open>split\<close>, ASCII classes, decimal
    printing and \<^verbatim>\<open>str::parse\<close> of unsigned integers) and the generic lemmas on them.
  \<^item> \<^verbatim>\<open>Cap_Verb\<close> models \<^verbatim>\<open>capability/verb.rs\<close> and \<^verbatim>\<open>capability/error.rs\<close>; \<^verbatim>\<open>Cap_Scope\<close> models
    \<^verbatim>\<open>capability/scope.rs\<close>, the canonical identities of \<^verbatim>\<open>resource/mod.rs\<close> and the host grammar
    of \<^verbatim>\<open>wire/host.rs\<close> in \<^verbatim>\<open>dwk-proto\<close>, and states the locale \<^verbatim>\<open>containment\<close>, the contract
    of every containment relation of the sources; \<^verbatim>\<open>Cap_Scope_Laws\<close> gives each scope the set of concrete
    resources it denotes and proves containment equal to inclusion of these sets.
  \<^item> \<^verbatim>\<open>Cap_Constraint\<close> models \<^verbatim>\<open>capability/constraint.rs\<close>; \<^verbatim>\<open>Cap_Constraint_Laws\<close> gives the
    constraint set the set of uses it permits, and proves narrowing exact.
  \<^item> \<^verbatim>\<open>Cap_Authority\<close> models \<^verbatim>\<open>capability/mod.rs\<close>, \<^verbatim>\<open>attenuate.rs\<close> and \<^verbatim>\<open>spec.rs\<close>, with the
    derivation relation (an inductive closure of attenuation and delegation); \<^verbatim>\<open>Cap_Set\<close> models
    \<^verbatim>\<open>capability/set.rs\<close> over the locale \<^verbatim>\<open>minimal_set\<close>, which extends \<^verbatim>\<open>containment\<close>;
    \<^verbatim>\<open>Cap_Parse\<close> models the whole of \<^verbatim>\<open>capability/parse.rs\<close>, every check in its order.
  \<^item> \<^verbatim>\<open>Pol_Vocab\<close> models the vocabulary of \<^verbatim>\<open>policy/\<close> (\<^verbatim>\<open>effect.rs\<close>, \<^verbatim>\<open>reason.rs\<close>,
    \<^verbatim>\<open>action.rs\<close>, \<^verbatim>\<open>context.rs\<close>, \<^verbatim>\<open>obligation.rs\<close>, \<^verbatim>\<open>approval.rs\<close>); \<^verbatim>\<open>Pol_Value\<close> models
    \<^verbatim>\<open>policy/value.rs\<close>; \<^verbatim>\<open>Pol_Eval\<close> models \<^verbatim>\<open>predicate.rs\<close>, \<^verbatim>\<open>rule.rs\<close> and \<^verbatim>\<open>eval.rs\<close>;
    \<^verbatim>\<open>Pol_Compose\<close> models \<^verbatim>\<open>compose.rs\<close> and the checks of \<^verbatim>\<open>load.rs\<close> on compiled rules;
    \<^verbatim>\<open>Pol_Text\<close> proves the text laws of policy values.
  \<^item> \<^verbatim>\<open>Proto_Base\<close> models \<^verbatim>\<open>error.rs\<close>, \<^verbatim>\<open>version.rs\<close> and \<^verbatim>\<open>limits.rs\<close> of \<^verbatim>\<open>dwk-proto\<close>;
    \<^verbatim>\<open>Proto_Frame\<close> models \<^verbatim>\<open>frame.rs\<close>, the incremental decoder as a state machine over chunks
    and, beside it, the specification that cuts a whole stream.
  \<^item> \<^verbatim>\<open>Rust_F64\<close> and \<^verbatim>\<open>Rust_Utf8\<close> are Rust's \<^verbatim>\<open>f64\<close> (as 64-bit words with exact reading and
    shortest printing) and UTF-8; \<^verbatim>\<open>Json_Value\<close> models \<^verbatim>\<open>json/value.rs\<close>, \<^verbatim>\<open>number.rs\<close> and
    \<^verbatim>\<open>jcs.rs\<close>, \<^verbatim>\<open>Json_Lex\<close> models \<^verbatim>\<open>json/lex.rs\<close>; \<^verbatim>\<open>Json_Round\<close>, \<^verbatim>\<open>Json_Canon\<close> and
    \<^verbatim>\<open>Json_Sound\<close> prove the laws of writer and reader.
  \<^item> \<^verbatim>\<open>Auth_Digest\<close> models \<^verbatim>\<open>digest.rs\<close> and the minting of identifiers in \<^verbatim>\<open>state/ids.rs\<close>;
    \<^verbatim>\<open>Wire_Id\<close> models \<^verbatim>\<open>wire/id.rs\<close> of \<^verbatim>\<open>dwk-proto\<close>; \<^verbatim>\<open>Auth_Error\<close> models the errors, callers
    and refusals of the store (\<^verbatim>\<open>state/error.rs\<close>, \<^verbatim>\<open>crash.rs\<close>, \<^verbatim>\<open>db.rs\<close>, \<^verbatim>\<open>identity.rs\<close>).
  \<^item> \<^verbatim>\<open>Auth_Audit\<close> models the records of \<^verbatim>\<open>state/audit.rs\<close> and the audit tables of
    \<^verbatim>\<open>state/schema.rs\<close> with their triggers; \<^verbatim>\<open>Auth_Log\<close> models the readers of the log, the
    comparison with the store and recovery; \<^verbatim>\<open>Auth_Flush\<close> models the writer, and a step relation
    of store, log and writer: appends that commit, flushes that may fail at any write or at a crash
    point, restarts with recovery, and power loss. \<^verbatim>\<open>Auth_Audit_Laws\<close> and \<^verbatim>\<open>Auth_Log_Laws\<close> hold
    the laws of record and log.
  \<^item> \<^verbatim>\<open>Cap_Properties\<close>, \<^verbatim>\<open>Pol_Properties\<close>, \<^verbatim>\<open>Proto_Properties\<close> and \<^verbatim>\<open>Auth_Properties\<close> state
    the correctness properties, each with its number and a witness where it has hypotheses.

  \<^bold>\<open>How the code is represented.\<close>
  A struct is a \<^verbatim>\<open>record\<close> or a one-constructor datatype, an enum a datatype with the source's
  variants, a method \<^verbatim>\<open>T::f\<close> the function \<^verbatim>\<open>T_f\<close>. A \<^verbatim>\<open>Result\<close> is a sum with the typed error on
  the left, so that each early return of the code is a branch of the model. Integers that are only
  compared and printed are \<^verbatim>\<open>nat\<close> with their width as an invariant; octets and bit sets are
  \<^verbatim>\<open>word\<close>s. Strings are lists of characters; the grammars accept ASCII only, and bytes and
  characters agree on every accepted text. Loops are structural recursions or \<^verbatim>\<open>function\<close>s with a
  termination proof; the resolution of an extends chain ends by the bound
  \<^verbatim>\<open>MAX_EXTENDS_DEPTH\<close>, and no definition needs fuel.

  SHA-256 is a third-party crate: the digest is a parameter of every definition that hashes, and no
  theorem assumes it free of collisions (tamper evidence says \<^emph>\<open>equal or a collision\<close>). The
  database answers as its tables say, with the constraints and triggers of the schema written out.
  The environment of a flush decides at which write, sync or crash point it fails; power loss keeps
  the synced bytes and any prefix of the rest. A flush is one step: commits of other threads
  during a flush are ordered before or after it, and errors of reading the log are not modelled.

  \<^bold>\<open>Interfaces.\<close>
  \<^verbatim>\<open>containment\<close> is interpreted on hosts, ports, endpoints, patterns, provider models, paths,
  syntactic scopes, scopes, constraint sets, capabilities and effects;
  \<^verbatim>\<open>minimal_set\<close> on capabilities. Each interpretation proves the laws of the code's own relation.

  \<^bold>\<open>What is shown.\<close>
  Capabilities: attenuation, delegation and any sequence of them stay within the parent; scope,
  constraint and set containment are exactly inclusion of what they denote; the set is a canonical
  representation; parser and printer are inverse. Policies: extending a policy and removing
  information never widen an effect; a policy with a default rule always decides, and denies by
  default; composition ends and keeps its shape; the values of rules match what they denote and
  round-trip through their text. Protocol: however a stream is cut into chunks, the decoder yields
  the frames of the specification; the strict reader returns only well-formed values (no duplicate
  key, nesting within the bound) and inverts the canonical writer; canonical bytes are equal
  exactly on equal values. The writer's laws are stated for values without floats. Store: two logs that verify with
  the same head are equal or exhibit a collision; in every reachable state the log is a prefix of
  the verified outbox and holds every flushed record; recovery succeeds from every reachable state,
  accepts exactly the logs the writer can have left, and no acknowledged record is ever lost;
  minted identifiers are distinct and accepted by the wire.

  \<^bold>\<open>What is not modelled.\<close>
  The English texts of errors; sockets, threads and the calls into the operating system; the
  walk over the TOML document (the parser is a third-party crate); the sandbox and broker
  processes. The further parts in the plan, in this order: the lease and epoch state machine
  (\<^verbatim>\<open>state/lease.rs\<close>), run admission, and the egress guard of the broker.
\<close>

end
